(* ===== verification/Prelude.thy ===== *)
theory Prelude
  imports Main "HOL-Library.Word" "HOL-Library.Char_ord" "HOL-Library.List_Lexorder"
begin

text \<open>
  What the components share: the faults the C++ code can run into, the result type of the
  operations that can fail, the parts of the C and C++ standard libraries that the sources under
  src/worker/binding use (C strings, \<open>strstr\<close>, decimal printing and reading, \<open>std::map\<close>,
  \<open>std::string::find\<close>), the generic lemmas about them, and the two interfaces that several
  components rely on: an ordered map and an encoding with its decoder.
\<close>

named_theorems bound_simps \<open>length and range bounds\<close>

section \<open>Faults and results\<close>

text \<open>
  A fault is an end of the C++ program that is not a return: a failed \<open>assert\<close>, a call of
  \<open>exit\<close>, an exception of the standard library that nothing catches, or one of the undefined
  behaviours the sources can reach. \<open>Library_contract\<close> is a call of a third-party library
  outside its documented precondition, \<open>Go_panic\<close> a panic of the Go process around the bindings.
\<close>

datatype fault =
    Assertion_failed
  | Exit int
  | Library_contract
  | Uncaught_exception
  | Null_deref
  | Uninitialised_read
  | Buffer_overrun
  | Use_after_free
  | Int_overflow
  | Go_panic string

type_synonym 'a result = "fault + 'a"

definition res_bind :: "'a result \<Rightarrow> ('a \<Rightarrow> 'b result) \<Rightarrow> 'b result" where
  "res_bind r f = (case r of Inl e \<Rightarrow> Inl e | Inr x \<Rightarrow> f x)"

definition guard :: "bool \<Rightarrow> fault \<Rightarrow> unit result" where
  "guard b e = (if b then Inr () else Inl e)"

lemma res_bind_simps [simp]:
  "res_bind (Inl e) f = Inl e"
  "res_bind (Inr x) f = f x"
  by (simp_all add: res_bind_def)

lemma guard_simps [simp]:
  "guard True e = Inr ()"
  "guard False e = Inl e"
  by (simp_all add: guard_def)

lemma res_bind_eq_Inr_iff:
  "res_bind r f = Inr y \<longleftrightarrow> (\<exists>x. r = Inr x \<and> f x = Inr y)"
  by (cases r) auto

lemma res_bind_eq_Inl_iff:
  "res_bind r f = Inl e \<longleftrightarrow> r = Inl e \<or> (\<exists>x. r = Inr x \<and> f x = Inl e)"
  by (cases r) auto

lemma guard_eq_Inr_iff [simp]: "guard b e = Inr u \<longleftrightarrow> b"
  by (simp add: guard_def)

lemma guard_eq_Inl_iff [simp]: "guard b e = Inl e' \<longleftrightarrow> \<not> b \<and> e' = e"
  by (auto simp: guard_def)

lemma res_bind_assoc: "res_bind (res_bind r f) g = res_bind r (\<lambda>x. res_bind (f x) g)"
  by (cases r) auto

text \<open>A loop over a list whose body may fail stops at the first fault.\<close>

fun res_map :: "('a \<Rightarrow> 'b result) \<Rightarrow> 'a list \<Rightarrow> 'b list result" where
  "res_map f [] = Inr []"
| "res_map f (x # xs) = res_bind (f x) (\<lambda>y. res_bind (res_map f xs) (\<lambda>ys. Inr (y # ys)))"

lemma res_map_Inr [simp]: "(\<And>x. x \<in> set xs \<Longrightarrow> f x = Inr (g x)) \<Longrightarrow> res_map f xs = Inr (map g xs)"
  by (induction xs) auto

lemma res_map_eq_Inr_length: "res_map f xs = Inr ys \<Longrightarrow> length ys = length xs"
  by (induction xs arbitrary: ys) (auto simp: res_bind_eq_Inr_iff)

section \<open>Pointers\<close>

text \<open>
  A pointer that the code may find uninitialised or null, and a \<open>const char*\<close> a function
  returns: its referent is alive at the return, or it was destroyed with the frame (\<open>Dangling\<close>
  keeps the bytes that were there, which the caller may not read).
\<close>

datatype 'a pointer = Indeterminate | Null | Ptr 'a

datatype cstring_ptr = Live string | Dangling string

section \<open>C strings\<close>

text \<open>The NUL character ends a C string: \<open>s.c_str()\<close> and \<open>string(const char*)\<close> stop there.\<close>

definition NUL :: char where
  "NUL = CHR 0x00"

definition c_str :: "string \<Rightarrow> string" where
  "c_str s = takeWhile (\<lambda>c. c \<noteq> NUL) s"

lemma c_str_no_NUL [simp]: "NUL \<notin> set (c_str s)"
  by (auto simp: c_str_def dest: set_takeWhileD)

lemma c_str_id [simp]: "NUL \<notin> set s \<Longrightarrow> c_str s = s"
  unfolding c_str_def by (induction s) auto

lemma c_str_idem [simp]: "c_str (c_str s) = c_str s"
  by simp

lemma c_str_append: "NUL \<notin> set s \<Longrightarrow> c_str (s @ t) = s @ c_str t"
  by (induction s) (auto simp: c_str_def)

lemma c_str_Nil [simp]: "c_str [] = []"
  by (simp add: c_str_def)

lemma length_c_str_le [simp, bound_simps]: "length (c_str s) \<le> length s"
  by (simp add: c_str_def length_takeWhile_le)

section \<open>Substring search\<close>

text \<open>\<open>strstr(h, n) != NULL\<close>, and \<open>std::string::find\<close> with \<open>npos\<close> as \<open>None\<close>.\<close>

fun is_prefix :: "'a list \<Rightarrow> 'a list \<Rightarrow> bool" where
  "is_prefix [] ys = True"
| "is_prefix (x # xs) [] = False"
| "is_prefix (x # xs) (y # ys) = (x = y \<and> is_prefix xs ys)"

fun str_find :: "'a list \<Rightarrow> 'a list \<Rightarrow> nat option" where
  "str_find n [] = (if n = [] then Some 0 else None)"
| "str_find n (c # h) = (if is_prefix n (c # h) then Some 0 else map_option Suc (str_find n h))"

definition strstr :: "string \<Rightarrow> string \<Rightarrow> bool" where
  "strstr h n = (str_find n h \<noteq> None)"

lemma is_prefix_iff: "is_prefix xs ys \<longleftrightarrow> (\<exists>zs. ys = xs @ zs)"
  by (induction xs ys rule: is_prefix.induct) auto

lemma is_prefix_append [simp]: "is_prefix xs (xs @ ys)"
  by (auto simp: is_prefix_iff)

lemma str_find_Some_split:
  "str_find n h = Some i \<Longrightarrow> h = take i h @ n @ drop (i + length n) h"
proof (induction h arbitrary: i)
  case Nil
  then show ?case by (auto split: if_splits)
next
  case (Cons c h)
  show ?case
  proof (cases "is_prefix n (c # h)")
    case True
    then obtain zs where zs: "c # h = n @ zs" by (auto simp: is_prefix_iff)
    have "i = 0" using Cons.prems True by simp
    then show ?thesis by (simp add: zs)
  next
    case False
    with Cons.prems obtain j where "str_find n h = Some j" and "i = Suc j" by auto
    with Cons.IH show ?thesis by simp
  qed
qed

lemma str_find_None_iff: "str_find n h = None \<longleftrightarrow> (\<forall>a b. h \<noteq> a @ n @ b)"
proof (induction h)
  case Nil
  then show ?case by auto
next
  case (Cons c h)
  show ?case
  proof
    assume L: "str_find n (c # h) = None"
    show "\<forall>a b. c # h \<noteq> a @ n @ b"
    proof (intro allI notI)
      fix a b assume ab: "c # h = a @ n @ b"
      show False
      proof (cases a)
        case Nil
        with ab have "is_prefix n (c # h)" by simp
        with L show False by simp
      next
        case (Cons d a')
        with ab have "h = a' @ n @ b" by simp
        moreover have "str_find n h = None" using L by (auto split: if_splits)
        ultimately show False using Cons.IH by blast
      qed
    qed
  next
    assume R: "\<forall>a b. c # h \<noteq> a @ n @ b"
    have "\<not> is_prefix n (c # h)" using R [rule_format, of "[]"] by (auto simp: is_prefix_iff)
    moreover have "str_find n h = None"
      unfolding Cons.IH using R by (metis append_Cons)
    ultimately show "str_find n (c # h) = None" by simp
  qed
qed

lemma strstr_iff: "strstr h n \<longleftrightarrow> (\<exists>a b. h = a @ n @ b)"
  using str_find_None_iff [of n h] by (auto simp: strstr_def)

lemma strstr_infix [simp, intro]: "strstr (a @ n @ b) n"
  by (auto simp: strstr_iff)

lemma str_find_single: "d \<notin> set s \<Longrightarrow> str_find [d] (s @ d # t) = Some (length s)"
  by (induction s) auto

lemma str_find_single_None [simp]: "d \<notin> set s \<Longrightarrow> str_find [d] s = None"
  by (induction s) auto

section \<open>Decimal numbers\<close>

definition digit_chars :: string where
  "digit_chars = ''0123456789''"

definition is_digit :: "char \<Rightarrow> bool" where
  "is_digit c \<longleftrightarrow> c \<in> set digit_chars"

definition digit_char :: "nat \<Rightarrow> char" where
  "digit_char d = digit_chars ! d"

definition digit_val :: "char \<Rightarrow> nat" where
  "digit_val c = of_char c - 48"

fun dec_of_nat :: "nat \<Rightarrow> string" where
  "dec_of_nat n = (if n < 10 then [digit_char n] else dec_of_nat (n div 10) @ [digit_char (n mod 10)])"

declare dec_of_nat.simps [simp del]

text \<open>\<open>%d\<close>, \<open>%i\<close> and \<open>ostream << n\<close>.\<close>

definition dec_of_int :: "int \<Rightarrow> string" where
  "dec_of_int i = (if i < 0 then CHR ''-'' # dec_of_nat (nat (- i)) else dec_of_nat (nat i))"

definition nat_of_dec :: "string \<Rightarrow> nat" where
  "nat_of_dec s = foldl (\<lambda>a c. 10 * a + digit_val c) 0 s"

lemma less_10_cases:
  "(d::nat) < 10 \<Longrightarrow> d = 0 \<or> d = 1 \<or> d = 2 \<or> d = 3 \<or> d = 4 \<or> d = 5 \<or> d = 6 \<or> d = 7 \<or> d = 8 \<or> d = 9"
  by presburger

lemma digit_val_char [simp]: "d < 10 \<Longrightarrow> digit_val (digit_char d) = d"
  by (drule less_10_cases) (auto simp: digit_val_def digit_char_def digit_chars_def)

lemma is_digit_char [simp]: "d < 10 \<Longrightarrow> is_digit (digit_char d)"
  by (drule less_10_cases) (auto simp: is_digit_def digit_char_def digit_chars_def)

lemma digit_char_inject [simp]: "d < 10 \<Longrightarrow> e < 10 \<Longrightarrow> digit_char d = digit_char e \<longleftrightarrow> d = e"
  by (metis digit_val_char)

lemma digit_not_special:
  "is_digit c \<Longrightarrow> c \<noteq> NUL \<and> c \<noteq> CHR '';'' \<and> c \<noteq> CHR ''-'' \<and> c \<noteq> CHR '':'' \<and> c \<noteq> CHR ''T''"
  by (auto simp: is_digit_def digit_chars_def NUL_def)

lemma dec_of_nat_digits [simp]: "list_all is_digit (dec_of_nat n)"
  by (induction n rule: dec_of_nat.induct) (subst dec_of_nat.simps, auto)

lemma dec_of_nat_nonempty [simp]: "dec_of_nat n \<noteq> []"
  by (subst dec_of_nat.simps) simp

lemma nat_of_dec_snoc: "nat_of_dec (s @ [c]) = 10 * nat_of_dec s + digit_val c"
  by (simp add: nat_of_dec_def)

lemma nat_of_dec_of_nat [simp]: "nat_of_dec (dec_of_nat n) = n"
proof (induction n rule: dec_of_nat.induct)
  case (1 n)
  show ?case
  proof (cases "n < 10")
    case True
    then show ?thesis by (subst dec_of_nat.simps) (simp add: nat_of_dec_def)
  next
    case False
    with 1 show ?thesis by (subst dec_of_nat.simps) (simp add: nat_of_dec_snoc)
  qed
qed

lemma dec_of_nat_inject [simp]: "dec_of_nat m = dec_of_nat n \<longleftrightarrow> m = n"
  by (metis nat_of_dec_of_nat)

lemma length_dec_of_nat_le_iff [bound_simps]:
  "0 < k \<Longrightarrow> length (dec_of_nat n) \<le> k \<longleftrightarrow> n < 10 ^ k"
proof (induction n arbitrary: k rule: dec_of_nat.induct)
  case (1 n)
  show ?case
  proof (cases "n < 10")
    case True
    have "(10::nat) ^ 1 \<le> 10 ^ k" using \<open>0 < k\<close> by (intro power_increasing) auto
    then have "n < 10 ^ k" using True by simp
    moreover have "length (dec_of_nat n) \<le> k" using True \<open>0 < k\<close> by (subst dec_of_nat.simps) simp
    ultimately show ?thesis by simp
  next
    case False
    have len: "length (dec_of_nat n) = Suc (length (dec_of_nat (n div 10)))"
      using False by (subst dec_of_nat.simps) simp
    show ?thesis
    proof (cases "k = 1")
      case True
      then show ?thesis using False len by simp
    next
      case k: False
      with \<open>0 < k\<close> obtain j where j: "k = Suc j" "0 < j" by (cases k) auto
      have "length (dec_of_nat n) \<le> k \<longleftrightarrow> n div 10 < 10 ^ j"
        using "1.IH" [OF False \<open>0 < j\<close>] by (simp add: len j)
      also have "\<dots> \<longleftrightarrow> n < 10 ^ k" by (simp add: j div_less_iff_less_mult mult.commute)
      finally show ?thesis .
    qed
  qed
qed

lemma dec_of_nat_single: "n < 10 \<Longrightarrow> dec_of_nat n = [digit_char n]"
  by (subst dec_of_nat.simps) simp

lemma dec_of_nat_double: "10 \<le> n \<Longrightarrow> n < 100 \<Longrightarrow> dec_of_nat n = [digit_char (n div 10), digit_char (n mod 10)]"
  by (subst dec_of_nat.simps) (simp add: dec_of_nat_single)

section \<open>Reading numbers: atoi and std::stoi\<close>

text \<open>
  Both skip white space, take an optional sign and the digits that follow. Where the value does not
  fit an \<open>int\<close>, the C standard leaves \<open>atoi\<close> undefined and \<open>std::stoi\<close> throws; \<open>std::stoi\<close>
  also throws where there is no digit, where \<open>atoi\<close> returns 0.
\<close>

abbreviation INT_MAX :: int where
  "INT_MAX \<equiv> 2147483647"

abbreviation INT_MIN :: int where
  "INT_MIN \<equiv> - 2147483648"

definition is_space :: "char \<Rightarrow> bool" where
  "is_space c \<longleftrightarrow> c \<in> {CHR '' '', CHR 0x09, CHR 0x0A, CHR 0x0B, CHR 0x0C, CHR 0x0D}"

definition strtol_digits :: "string \<Rightarrow> bool \<times> string" where
  "strtol_digits s =
     (case dropWhile is_space s of
        [] \<Rightarrow> (False, [])
      | c # t \<Rightarrow>
          if c = CHR ''-'' then (True, takeWhile is_digit t)
          else if c = CHR ''+'' then (False, takeWhile is_digit t)
          else (False, takeWhile is_digit (c # t)))"

definition signed_value :: "bool \<times> string \<Rightarrow> int" where
  "signed_value p = (if fst p then - int (nat_of_dec (snd p)) else int (nat_of_dec (snd p)))"

definition atoi :: "string \<Rightarrow> int result" where
  "atoi s =
     (let v = signed_value (strtol_digits s)
      in if INT_MIN \<le> v \<and> v \<le> INT_MAX then Inr v else Inl Int_overflow)"

definition stoi :: "string \<Rightarrow> int result" where
  "stoi s =
     (let p = strtol_digits s; v = signed_value p
      in if snd p = [] then Inl Uncaught_exception
         else if INT_MIN \<le> v \<and> v \<le> INT_MAX then Inr v else Inl Uncaught_exception)"

lemmas c_eval = atoi_def stoi_def strtol_digits_def signed_value_def nat_of_dec_def digit_val_def
  is_space_def is_digit_def digit_chars_def digit_char_def c_str_def NUL_def

lemma digit_not_sign_or_space:
  "is_digit c \<Longrightarrow> \<not> is_space c \<and> c \<noteq> CHR ''-'' \<and> c \<noteq> CHR ''+''"
  by (auto simp: is_digit_def digit_chars_def is_space_def)

lemma strtol_digits_dec_of_nat [simp]: "strtol_digits (dec_of_nat n) = (False, dec_of_nat n)"
proof -
  obtain c t where ct: "dec_of_nat n = c # t" by (cases "dec_of_nat n") auto
  then have dig: "is_digit c" "list_all is_digit t"
    using dec_of_nat_digits [of n] by auto
  then have "takeWhile is_digit (c # t) = c # t"
    by (simp add: takeWhile_eq_all_conv list_all_iff)
  with ct dig show ?thesis
    using digit_not_sign_or_space [OF dig(1)] by (simp add: strtol_digits_def)
qed

lemma atoi_dec_of_nat [simp]: "int n \<le> INT_MAX \<Longrightarrow> atoi (dec_of_nat n) = Inr (int n)"
  by (simp add: atoi_def signed_value_def Let_def)

lemma atoi_range: "atoi s = Inr v \<Longrightarrow> INT_MIN \<le> v \<and> v \<le> INT_MAX"
  by (auto simp: atoi_def Let_def split: if_splits)

lemma atoi_Nil [simp]: "atoi [] = Inr 0"
  by (simp add: atoi_def strtol_digits_def signed_value_def nat_of_dec_def)

lemma stoi_atoi: "stoi s = Inr v \<Longrightarrow> atoi s = Inr v"
  by (auto simp: stoi_def atoi_def Let_def split: if_splits)

section \<open>std::map\<close>

text \<open>
  A \<open>std::map\<close> keeps one entry per key and iterates in increasing key order; a \<open>std::string\<close> key
  is compared byte by byte, unsigned, which is the order of \<open>char list\<close> here. \<open>m[k] = v\<close>
  inserts the entry or overwrites it.
\<close>

type_synonym ('k, 'v) std_map = "('k \<times> 'v) list"

fun map_assign :: "'k::linorder \<Rightarrow> 'v \<Rightarrow> ('k, 'v) std_map \<Rightarrow> ('k, 'v) std_map" where
  "map_assign k v [] = [(k, v)]"
| "map_assign k v ((k', v') # m) =
     (if k < k' then (k, v) # (k', v') # m
      else if k = k' then (k, v) # m
      else (k', v') # map_assign k v m)"

definition map_invar :: "('k::linorder, 'v) std_map \<Rightarrow> bool" where
  "map_invar m = sorted_wrt (<) (map fst m)"

lemma map_assign_keys: "set (map fst (map_assign k v m)) = insert k (set (map fst m))"
  by (induction k v m rule: map_assign.induct) auto

lemma map_invar_Nil [simp]: "map_invar []"
  by (simp add: map_invar_def)

lemma map_invar_assign [simp, intro]: "map_invar m \<Longrightarrow> map_invar (map_assign k v m)"
proof (induction k v m rule: map_assign.induct)
  case (1 k v)
  then show ?case by (simp add: map_invar_def)
next
  case (2 k v k' v' m)
  have "\<forall>x \<in> set (map fst (map_assign k v m)). k' < x" if "\<not> k < k'" "k \<noteq> k'"
    using that 2(2) unfolding map_assign_keys by (auto simp: map_invar_def)
  with 2 show ?case by (fastforce simp: map_invar_def)
qed

lemma map_of_assign [simp]: "map_of (map_assign k v m) = (map_of m)(k \<mapsto> v)"
  by (induction k v m rule: map_assign.induct) (auto simp: fun_eq_iff)

lemma map_invar_distinct: "map_invar m \<Longrightarrow> distinct (map fst m)"
  by (auto simp: map_invar_def strict_sorted_iff)

text \<open>The last entry of an ordered map is the one with the greatest key.\<close>

lemma map_invar_last:
  assumes "map_invar m" "m \<noteq> []"
  shows "fst (last m) = Max (fst ` set m)" and "map_of m (fst (last m)) = Some (snd (last m))"
proof -
  have m: "m = butlast m @ [last m]" using assms(2) by simp
  have "sorted_wrt (<) (map fst (butlast m) @ [fst (last m)])"
    using assms(1) unfolding map_invar_def by (subst (asm) m) simp
  then have "\<forall>k \<in> fst ` set m. k \<le> fst (last m)"
    by (subst m) (auto simp: sorted_wrt_append less_imp_le)
  then show "fst (last m) = Max (fst ` set m)"
    using assms(2) by (intro Max_eqI [symmetric]) auto
  show "map_of m (fst (last m)) = Some (snd (last m))"
    using map_invar_distinct [OF assms(1)] assms(2) by simp
qed

lemma map_of_eq_same_keys:
  "map fst xs = map fst ys \<Longrightarrow> distinct (map fst xs) \<Longrightarrow> map_of xs = map_of ys \<Longrightarrow> xs = ys"
proof (induction xs arbitrary: ys)
  case Nil
  then show ?case by simp
next
  case (Cons x xs)
  then obtain y ys' where ys: "ys = y # ys'" by (cases ys) auto
  have fst_eq: "fst y = fst x" and tl: "map fst xs = map fst ys'" using Cons.prems by (auto simp: ys)
  have "map_of (x # xs) (fst x) = map_of (y # ys') (fst x)" using Cons.prems by (simp only: ys)
  then have snd_eq: "snd y = snd x" using fst_eq by simp
  have "map_of xs k = map_of ys' k" for k
  proof (cases "k = fst x")
    case True
    have "fst x \<notin> fst ` set xs" using Cons.prems(2) by simp
    moreover have "fst x \<notin> fst ` set ys'" using tl by (metis calculation list.set_map)
    ultimately show ?thesis using True by (simp add: map_of_eq_None_iff [THEN iffD2])
  next
    case False
    have "map_of (x # xs) k = map_of (y # ys') k" using Cons.prems by (simp only: ys)
    with False fst_eq show ?thesis by simp
  qed
  then have "map_of xs = map_of ys'" ..
  moreover have "distinct (map fst xs)" using Cons.prems(2) by simp
  ultimately have "xs = ys'" using tl Cons.IH by blast
  moreover have "x = y" using fst_eq snd_eq by (simp add: prod_eq_iff)
  ultimately show ?case by (simp add: ys)
qed

lemma map_assign_nonempty [simp]: "map_assign k v m \<noteq> []"
  by (cases m) (auto split: if_splits)

section \<open>Interfaces\<close>

text \<open>
  What a client of an ordered map relies on: a lookup after an assignment, and an iteration that
  yields every entry once in increasing key order.
\<close>

locale ordered_map =
  fixes empty :: "'m"
    and assign :: "'k::linorder \<Rightarrow> 'v \<Rightarrow> 'm \<Rightarrow> 'm"
    and lookup :: "'m \<Rightarrow> 'k \<Rightarrow> 'v option"
    and entries :: "'m \<Rightarrow> ('k \<times> 'v) list"
    and invar :: "'m \<Rightarrow> bool"
  assumes invar_empty: "invar empty"
    and invar_assign: "invar m \<Longrightarrow> invar (assign k v m)"
    and lookup_empty: "lookup empty = (\<lambda>_. None)"
    and lookup_assign: "invar m \<Longrightarrow> lookup (assign k v m) = (lookup m)(k \<mapsto> v)"
    and entries_sorted: "invar m \<Longrightarrow> sorted_wrt (<) (map fst (entries m))"
    and entries_lookup: "invar m \<Longrightarrow> map_of (entries m) = lookup m"
begin

definition assign_all :: "('k \<times> 'v) list \<Rightarrow> 'm \<Rightarrow> 'm" where
  "assign_all kvs m = fold (\<lambda>(k, v). assign k v) kvs m"

lemma assign_all_simps [simp]:
  "assign_all [] m = m"
  "assign_all ((k, v) # kvs) m = assign_all kvs (assign k v m)"
  by (simp_all add: assign_all_def)

lemma invar_assign_all: "invar m \<Longrightarrow> invar (assign_all kvs m)"
  by (induction kvs arbitrary: m) (auto simp: invar_assign)

text \<open>The last assignment to a key wins.\<close>

lemma lookup_assign_all: "invar m \<Longrightarrow> lookup (assign_all kvs m) = lookup m ++ map_of (rev kvs)"
proof (induction kvs arbitrary: m)
  case Nil
  then show ?case by simp
next
  case (Cons kv kvs)
  obtain k v where kv: "kv = (k, v)" by (cases kv)
  have "lookup (assign_all (kv # kvs) m) = (lookup m)(k \<mapsto> v) ++ map_of (rev kvs)"
    using Cons.IH [OF invar_assign [OF Cons.prems]] Cons.prems
    by (simp add: kv lookup_assign fun_upd_def)
  also have "\<dots> = lookup m ++ map_of (rev (kv # kvs))"
    by (auto simp: kv fun_eq_iff map_add_def split: option.splits)
  finally show ?case .
qed

lemma entries_iff: "invar m \<Longrightarrow> (k, v) \<in> set (entries m) \<longleftrightarrow> lookup m k = Some v"
  using entries_sorted [of m] by (simp flip: entries_lookup add: strict_sorted_iff)

lemma entries_keys: "invar m \<Longrightarrow> set (map fst (entries m)) = dom (lookup m)"
  by (simp flip: entries_lookup add: dom_map_of_conv_image_fst)

text \<open>The iteration depends on the contents only, not on the order of the assignments.\<close>

lemma entries_eqI:
  assumes "invar m" "invar m'" "lookup m = lookup m'"
  shows "entries m = entries m'"
proof -
  have keys: "map fst (entries m) = map fst (entries m')"
  proof (rule sorted_distinct_set_unique)
    show "set (map fst (entries m)) = set (map fst (entries m'))"
      using assms by (simp only: entries_keys)
  qed (use entries_sorted [OF assms(1)] entries_sorted [OF assms(2)] in \<open>simp_all add: strict_sorted_iff\<close>)
  have dist: "distinct (map fst (entries m))"
    using entries_sorted [OF assms(1)] by (simp add: strict_sorted_iff)
  show ?thesis
    by (rule map_of_eq_same_keys) (use assms keys dist in \<open>simp_all add: entries_lookup\<close>)
qed

end

interpretation std_map: ordered_map "[]" map_assign map_of "\<lambda>m. m" map_invar
  by unfold_locales (auto, simp add: map_invar_def)

text \<open>
  An encoding with a decoder that reads back every valid value: it loses nothing, so two valid
  values never share an encoding.
\<close>

locale codec =
  fixes enc :: "'a \<Rightarrow> 'b" and dec :: "'b \<Rightarrow> 'a option" and valid :: "'a \<Rightarrow> bool"
  assumes dec_enc: "valid x \<Longrightarrow> dec (enc x) = Some x"
begin

lemma enc_inject: "valid x \<Longrightarrow> valid y \<Longrightarrow> enc x = enc y \<longleftrightarrow> x = y"
  by (metis dec_enc option.inject)

lemma enc_inj_on: "inj_on enc (Collect valid)"
  by (rule inj_onI) (simp add: enc_inject)

end

interpretation decimal: codec dec_of_nat "\<lambda>s. Some (nat_of_dec s)" "\<lambda>_. True"
  by unfold_locales simp

end
