(* ===== verification/Clock.thy ===== *)
theory Clock
  imports Prelude
begin

text \<open>
  Timestamps: \<open>ConvertToISO8601\<close> of worker.cc with the parts of the C library it uses, \<open>gmtime\<close>
  (the civil date and the time of day of a \<open>time_t\<close>) and \<open>strftime\<close> with the format
  \<open>%FT%T\<close> into a buffer of 20 bytes. The lemmas show that \<open>gmtime\<close> is inverted by
  \<open>timegm\<close>, that its fields are in range, and that the text determines the second.
\<close>

section \<open>The civil calendar\<close>

definition is_leap :: "int \<Rightarrow> bool" where
  "is_leap y \<longleftrightarrow> y mod 4 = 0 \<and> (y mod 100 \<noteq> 0 \<or> y mod 400 = 0)"

definition year_len :: "int \<Rightarrow> nat" where
  "year_len y = (if is_leap y then 366 else 365)"

definition month_lens :: "int \<Rightarrow> nat list" where
  "month_lens y = [31, if is_leap y then 29 else 28, 31, 30, 31, 30, 31, 31, 30, 31, 30, 31]"

text \<open>The days from 1 January of year 1 to 1 January of year \<open>y\<close>.\<close>

definition days_before_year :: "int \<Rightarrow> int" where
  "days_before_year y = 365 * (y - 1) + (y - 1) div 4 - (y - 1) div 100 + (y - 1) div 400"

definition epoch_days :: int where
  "epoch_days = days_before_year 1970"

function year_walk :: "int \<Rightarrow> nat \<Rightarrow> int \<times> nat" where
  "year_walk y n = (if n < year_len y then (y, n) else year_walk (y + 1) (n - year_len y))"
  by pat_completeness auto
termination
  by (relation "measure snd") (auto simp: year_len_def)

declare year_walk.simps [simp del]

fun month_walk :: "nat list \<Rightarrow> nat \<Rightarrow> nat \<Rightarrow> nat \<times> nat" where
  "month_walk [] m n = (m, n)"
| "month_walk (l # ls) m n = (if n < l then (m, n) else month_walk ls (Suc m) (n - l))"

record tm =
  tm_year :: int
  tm_mon :: nat
  tm_mday :: nat
  tm_hour :: nat
  tm_min :: nat
  tm_sec :: nat

text \<open>
  \<open>gmtime\<close>: whole 400-year cycles are taken off first, so that the walk over the years is bounded
  by 400. The fields here are the civil ones: the full year, and months and days from 1.
\<close>

definition civil_of_days :: "int \<Rightarrow> int \<times> nat \<times> nat" where
  "civil_of_days d =
     (let z = d + epoch_days - days_before_year 2000;
          (y, n) = year_walk 2000 (nat (z mod 146097));
          (m, k) = month_walk (month_lens y) 1 n
      in (y + 400 * (z div 146097), m, Suc k))"

definition gmtime :: "int \<Rightarrow> tm" where
  "gmtime t =
     (let (y, m, d) = civil_of_days (t div 86400); s = nat (t mod 86400)
      in \<lparr>tm_year = y, tm_mon = m, tm_mday = d,
          tm_hour = s div 3600, tm_min = s mod 3600 div 60, tm_sec = s mod 60\<rparr>)"

definition days_of_civil :: "int \<Rightarrow> nat \<Rightarrow> nat \<Rightarrow> int" where
  "days_of_civil y m d =
     days_before_year y + int (sum_list (take (m - 1) (month_lens y))) + int d - 1 - epoch_days"

definition timegm :: "tm \<Rightarrow> int" where
  "timegm x = 86400 * days_of_civil (tm_year x) (tm_mon x) (tm_mday x)
     + 3600 * int (tm_hour x) + 60 * int (tm_min x) + int (tm_sec x)"

definition valid_tm :: "tm \<Rightarrow> bool" where
  "valid_tm x \<longleftrightarrow> 1 \<le> tm_mon x \<and> tm_mon x \<le> 12 \<and> 1 \<le> tm_mday x
     \<and> tm_mday x \<le> month_lens (tm_year x) ! (tm_mon x - 1)
     \<and> tm_hour x < 24 \<and> tm_min x < 60 \<and> tm_sec x < 60"

section \<open>strftime and ConvertToISO8601\<close>

text \<open>\<open>%02d\<close>.\<close>

definition two_digits :: "nat \<Rightarrow> string" where
  "two_digits n = (if n < 10 then CHR ''0'' # dec_of_nat n else dec_of_nat n)"

definition strftime_FT :: "tm \<Rightarrow> string" where
  "strftime_FT x = dec_of_int (tm_year x) @ ''-'' @ two_digits (tm_mon x) @ ''-'' @ two_digits (tm_mday x)
     @ ''T'' @ two_digits (tm_hour x) @ '':'' @ two_digits (tm_min x) @ '':'' @ two_digits (tm_sec x)"

text \<open>
  The buffer of \<open>sizeof "2016-08-09T10:11:12"\<close> bytes. \<open>gmtime\<close> returns a null pointer where the
  year does not fit \<open>tm_year\<close>; where the text and its NUL do not fit the buffer, \<open>strftime\<close>
  leaves the buffer indeterminate and the code still reads it.
\<close>

definition iso_buf_size :: nat where
  "iso_buf_size = 20"

definition format_time :: "int \<Rightarrow> string result" where
  "format_time now =
     (let x = gmtime now
      in if tm_year x - 1900 < INT_MIN \<or> INT_MAX < tm_year x - 1900 then Inl Null_deref
         else if iso_buf_size < length (strftime_FT x) + 1 then Inl Uninitialised_read
         else Inr (strftime_FT x))"

text \<open>\<open>clock\<close> is what \<open>time(&now)\<close> stores.\<close>

definition ConvertToISO8601 :: "int \<Rightarrow> string \<Rightarrow> string result" where
  "ConvertToISO8601 clock timestamp =
     res_bind (atoi (c_str timestamp)) (\<lambda>timerValue.
       if 25920000 < timerValue then format_time timerValue
       else format_time (clock + timerValue))"

section \<open>The calendar is inverted\<close>

lemma days_before_year_Suc: "days_before_year (y + 1) = days_before_year y + int (year_len y)"
proof -
  have div_Suc: "y div m = (y - 1) div m + (if y mod m = 0 then 1 else 0)" if "1 < m" for m :: int
  proof -
    define q r where "q = y div m" and "r = y mod m"
    have y: "y = m * q + r" and r: "0 \<le> r" "r < m" using that by (simp_all add: q_def r_def)
    have "(y - 1) div m = (if r = 0 then q - 1 else q)"
    proof (cases "r = 0")
      case True
      have "y - 1 = m * (q - 1) + (m - 1)" using y True by (simp add: algebra_simps)
      then have "(y - 1) div m = q - 1" by (rule int_div_pos_eq) (use that in auto)
      with True show ?thesis by simp
    next
      case False
      have "y - 1 = m * q + (r - 1)" using y by simp
      then have "(y - 1) div m = q" by (rule int_div_pos_eq) (use that r False in auto)
      with False show ?thesis by simp
    qed
    then show ?thesis by (simp add: q_def r_def)
  qed
  have "y mod 400 mod 100 = y mod 100" "y mod 100 mod 4 = y mod 4"
    by (rule mod_mod_cancel, simp)+
  then have imp: "y mod 400 = 0 \<Longrightarrow> y mod 100 = 0" "y mod 100 = 0 \<Longrightarrow> y mod 4 = 0"
    by (metis mod_0)+
  define a b c where "a = (y - 1) div 4" and "b = (y - 1) div 100" and "c = (y - 1) div 400"
  have divs: "y div 4 = a + (if y mod 4 = 0 then 1 else 0)"
    "y div 100 = b + (if y mod 100 = 0 then 1 else 0)"
    "y div 400 = c + (if y mod 400 = 0 then 1 else 0)"
    unfolding a_def b_def c_def by (rule div_Suc, simp)+
  have "days_before_year (y + 1) = 365 * y + y div 4 - y div 100 + y div 400"
    by (simp only: days_before_year_def add_diff_cancel_right')
  moreover have "days_before_year y = 365 * (y - 1) + a - b + c"
    by (simp only: days_before_year_def a_def b_def c_def)
  ultimately show ?thesis
    unfolding divs year_len_def is_leap_def
    by (cases "y mod 4 = 0"; cases "y mod 100 = 0"; cases "y mod 400 = 0") (use imp in \<open>simp_all only:, simp_all\<close>)
qed

lemma days_before_year_period: "days_before_year (y + 400 * k) = days_before_year y + 146097 * k"
proof -
  have eq: "y + 400 * k - 1 = (y - 1) + 4 * (100 * k)" "y + 400 * k - 1 = (y - 1) + 100 * (4 * k)"
    "y + 400 * k - 1 = (y - 1) + 400 * k" by simp_all
  have "(y + 400 * k - 1) div 4 = (y - 1) div 4 + 100 * k"
    unfolding eq(1) by simp
  moreover have "(y + 400 * k - 1) div 100 = (y - 1) div 100 + 4 * k"
    unfolding eq(2) by simp
  moreover have "(y + 400 * k - 1) div 400 = (y - 1) div 400 + k"
    unfolding eq(3) by simp
  ultimately show ?thesis by (simp add: days_before_year_def algebra_simps)
qed

lemma is_leap_period [simp]: "is_leap (y + 400 * k) = is_leap y"
proof -
  have "(y + 4 * (100 * k)) mod 4 = y mod 4" "(y + 100 * (4 * k)) mod 100 = y mod 100"
    "(y + 400 * k) mod 400 = y mod 400"
    by (rule mod_mult_self2)+
  then show ?thesis by (simp add: is_leap_def)
qed

lemma month_lens_period [simp]: "month_lens (y + 400 * k) = month_lens y"
  by (simp add: month_lens_def)

lemma sum_month_lens [simp]: "sum_list (month_lens y) = year_len y"
  by (simp add: month_lens_def year_len_def)

lemma length_month_lens [simp]: "length (month_lens y) = 12"
  by (simp add: month_lens_def)

lemma year_walk_correct:
  "year_walk y n = (y', n') \<Longrightarrow>
     n' < year_len y' \<and> days_before_year y' + int n' = days_before_year y + int n"
proof (induction y n arbitrary: y' n' rule: year_walk.induct)
  case (1 y n)
  show ?case
  proof (cases "n < year_len y")
    case True
    then show ?thesis using "1.prems" by (simp add: year_walk.simps [of y n])
  next
    case False
    then have "year_walk (y + 1) (n - year_len y) = (y', n')"
      using "1.prems" by (simp add: year_walk.simps [of y n])
    from "1.IH" [OF False this] False show ?thesis
      by (simp add: days_before_year_Suc of_nat_diff)
  qed
qed

lemma month_walk_correct:
  "month_walk ls m n = (m', n') \<Longrightarrow> n < sum_list ls \<Longrightarrow>
     m \<le> m' \<and> m' < m + length ls \<and> n' < ls ! (m' - m) \<and> sum_list (take (m' - m) ls) + n' = n"
proof (induction ls m n arbitrary: m' n' rule: month_walk.induct)
  case (1 m n)
  then show ?case by simp
next
  case (2 l ls m n)
  show ?case
  proof (cases "n < l")
    case True
    then show ?thesis using "2.prems" by simp
  next
    case False
    then have "month_walk ls (Suc m) (n - l) = (m', n')" "n - l < sum_list ls"
      using "2.prems" by auto
    from "2.IH" [OF False this]
    have IH: "Suc m \<le> m'" "m' < Suc m + length ls" "n' < ls ! (m' - Suc m)"
      "sum_list (take (m' - Suc m) ls) + n' = n - l" by auto
    then have "m' - m = Suc (m' - Suc m)" by simp
    with IH False show ?thesis by simp
  qed
qed

lemma civil_of_days_correct:
  assumes "civil_of_days d = (y, m, k)"
  shows "1 \<le> m \<and> m \<le> 12 \<and> 1 \<le> k \<and> k \<le> month_lens y ! (m - 1) \<and> days_of_civil y m k = d"
proof -
  define z where "z = d + epoch_days - days_before_year 2000"
  obtain y0 n where yw: "year_walk 2000 (nat (z mod 146097)) = (y0, n)" by fastforce
  obtain m0 k0 where mw: "month_walk (month_lens y0) 1 n = (m0, k0)" by fastforce
  have res: "y = y0 + 400 * (z div 146097)" "m = m0" "k = Suc k0"
    using assms mw by (auto simp: civil_of_days_def Let_def z_def [symmetric] yw)
  have n: "n < year_len y0"
    and sum: "days_before_year y0 + int n = days_before_year 2000 + z mod 146097"
    using year_walk_correct [OF yw] by auto
  have mwc: "1 \<le> m" "m < 1 + 12" "k0 < month_lens y ! (m - 1)"
    "sum_list (take (m - 1) (month_lens y)) + k0 = n"
    using month_walk_correct [OF mw] n by (auto simp: res)
  have "days_of_civil y m k = days_before_year y0 + 146097 * (z div 146097) + int n - epoch_days"
    using mwc(4) [symmetric] by (simp add: days_of_civil_def res days_before_year_period)
  also have "\<dots> = days_before_year 2000 + z - epoch_days"
    using sum by (simp add: minus_mult_div_eq_mod [symmetric])
  also have "\<dots> = d" by (simp add: z_def)
  finally show ?thesis using mwc by (simp add: res)
qed

lemma time_of_day_split:
  "(s::nat) < 86400 \<Longrightarrow> 3600 * (s div 3600) + 60 * (s mod 3600 div 60) + s mod 60 = s
     \<and> s div 3600 < 24 \<and> s mod 3600 div 60 < 60"
proof -
  assume s: "s < 86400"
  have "s mod 3600 mod 60 = s mod 60" by (rule mod_mod_cancel) simp
  then have "60 * (s mod 3600 div 60) + s mod 60 = s mod 3600"
    using mult_div_mod_eq [of 60 "s mod 3600"] by simp
  then have "3600 * (s div 3600) + (60 * (s mod 3600 div 60) + s mod 60) = s" by simp
  moreover have "s div 3600 < 24" using s by (simp add: div_less_iff_less_mult)
  moreover have "s mod 3600 div 60 < 60" by (simp add: div_less_iff_less_mult)
  ultimately show ?thesis by simp
qed

lemma gmtime_correct: "valid_tm (gmtime t) \<and> timegm (gmtime t) = t"
proof -
  obtain y m k where c: "civil_of_days (t div 86400) = (y, m, k)" by (metis prod_cases3)
  define s where "s = nat (t mod 86400)"
  have s: "s < 86400" and ts: "t = 86400 * (t div 86400) + int s"
    by (simp_all add: s_def)
  note tod = time_of_day_split [OF s]
  have "3600 * int (s div 3600) + 60 * int (s mod 3600 div 60) + int (s mod 60) = int s"
    using tod [THEN conjunct1, THEN arg_cong, of int]
    by (simp only: of_nat_add of_nat_mult of_nat_numeral)
  then have "timegm (gmtime t) = 86400 * (t div 86400) + int s"
    using civil_of_days_correct [OF c]
    by (simp only: gmtime_def c s_def [symmetric] timegm_def Let_def prod.case tm.simps)
  moreover have "valid_tm (gmtime t)"
    using civil_of_days_correct [OF c] tod
    by (simp only: gmtime_def c s_def [symmetric] valid_tm_def Let_def prod.case tm.simps) simp
  ultimately show ?thesis using ts by (simp only:)
qed

lemma days_before_year_mono: "x \<le> y \<Longrightarrow> days_before_year x \<le> days_before_year y"
  by (induction y rule: int_ge_induct) (simp_all add: days_before_year_Suc)

lemma gmtime_year_bounds:
  assumes "86400 * (days_before_year a - epoch_days) \<le> t" "t < 86400 * (days_before_year b - epoch_days)"
  shows "a \<le> tm_year (gmtime t) \<and> tm_year (gmtime t) < b"
proof -
  let ?x = "gmtime t"
  define y where "y = tm_year ?x"
  define m where "m = tm_mon ?x"
  define d where "d = int (sum_list (take (m - 1) (month_lens y))) + int (tm_mday ?x) - 1"
  define s where "s = 3600 * int (tm_hour ?x) + 60 * int (tm_min ?x) + int (tm_sec ?x)"
  have v: "valid_tm ?x" and t: "t = 86400 * (days_before_year y + d - epoch_days) + s"
    using gmtime_correct [of t] by (auto simp: timegm_def days_of_civil_def y_def m_def d_def s_def)
  have s: "0 \<le> s" "s < 86400" using v by (auto simp: valid_tm_def s_def)
  have "month_lens y = take (m - 1) (month_lens y) @ month_lens y ! (m - 1) # drop m (month_lens y)"
  proof -
    have "1 \<le> m" "m - 1 < length (month_lens y)" using v by (auto simp: valid_tm_def m_def)
    then show ?thesis using id_take_nth_drop [of "m - 1" "month_lens y"] by simp
  qed
  then have "sum_list (take (m - 1) (month_lens y)) + month_lens y ! (m - 1) \<le> sum_list (month_lens y)"
    by (metis add.assoc le_add1 sum_list.Cons sum_list.append)
  then have d: "0 \<le> d" "d < int (year_len y)"
    using v by (auto simp: d_def valid_tm_def y_def m_def)
  have "a \<le> y"
  proof (rule ccontr)
    assume "\<not> a \<le> y"
    then have "days_before_year (y + 1) \<le> days_before_year a" by (intro days_before_year_mono) simp
    then show False using assms(1) t s d by (simp add: days_before_year_Suc)
  qed
  moreover have "y < b"
  proof (rule ccontr)
    assume "\<not> y < b"
    then have "days_before_year b \<le> days_before_year y" by (intro days_before_year_mono) simp
    then show False using assms(2) t s d by simp
  qed
  ultimately show ?thesis by (simp add: y_def)
qed

section \<open>The text of a timestamp\<close>

text \<open>The seconds from 1 January 1970 up to the end of the year 9999.\<close>

definition four_digit_time :: "int \<Rightarrow> bool" where
  "four_digit_time t \<longleftrightarrow> 0 \<le> t \<and> t < 253402300800"

definition iso_text :: "int \<Rightarrow> string" where
  "iso_text t = strftime_FT (gmtime t)"

definition iso_parse :: "string \<Rightarrow> int option" where
  "iso_parse s =
     (if length s = 19
      then Some (timegm \<lparr>tm_year = int (nat_of_dec (take 4 s)), tm_mon = nat_of_dec (take 2 (drop 5 s)),
              tm_mday = nat_of_dec (take 2 (drop 8 s)), tm_hour = nat_of_dec (take 2 (drop 11 s)),
              tm_min = nat_of_dec (take 2 (drop 14 s)), tm_sec = nat_of_dec (take 2 (drop 17 s))\<rparr>)
      else None)"

lemma two_digits_eq: "n < 100 \<Longrightarrow> two_digits n = [digit_char (n div 10), digit_char (n mod 10)]"
  by (auto simp: two_digits_def dec_of_nat_single dec_of_nat_double digit_char_def digit_chars_def)

lemma nat_of_dec_two_digits [simp]: "n < 100 \<Longrightarrow> nat_of_dec [digit_char (n div 10), digit_char (n mod 10)] = n"
  by (simp add: nat_of_dec_def)

lemma four_digit_year:
  "four_digit_time t \<Longrightarrow> 1970 \<le> tm_year (gmtime t) \<and> tm_year (gmtime t) < 10000"
  using gmtime_year_bounds [of 1970 t 10000]
  by (simp add: four_digit_time_def epoch_days_def days_before_year_def)

lemma month_lens_le: "m < 12 \<Longrightarrow> month_lens y ! m \<le> 31"
proof -
  assume "m < 12"
  then have "month_lens y ! m \<in> set (month_lens y)" by simp
  then show ?thesis by (auto simp: month_lens_def)
qed

lemma gmtime_fields [simp]:
  shows "tm_mon (gmtime t) < 100" "tm_mday (gmtime t) < 100" "tm_hour (gmtime t) < 100"
    "tm_min (gmtime t) < 100" "tm_sec (gmtime t) < 100"
proof -
  have v: "valid_tm (gmtime t)" using gmtime_correct by blast
  then have "tm_mday (gmtime t) \<le> 31"
    using month_lens_le [of "tm_mon (gmtime t) - 1" "tm_year (gmtime t)"] by (force simp: valid_tm_def)
  with v show "tm_mon (gmtime t) < 100" "tm_mday (gmtime t) < 100" "tm_hour (gmtime t) < 100"
    "tm_min (gmtime t) < 100" "tm_sec (gmtime t) < 100"
    by (auto simp: valid_tm_def)
qed

lemma iso_text_shape:
  assumes "four_digit_time t"
  obtains a b c d where
    "dec_of_nat (nat (tm_year (gmtime t))) = [a, b, c, d]"
    "iso_text t = [a, b, c, d] @ ''-'' @ two_digits (tm_mon (gmtime t)) @ ''-'' @ two_digits (tm_mday (gmtime t))
       @ ''T'' @ two_digits (tm_hour (gmtime t)) @ '':'' @ two_digits (tm_min (gmtime t))
       @ '':'' @ two_digits (tm_sec (gmtime t))"
proof -
  let ?y = "nat (tm_year (gmtime t))"
  have y: "1000 \<le> ?y" "?y < 10000" using four_digit_year [OF assms] by auto
  have "length (dec_of_nat ?y) \<le> 4" using y by (subst length_dec_of_nat_le_iff) auto
  moreover have "\<not> length (dec_of_nat ?y) \<le> 3" using y by (subst length_dec_of_nat_le_iff) auto
  ultimately have "length (dec_of_nat ?y) = 4" by simp
  then obtain a b c d where abcd: "dec_of_nat ?y = [a, b, c, d]"
    by (auto simp: numeral_eq_Suc length_Suc_conv)
  have "\<not> tm_year (gmtime t) < 0" using four_digit_year [OF assms] by simp
  then show thesis
    using that [OF abcd] abcd by (simp add: iso_text_def strftime_FT_def dec_of_int_def)
qed

lemma length_iso_text: "four_digit_time t \<Longrightarrow> length (iso_text t) = 19"
  by (erule iso_text_shape) (simp add: two_digits_eq )

lemma iso_parse_text: "four_digit_time t \<Longrightarrow> iso_parse (iso_text t) = Some t"
proof -
  assume t: "four_digit_time t"
  then obtain a b c d where y: "dec_of_nat (nat (tm_year (gmtime t))) = [a, b, c, d]"
    and shape: "iso_text t = [a, b, c, d] @ ''-'' @ two_digits (tm_mon (gmtime t)) @ ''-'' @ two_digits (tm_mday (gmtime t))
       @ ''T'' @ two_digits (tm_hour (gmtime t)) @ '':'' @ two_digits (tm_min (gmtime t))
       @ '':'' @ two_digits (tm_sec (gmtime t))"
    by (rule iso_text_shape)
  have ny: "nat_of_dec [a, b, c, d] = nat (tm_year (gmtime t))"
    using nat_of_dec_of_nat [of "nat (tm_year (gmtime t))"] by (simp only: y)
  have "int (nat_of_dec [a, b, c, d]) = tm_year (gmtime t)"
    using four_digit_year [OF t] by (simp add: ny)
  then have "iso_parse (iso_text t) = Some (timegm (gmtime t))"
    by (simp add: iso_parse_def shape two_digits_eq timegm_def)
  then show ?thesis using gmtime_correct by simp
qed

interpretation iso: codec iso_text iso_parse four_digit_time
  by unfold_locales (rule iso_parse_text)

lemma two_digits_chars: "n < 100 \<Longrightarrow> x \<in> set (two_digits n) \<Longrightarrow> is_digit x"
  by (auto simp: two_digits_eq)

lemma iso_text_chars:
  assumes "four_digit_time t"
  shows "NUL \<notin> set (iso_text t) \<and> CHR '';'' \<notin> set (iso_text t)"
proof -
  obtain a b c d where y: "dec_of_nat (nat (tm_year (gmtime t))) = [a, b, c, d]"
    and shape: "iso_text t = [a, b, c, d] @ ''-'' @ two_digits (tm_mon (gmtime t)) @ ''-'' @ two_digits (tm_mday (gmtime t))
       @ ''T'' @ two_digits (tm_hour (gmtime t)) @ '':'' @ two_digits (tm_min (gmtime t))
       @ '':'' @ two_digits (tm_sec (gmtime t))"
    using assms by (rule iso_text_shape)
  have dig: "list_all is_digit [a, b, c, d]"
    using dec_of_nat_digits [of "nat (tm_year (gmtime t))"] by (simp only: y)
  have "\<forall>x \<in> set (iso_text t). is_digit x \<or> x \<in> {CHR ''-'', CHR ''T'', CHR '':''}"
    unfolding shape using dig
    by (auto simp: list_all_iff dest: two_digits_chars [rotated])
  then have "\<forall>x \<in> set (iso_text t). x \<noteq> NUL \<and> x \<noteq> CHR '';''"
    using digit_not_special by (fastforce simp: NUL_def)
  then show ?thesis by blast
qed

lemma format_time_ok: "four_digit_time t \<Longrightarrow> format_time t = Inr (iso_text t)"
  using four_digit_year [of t] length_iso_text [of t]
  by (simp add: format_time_def iso_buf_size_def Let_def iso_text_def)

section \<open>ConvertToISO8601\<close>

text \<open>The instant a timer value stands for: an epoch above the constant of the code, an offset below it.\<close>

definition timer_instant :: "int \<Rightarrow> int \<Rightarrow> int" where
  "timer_instant clock v = (if 25920000 < v then v else clock + v)"

lemma ConvertToISO8601_eq:
  assumes "atoi (c_str ts) = Inr v" "four_digit_time (timer_instant clock v)"
  shows "ConvertToISO8601 clock ts = Inr (iso_text (timer_instant clock v))"
  using assms format_time_ok by (auto simp: ConvertToISO8601_def timer_instant_def)

lemma four_digit_epoch: "atoi s = Inr v \<Longrightarrow> 25920000 < v \<Longrightarrow> four_digit_time v"
  by (drule atoi_range) (simp add: four_digit_time_def)

text \<open>
  What the source documents of a timer value, in the comment above the test: an epoch if it is more than 30
  days, an offset in seconds from now otherwise.
\<close>

definition thirty_days :: int where
  "thirty_days = 30 * 24 * 60 * 60"

definition documented_instant :: "int \<Rightarrow> int \<Rightarrow> int" where
  "documented_instant clock v = (if thirty_days < v then v else clock + v)"

lemma timer_instant_documented:
  "timer_instant clock v = documented_instant clock v \<longleftrightarrow> v \<le> thirty_days \<or> 25920000 < v \<or> clock = 0"
  by (auto simp: timer_instant_def documented_instant_def thirty_days_def)

text \<open>
  C37. For a timer value that \<open>atoi\<close> can read, of at most 30 days or above 25920000, and an instant up
  to the year 9999, \<open>ConvertToISO8601\<close> returns a 19-character text that fits its buffer and reads back as
  exactly the documented instant: the value itself if it is more than 30 days, the current time plus the
  value otherwise. The values between 30 days and the constant of the code are left to the theorem after it.
\<close>

theorem ConvertToISO8601_correct:
  assumes "atoi (c_str ts) = Inr v" "v \<le> thirty_days \<or> 25920000 < v"
    and "four_digit_time (documented_instant clock v)"
  shows "\<exists>s. ConvertToISO8601 clock ts = Inr s \<and> length s = 19 \<and> length s + 1 \<le> iso_buf_size
    \<and> iso_parse s = Some (documented_instant clock v)"
proof -
  have "timer_instant clock v = documented_instant clock v" using assms(2) timer_instant_documented by blast
  then show ?thesis
    using ConvertToISO8601_eq [of ts v clock] assms(1,3) by (simp add: length_iso_text iso_parse_text iso_buf_size_def)
qed

theorem ConvertToISO8601_correct_witness:
  "(\<exists>s. ConvertToISO8601 0 ''1470737472'' = Inr s \<and> length s = 19 \<and> length s + 1 \<le> iso_buf_size
    \<and> iso_parse s = Some 1470737472)
  \<and> (\<exists>s. ConvertToISO8601 1000 ''60'' = Inr s \<and> length s = 19 \<and> length s + 1 \<le> iso_buf_size \<and> iso_parse s = Some 1060)"
proof -
  have a: "atoi (c_str ''1470737472'') = Inr 1470737472" "atoi (c_str ''60'') = Inr 60" by (simp_all add: c_eval)
  then show ?thesis using ConvertToISO8601_correct [OF a(1), of 0] ConvertToISO8601_correct [OF a(2), of 1000]
    by (simp add: four_digit_time_def documented_instant_def thirty_days_def)
qed

text \<open>
  The constant of the code is ten times the 30 days of the comment. A value in between is documented as an
  epoch, and the code makes an offset of it: the text reads back as the current time plus the value.
\<close>

theorem ConvertToISO8601_threshold:
  assumes "atoi (c_str ts) = Inr v" "thirty_days < v" "v \<le> 25920000" "0 < clock" "four_digit_time (clock + v)"
  shows "\<exists>s. ConvertToISO8601 clock ts = Inr s \<and> iso_parse s = Some (clock + v) \<and> documented_instant clock v = v
    \<and> iso_parse s \<noteq> Some (documented_instant clock v)"
  using ConvertToISO8601_eq [of ts v clock] assms
  by (simp add: timer_instant_def documented_instant_def iso_parse_text)

theorem ConvertToISO8601_threshold_witness:
  "\<exists>s. ConvertToISO8601 1470737472 ''2592001'' = Inr s \<and> iso_parse s = Some 1473329473
    \<and> documented_instant 1470737472 2592001 = 2592001"
proof -
  have "atoi (c_str ''2592001'') = Inr 2592001" by (simp add: c_eval)
  from ConvertToISO8601_threshold [OF this, of 1470737472] show ?thesis
    by (auto simp: thirty_days_def four_digit_time_def)
qed

end
