(* ===== verification/Extern.thy ===== *)
theory Extern
  imports Prelude
begin

text \<open>
  The third-party code the bindings call: rapidjson, libcouchbase, V8 and hiredis. Nothing of it is
  in the repository, so each library is a record of functions that the definitions of the model take
  as an argument, and what a property relies on is a named predicate on that record which states
  documented behaviour. The data that crosses the interfaces (a JSON document, a key-value response,
  a store command) has the fields the sources read and write.
\<close>

section \<open>rapidjson\<close>

text \<open>
  A parsed document. \<open>operator[]\<close> returns the first member of the name; its documentation requires
  an object that has the member, \<open>GetString\<close> a string, \<open>GetInt\<close> an integer of 32 bits:
  every other use is a fault.
\<close>

datatype json =
    JNull
  | JBool bool
  | JInt int
  | JReal string
  | JStr string
  | JArr "json list"
  | JObj "(string \<times> json) list"

definition is_object :: "json \<Rightarrow> bool" where
  "is_object j = (case j of JObj ms \<Rightarrow> True | _ \<Rightarrow> False)"

definition is_array :: "json \<Rightarrow> bool" where
  "is_array j = (case j of JArr xs \<Rightarrow> True | _ \<Rightarrow> False)"

definition json_member :: "json \<Rightarrow> string \<Rightarrow> json result" where
  "json_member j k =
     (case j of
        JObj ms \<Rightarrow> (case map_of ms k of Some v \<Rightarrow> Inr v | None \<Rightarrow> Inl Library_contract)
      | _ \<Rightarrow> Inl Library_contract)"

definition json_elements :: "json \<Rightarrow> json list" where
  "json_elements j = (case j of JArr xs \<Rightarrow> xs | _ \<Rightarrow> [])"

text \<open>\<open>GetString\<close> gives a C string; the sources assign or push it into a \<open>std::string\<close>.\<close>

definition json_string :: "json \<Rightarrow> string result" where
  "json_string j = (case j of JStr s \<Rightarrow> Inr (c_str s) | _ \<Rightarrow> Inl Library_contract)"

definition json_int :: "json \<Rightarrow> int result" where
  "json_int j =
     (case j of
        JInt i \<Rightarrow> if INT_MIN \<le> i \<and> i \<le> INT_MAX then Inr i else Inl Library_contract
      | _ \<Rightarrow> Inl Library_contract)"

text \<open>The calls on a \<open>rapidjson::Writer\<close>; \<open>rj_write\<close> is the text its buffer holds after them.\<close>

datatype writer_event =
    StartObject
  | EndObject
  | Key string
  | String string
  | RawValue string

record rapidjson =
  rj_parse :: "string \<Rightarrow> json option"
  rj_write :: "writer_event list \<Rightarrow> string"

definition object_events :: "(string \<times> string) list \<Rightarrow> writer_event list" where
  "object_events kvs = StartObject # concat (map (\<lambda>(k, v). [Key k, String v]) kvs) @ [EndObject]"

text \<open>
  What the documentation of \<open>Writer\<close> promises for an object of strings: the text is JSON, so control
  characters are escaped, and parsing it gives the members back in their order.
\<close>

definition writes_string_objects :: "rapidjson \<Rightarrow> bool" where
  "writes_string_objects rj \<longleftrightarrow>
     (\<forall>kvs. rj_parse rj (rj_write rj (object_events kvs)) = Some (JObj (map (\<lambda>(k, v). (k, JStr v)) kvs))
          \<and> NUL \<notin> set (rj_write rj (object_events kvs)))"

section \<open>libcouchbase\<close>

datatype lcb_error = LCB_SUCCESS | LCB_ERROR | LCB_KEY_ENOENT | LCB_KEY_EEXISTS | LCB_NOT_STORED | LCB_OTHER int

datatype store_operation = LCB_SET | LCB_ADD | LCB_APPEND

type_synonym lcb_CAS = "64 word"

record lcb_CMDSTORE =
  cmd_operation :: store_operation
  cmd_key :: string
  cmd_value :: string
  cmd_flags :: "32 word"

record lcb_RESPGET =
  get_rc :: lcb_error
  get_cas :: lcb_CAS
  get_itmflags :: "32 word"
  get_value :: string

record lcb_RESPSTORE =
  store_rc :: lcb_error
  store_cas :: lcb_CAS

record lcb_RESPN1QL =
  resp_final :: bool
  resp_rc :: lcb_error
  resp_row :: string

text \<open>
  A handle is connected to one bucket of the cluster, so the connection string names it. Each function
  is one exchange, from scheduling the command to the end of \<open>lcb_wait\<close>: \<open>None\<close> says that the
  installed callback was not run. The state \<open>'s\<close> is the cluster's.
\<close>

record 's lcb =
  lcb_get3 :: "'s \<Rightarrow> string \<Rightarrow> string \<Rightarrow> lcb_RESPGET option"
  lcb_store3 :: "'s \<Rightarrow> string \<Rightarrow> lcb_CMDSTORE \<Rightarrow> lcb_RESPSTORE option \<times> 's"
  lcb_remove3 :: "'s \<Rightarrow> string \<Rightarrow> string \<Rightarrow> 's"
  lcb_n1ql_query :: "'s \<Rightarrow> string \<Rightarrow> string \<Rightarrow> lcb_RESPN1QL list \<times> 's"

text \<open>The value a get returns, and the documented effect of the store operations on it.\<close>

definition kv :: "'s lcb \<Rightarrow> 's \<Rightarrow> string \<Rightarrow> string \<rightharpoonup> string" where
  "kv L s b k =
     (case lcb_get3 L s b k of
        Some r \<Rightarrow> if get_rc r = LCB_SUCCESS then Some (get_value r) else None
      | None \<Rightarrow> None)"

definition kv_store :: "lcb_CMDSTORE \<Rightarrow> (string \<rightharpoonup> string) \<Rightarrow> (string \<rightharpoonup> string)" where
  "kv_store c m =
     (let k = cmd_key c; v = cmd_value c
      in case cmd_operation c of
           LCB_SET \<Rightarrow> m(k \<mapsto> v)
         | LCB_ADD \<Rightarrow> (case m k of None \<Rightarrow> m(k \<mapsto> v) | Some u \<Rightarrow> m)
         | LCB_APPEND \<Rightarrow> (case m k of None \<Rightarrow> m | Some u \<Rightarrow> m(k \<mapsto> u @ v)))"

text \<open>The keys a server accepts: between one byte and 250.\<close>

definition key_ok :: "string \<Rightarrow> bool" where
  "key_ok k \<longleftrightarrow> k \<noteq> [] \<and> length k \<le> 250"

text \<open>
  A reachable cluster: every get of a key the server accepts runs its callback, every store under such a
  key has its documented effect on the bucket of the handle and none on another bucket, and a remove takes
  the key away.
\<close>

definition reachable_cluster :: "'s lcb \<Rightarrow> bool" where
  "reachable_cluster L \<longleftrightarrow>
     (\<forall>s b k. key_ok k \<longrightarrow> lcb_get3 L s b k \<noteq> None)
   \<and> (\<forall>s b c. key_ok (cmd_key c) \<longrightarrow> kv L (snd (lcb_store3 L s b c)) = (kv L s)(b := kv_store c (kv L s b)))
   \<and> (\<forall>s b k. key_ok k \<longrightarrow> kv L (lcb_remove3 L s b k) = (kv L s)(b := (kv L s b)(k := None)))"

lemma reachable_clusterD:
  assumes "reachable_cluster L"
  shows "key_ok k \<Longrightarrow> lcb_get3 L s b k \<noteq> None"
    and "key_ok (cmd_key c) \<Longrightarrow> kv L (snd (lcb_store3 L s b c)) = (kv L s)(b := kv_store c (kv L s b))"
    and "key_ok k \<Longrightarrow> kv L (lcb_remove3 L s b k) = (kv L s)(b := (kv L s b)(k := None))"
  using assms by (auto simp: reachable_cluster_def)

section \<open>V8\<close>

text \<open>
  The values of the engine are an abstract type. \<open>None\<close> for \<open>v8_parse\<close> and \<open>v8_stringify\<close> is an
  empty handle with a pending exception; for \<open>v8_utf8\<close> it is a failed conversion, where
  \<open>*value\<close> is a null pointer. An array has one entry per index, \<open>None\<close> for a hole.
\<close>

record 'v v8 =
  v8_parse :: "string \<Rightarrow> 'v option"
  v8_stringify :: "'v \<Rightarrow> 'v option"
  v8_utf8 :: "'v \<Rightarrow> string option"
  v8_string :: "string \<Rightarrow> 'v"
  v8_array :: "'v option list \<Rightarrow> 'v"
  v8_is_string :: "'v \<Rightarrow> bool"
  v8_undefined :: 'v

text \<open>\<open>args[i]\<close> of a \<open>FunctionCallbackInfo\<close>: undefined past the last argument.\<close>

definition argument :: "'v v8 \<Rightarrow> 'v list \<Rightarrow> nat \<Rightarrow> 'v" where
  "argument E args i = (if i < length args then args ! i else v8_undefined E)"

text \<open>A property name is a symbol or a string of the engine.\<close>

datatype 'v name = Symbol | StringName 'v

text \<open>
  A string that \<open>NewFromUtf8\<close> makes of a text converts back to it (so it does for UTF-8; V8 replaces what
  is not), and \<open>JSON.stringify\<close> of a value parses back to it.
\<close>

definition utf8_round_trip :: "'v v8 \<Rightarrow> string \<Rightarrow> bool" where
  "utf8_round_trip E s \<longleftrightarrow> v8_utf8 E (v8_string E s) = Some s"

definition json_round_trip :: "'v v8 \<Rightarrow> 'v \<Rightarrow> bool" where
  "json_round_trip E x \<longleftrightarrow>
     (\<exists>j t. v8_stringify E x = Some j \<and> v8_utf8 E j = Some t \<and> NUL \<notin> set t \<and> v8_parse E t = Some x)"

section \<open>hiredis\<close>

text \<open>
  \<open>redisCommand(c, format, ...)\<close> with its string arguments, and whether
  \<open>redisConnectWithTimeout\<close> yields a usable context for a host and a port. \<open>redis_list\<close>
  observes a list of the server, head first.
\<close>

record 'r hiredis =
  redis_connect :: "string \<Rightarrow> int \<Rightarrow> bool"
  redisCommand :: "'r \<Rightarrow> string \<Rightarrow> string list \<Rightarrow> 'r"
  redis_list :: "'r \<Rightarrow> string \<Rightarrow> string list"

definition plain_word :: "string \<Rightarrow> bool" where
  "plain_word s \<longleftrightarrow> s \<noteq> [] \<and> CHR '' '' \<notin> set s \<and> CHR ''%'' \<notin> set s \<and> NUL \<notin> set s"

text \<open>The documented effect of the two commands the sources send.\<close>

definition redis_lists :: "'r hiredis \<Rightarrow> bool" where
  "redis_lists R \<longleftrightarrow>
     (\<forall>r q d. redis_list R (redisCommand R r ''LPUSH %s %s'' [q, d]) = (redis_list R r)(q := d # redis_list R r q))
   \<and> (\<forall>r q. plain_word q \<longrightarrow> redis_list R (redisCommand R r (''DEL '' @ q) []) = (redis_list R r)(q := []))"

end
