(* ===== verification/Reference.thy ===== *)
theory Reference
  imports Extern
begin

text \<open>
  Concrete libraries that satisfy the named predicates of Extern: a JSON writer and parser for objects
  of strings, a cluster kept as a map, an engine whose values are their JSON texts, and a redis
  server kept as a map of lists. They show that the hypotheses of the properties can hold and give
  the witnesses something to run on; no definition of the model depends on them.
\<close>

section \<open>A JSON writer and parser for objects of strings\<close>

definition quote_char :: char where
  "quote_char = CHR 0x22"

definition backslash :: char where
  "backslash = CHR 0x5C"

definition escape :: "char \<Rightarrow> string" where
  "escape c =
     (if c = NUL then backslash # ''u0000''
      else if c = quote_char \<or> c = backslash then [backslash, c]
      else [c])"

definition quoted :: "string \<Rightarrow> string" where
  "quoted s = quote_char # concat (map escape s) @ [quote_char]"

fun render :: "bool \<Rightarrow> writer_event list \<Rightarrow> string" where
  "render first [] = []"
| "render first (StartObject # es) = CHR ''{'' # render True es"
| "render first (EndObject # es) = CHR ''}'' # render False es"
| "render first (Key k # es) = (if first then [] else '','') @ quoted k @ '':'' @ render False es"
| "render first (String s # es) = quoted s @ render first es"
| "render first (RawValue r # es) = r @ render first es"

fun unquote :: "string \<Rightarrow> (string \<times> string) option" where
  "unquote [] = None"
| "unquote (c # cs) =
     (if c = quote_char then Some ([], cs)
      else if c = backslash then
        (case cs of
           [] \<Rightarrow> None
         | d # ds \<Rightarrow>
             if d = CHR ''u'' then map_option (\<lambda>(s, r). (NUL # s, r)) (unquote (drop 4 ds))
             else map_option (\<lambda>(s, r). (d # s, r)) (unquote ds))
      else map_option (\<lambda>(s, r). (c # s, r)) (unquote cs))"

fun parse_string :: "string \<Rightarrow> (string \<times> string) option" where
  "parse_string [] = None"
| "parse_string (c # cs) = (if c = quote_char then unquote cs else None)"

fun expect :: "char \<Rightarrow> string \<Rightarrow> string option" where
  "expect d [] = None"
| "expect d (c # cs) = (if c = d then Some cs else None)"

fun parse_members :: "nat \<Rightarrow> string \<Rightarrow> (string \<times> json) list option" where
  "parse_members 0 t = None"
| "parse_members (Suc n) t =
     (case parse_string t of
        None \<Rightarrow> None
      | Some (k, t1) \<Rightarrow>
          (case expect (CHR '':'') t1 of
             None \<Rightarrow> None
           | Some t2 \<Rightarrow>
               (case parse_string t2 of
                  None \<Rightarrow> None
                | Some (v, t3) \<Rightarrow>
                    if t3 = ''}'' then Some [(k, JStr v)]
                    else (case expect (CHR '','') t3 of
                            None \<Rightarrow> None
                          | Some t4 \<Rightarrow> map_option ((#) (k, JStr v)) (parse_members n t4)))))"

definition parse_object :: "string \<Rightarrow> json option" where
  "parse_object t =
     (if t = ''{}'' then Some (JObj [])
      else case expect (CHR ''{'') t of
             None \<Rightarrow> None
           | Some r \<Rightarrow> map_option JObj (parse_members (length t) r))"

definition ref_json :: rapidjson where
  "ref_json = \<lparr>rj_parse = parse_object, rj_write = render False\<rparr>"

lemma special_distinct [simp]:
  "quote_char \<noteq> backslash" "backslash \<noteq> quote_char" "NUL \<noteq> quote_char" "NUL \<noteq> backslash"
  "quote_char \<noteq> NUL" "backslash \<noteq> NUL" "quote_char \<noteq> CHR ''u''" "backslash \<noteq> CHR ''u''"
  by (simp_all add: quote_char_def backslash_def NUL_def)

lemma unquote_escape: "unquote (escape c @ t) = map_option (\<lambda>(s, r). (c # s, r)) (unquote t)"
  by (simp add: escape_def)

lemma unquote_quoted: "unquote (concat (map escape s) @ quote_char # t) = Some (s, t)"
proof (induction s)
  case Nil
  then show ?case by simp
next
  case (Cons c s)
  then show ?case
    using unquote_escape [of c "concat (map escape s) @ quote_char # t"] by simp
qed

lemma parse_string_quoted [simp]: "parse_string (quoted s @ t) = Some (s, t)"
  by (simp add: quoted_def unquote_quoted)

lemma quoted_no_NUL [simp]: "NUL \<notin> set (quoted s)"
  by (auto simp: quoted_def escape_def NUL_def quote_char_def backslash_def)

definition member_events :: "(string \<times> string) list \<Rightarrow> writer_event list" where
  "member_events kvs = concat (map (\<lambda>(k, v). [Key k, String v]) kvs)"

lemma member_events_simps [simp]:
  "member_events [] = []"
  "member_events ((k, v) # kvs) = Key k # String v # member_events kvs"
  by (simp_all add: member_events_def)

lemma parse_members_render:
  "kvs \<noteq> [] \<Longrightarrow> length kvs \<le> n \<Longrightarrow>
     parse_members n (render True (member_events kvs @ [EndObject])) = Some (map (\<lambda>(k, v). (k, JStr v)) kvs)"
proof (induction kvs arbitrary: n)
  case Nil
  then show ?case by simp
next
  case (Cons kv kvs)
  obtain k v where kv: "kv = (k, v)" by (cases kv)
  obtain n' where n: "n = Suc n'" using Cons.prems by (cases n) auto
  show ?case
  proof (cases kvs)
    case Nil
    then show ?thesis by (simp add: kv n)
  next
    case (Cons kv' kvs')
    obtain k' v' where kv': "kv' = (k', v')" by (cases kv')
    have "render False (member_events kvs @ [EndObject]) = '','' @ render True (member_events kvs @ [EndObject])"
      by (simp add: Cons kv')
    moreover have "parse_members n' (render True (member_events kvs @ [EndObject])) = Some (map (\<lambda>(k, v). (k, JStr v)) kvs)"
      using Cons.IH Cons.prems n Cons by simp
    ultimately show ?thesis by (simp add: kv n)
  qed
qed

lemma length_render_members: "length kvs \<le> length (render b (member_events kvs @ [EndObject]))"
proof (induction kvs arbitrary: b)
  case Nil
  then show ?case by simp
next
  case (Cons kv kvs)
  obtain k v where kv: "kv = (k, v)" by (cases kv)
  show ?case using Cons.IH [of False] by (simp add: kv quoted_def)
qed

lemma render_no_NUL: "NUL \<notin> set (render b (member_events kvs @ [EndObject]))"
proof (induction kvs arbitrary: b)
  case Nil
  then show ?case by (simp add: NUL_def)
next
  case (Cons kv kvs)
  obtain k v where kv: "kv = (k, v)" by (cases kv)
  show ?case using Cons.IH [of False] quoted_no_NUL [of k] quoted_no_NUL [of v] by (simp add: kv NUL_def)
qed

lemma object_events_eq: "object_events kvs = StartObject # member_events kvs @ [EndObject]"
  by (simp add: object_events_def member_events_def)

lemma ref_json_writes [simp]: "writes_string_objects ref_json"
proof -
  have "parse_object (render False (object_events kvs)) = Some (JObj (map (\<lambda>(k, v). (k, JStr v)) kvs))" for kvs
  proof (cases kvs)
    case Nil
    then show ?thesis by (simp add: object_events_eq parse_object_def)
  next
    case (Cons kv kvs')
    obtain k v where kv: "kv = (k, v)" by (cases kv)
    let ?m = "render True (member_events kvs @ [EndObject])"
    have "?m \<noteq> ''}''" by (simp add: Cons kv quoted_def quote_char_def)
    moreover have "length kvs \<le> length (CHR ''{'' # ?m)"
      using length_render_members [of kvs True] by simp
    ultimately show ?thesis
      using parse_members_render [of kvs "length (CHR ''{'' # ?m)"] Cons
      by (simp add: object_events_eq parse_object_def)
  qed
  moreover have "NUL \<notin> set (render False (object_events kvs))" for kvs
    using render_no_NUL [of True kvs] by (simp add: object_events_eq NUL_def)
  ultimately show ?thesis by (simp add: writes_string_objects_def ref_json_def)
qed

section \<open>A cluster kept as a map\<close>

text \<open>The data of every bucket, and the CAS of the next mutation.\<close>

type_synonym ref_cluster_state = "(string \<Rightarrow> string \<rightharpoonup> string) \<times> lcb_CAS"

definition ref_get :: "ref_cluster_state \<Rightarrow> string \<Rightarrow> string \<Rightarrow> lcb_RESPGET option" where
  "ref_get s b k = Some (case fst s b k of
      Some v \<Rightarrow> \<lparr>get_rc = LCB_SUCCESS, get_cas = 0, get_itmflags = 0, get_value = v\<rparr>
    | None \<Rightarrow> \<lparr>get_rc = LCB_KEY_ENOENT, get_cas = 0, get_itmflags = 0, get_value = []\<rparr>)"

definition ref_store :: "ref_cluster_state \<Rightarrow> string \<Rightarrow> lcb_CMDSTORE \<Rightarrow> lcb_RESPSTORE option \<times> ref_cluster_state" where
  "ref_store s b c = (Some \<lparr>store_rc = LCB_SUCCESS, store_cas = snd s\<rparr>,
     ((fst s)(b := kv_store c (fst s b)), snd s + 1))"

definition ref_lcb :: "ref_cluster_state lcb" where
  "ref_lcb = \<lparr>lcb_get3 = ref_get, lcb_store3 = ref_store,
     lcb_remove3 = (\<lambda>s b k. ((fst s)(b := (fst s b)(k := None)), snd s)),
     lcb_n1ql_query = (\<lambda>s b q. ([\<lparr>resp_final = False, resp_rc = LCB_SUCCESS, resp_row = q\<rparr>,
                                \<lparr>resp_final = True, resp_rc = LCB_SUCCESS, resp_row = []\<rparr>], s))\<rparr>"

definition ref_empty :: ref_cluster_state where
  "ref_empty = (\<lambda>_ _. None, 1)"

lemma kv_ref_lcb [simp]: "kv ref_lcb s = fst s"
  by (auto simp: kv_def ref_lcb_def ref_get_def fun_eq_iff split: option.splits)

lemma ref_lcb_reachable [simp]: "reachable_cluster ref_lcb"
  by (simp add: reachable_cluster_def) (simp add: ref_lcb_def ref_get_def ref_store_def)

section \<open>An engine whose values are their JSON texts\<close>

definition ref_v8 :: "string v8" where
  "ref_v8 = \<lparr>v8_parse = (\<lambda>s. if s = [] then None else Some s), v8_stringify = Some, v8_utf8 = Some,
     v8_string = (\<lambda>s. s), v8_array = (\<lambda>xs. concat (map (case_option [] id) xs)), v8_is_string = (\<lambda>_. True),
     v8_undefined = ''undefined''\<rparr>"

lemma ref_v8_utf8 [simp]: "utf8_round_trip ref_v8 s"
  by (simp add: utf8_round_trip_def ref_v8_def)

lemma ref_v8_json [simp]: "x \<noteq> [] \<Longrightarrow> NUL \<notin> set x \<Longrightarrow> json_round_trip ref_v8 x"
  by (simp add: json_round_trip_def ref_v8_def)

section \<open>A redis server kept as a map of lists\<close>

type_synonym ref_redis_state = "string \<Rightarrow> string list"

definition ref_redis_command :: "ref_redis_state \<Rightarrow> string \<Rightarrow> string list \<Rightarrow> ref_redis_state" where
  "ref_redis_command r fmt args =
     (if fmt = ''LPUSH %s %s'' \<and> length args = 2 then r(args ! 0 := args ! 1 # r (args ! 0))
      else if is_prefix ''DEL '' fmt then r(drop 4 fmt := [])
      else r)"

definition ref_redis :: "ref_redis_state hiredis" where
  "ref_redis = \<lparr>redis_connect = (\<lambda>h p. True), redisCommand = ref_redis_command, redis_list = (\<lambda>r. r)\<rparr>"

lemma ref_redis_lists [simp]: "redis_lists ref_redis"
  by (simp add: redis_lists_def ref_redis_def ref_redis_command_def)

lemma ref_redis_simps [simp]:
  "redis_connect ref_redis h p"
  "redis_list ref_redis r = r"
  by (simp_all add: ref_redis_def)

end
