(* ===== verification/Text.thy ===== *)
theory Text
  imports Extern
begin

text \<open>
  The string helpers of worker.cc: \<open>AsciiToUtf16\<close>, the conversions between engine values and
  strings (\<open>ObjectToString\<close>, \<open>ToString\<close>, \<open>ToCString\<close>, \<open>ToJson\<close>), \<open>Print\<close> (the
  global \<open>log\<close> of a handler), \<open>ExceptionString\<close>, the two \<open>split\<close> functions and
  \<open>LoadBuiltins\<close>.
\<close>

section \<open>AsciiToUtf16\<close>

definition utf16_unit :: "char \<Rightarrow> 16 word" where
  "utf16_unit c = word_of_nat (of_char c)"

text \<open>The loop writes \<open>output_buffer[i]\<close> before it increments \<open>i\<close>; a write past the buffer is a fault.\<close>

fun AsciiToUtf16_loop :: "string \<Rightarrow> nat \<Rightarrow> 16 word list \<Rightarrow> (16 word list \<times> nat) result" where
  "AsciiToUtf16_loop [] i buf = (if i < length buf then Inr (buf[i := 0], i) else Inl Buffer_overrun)"
| "AsciiToUtf16_loop (c # cs) i buf =
     (if c = NUL then (if i < length buf then Inr (buf[i := 0], i) else Inl Buffer_overrun)
      else if i < length buf then AsciiToUtf16_loop cs (Suc i) (buf[i := utf16_unit c])
      else Inl Buffer_overrun)"

definition AsciiToUtf16 :: "string \<Rightarrow> 16 word list \<Rightarrow> (16 word list \<times> nat) result" where
  "AsciiToUtf16 input_buffer output_buffer = AsciiToUtf16_loop input_buffer 0 output_buffer"

section \<open>Engine values and strings\<close>

text \<open>\<open>createUtf8String\<close>: the \<open>const char*\<close> ends at its NUL.\<close>

definition createUtf8String :: "'v v8 \<Rightarrow> string \<Rightarrow> 'v" where
  "createUtf8String E str = v8_string E (c_str str)"

text \<open>
  \<open>String::Utf8Value\<close> of an empty handle or of a value that does not convert holds a null pointer,
  and \<open>string(*utf8_value)\<close> then reads through it.
\<close>

definition ObjectToString :: "'v v8 \<Rightarrow> 'v option \<Rightarrow> string result" where
  "ObjectToString E h =
     (case h of
        None \<Rightarrow> Inl Null_deref
      | Some x \<Rightarrow> (case v8_utf8 E x of None \<Rightarrow> Inl Null_deref | Some u \<Rightarrow> Inr (c_str u)))"

definition ToString :: "'v v8 \<Rightarrow> 'v \<Rightarrow> string result" where
  "ToString E obj = ObjectToString E (v8_stringify E obj)"

definition ToCString :: "string option \<Rightarrow> string" where
  "ToCString u = (case u of Some s \<Rightarrow> c_str s | None \<Rightarrow> ''<string conversion failed>'')"

text \<open>
  \<open>ToJson\<close> returns what \<open>ToCString\<close> makes of a local \<open>Utf8Value\<close>: the buffer is freed when
  the function returns, unless the conversion failed and the literal is returned. \<open>result->ToString()\<close>
  on an empty handle, after \<open>JSON.stringify\<close> threw, goes through a null handle.
\<close>

definition ToJson :: "'v v8 \<Rightarrow> 'v \<Rightarrow> cstring_ptr result" where
  "ToJson E obj =
     (case v8_stringify E obj of
        None \<Rightarrow> Inl Null_deref
      | Some r \<Rightarrow>
          (case v8_utf8 E r of
             Some s \<Rightarrow> Inr (Dangling (ToCString (Some s)))
           | None \<Rightarrow> Inr (Live (ToCString None))))"

definition deref :: "cstring_ptr \<Rightarrow> string result" where
  "deref p = (case p of Live s \<Rightarrow> Inr s | Dangling s \<Rightarrow> Inl Use_after_free)"

fun Print_loop :: "'v v8 \<Rightarrow> bool \<Rightarrow> 'v list \<Rightarrow> string \<Rightarrow> string result" where
  "Print_loop E first [] out = Inr (out @ [CHR 0x0A])"
| "Print_loop E first (a # as) out =
     res_bind (ToJson E a) (\<lambda>p.
       res_bind (deref p) (\<lambda>cstr.
         Print_loop E False as ((if first then out else out @ '' '') @ cstr)))"

definition Print :: "'v v8 \<Rightarrow> 'v list \<Rightarrow> string \<Rightarrow> string result" where
  "Print E args out = Print_loop E True args out"

section \<open>ExceptionString\<close>

text \<open>
  What a \<open>TryCatch\<close> holds: the converted exception, the converted stack trace with its length, and
  the message, if V8 provides one, with its converted file name and source line.
\<close>

record message =
  msg_filename :: "string option"
  msg_linenum :: int
  msg_sourceline :: "string option"
  msg_start :: int
  msg_end :: int

record try_catch =
  tc_exception :: "string option"
  tc_message :: "message option"
  tc_stack_trace :: "string option"

definition newline :: string where
  "newline = [CHR 0x0A]"

definition repeat_from :: "int \<Rightarrow> int \<Rightarrow> char \<Rightarrow> string" where
  "repeat_from i n c = replicate (nat (n - i)) c"

definition scratchSize :: nat where
  "scratchSize = 20"

text \<open>\<open>snprintf\<close> writes at most \<open>n - 1\<close> characters and the NUL.\<close>

definition snprintf_i :: "nat \<Rightarrow> int \<Rightarrow> string" where
  "snprintf_i n i = take (n - 1) (dec_of_int i)"

definition utf8_length :: "string option \<Rightarrow> nat" where
  "utf8_length u = (case u of Some s \<Rightarrow> length s | None \<Rightarrow> 0)"

definition ExceptionString :: "try_catch \<Rightarrow> string" where
  "ExceptionString tc =
     (let exception_string = ToCString (tc_exception tc)
      in case tc_message tc of
           None \<Rightarrow> exception_string @ newline
         | Some m \<Rightarrow>
             ToCString (msg_filename m) @ '':'' @ snprintf_i scratchSize (msg_linenum m) @ newline
             @ ToCString (msg_sourceline m) @ newline
             @ repeat_from 0 (msg_start m) (CHR '' '') @ repeat_from (msg_start m) (msg_end m) (CHR ''^'') @ newline
             @ (if 0 < utf8_length (tc_stack_trace tc) then ToCString (tc_stack_trace tc) @ newline
                else exception_string @ newline))"

section \<open>split and LoadBuiltins\<close>

text \<open>
  \<open>getline(ss, item, delim)\<close> takes the characters up to the delimiter and removes it; it fails
  where the stream holds no character at all.
\<close>

definition getline :: "string \<Rightarrow> char \<Rightarrow> (string \<times> string) option" where
  "getline s delim =
     (if s = [] then None
      else Some (takeWhile (\<lambda>c. c \<noteq> delim) s, drop 1 (dropWhile (\<lambda>c. c \<noteq> delim) s)))"

lemma getline_shorter: "getline s d = Some (item, rest) \<Longrightarrow> length rest < length s"
proof -
  assume g: "getline s d = Some (item, rest)"
  then have "rest = drop 1 (dropWhile (\<lambda>c. c \<noteq> d) s)" "s \<noteq> []"
    by (auto simp: getline_def split: if_splits)
  moreover have "length (dropWhile (\<lambda>c. c \<noteq> d) s) \<le> length s" by (rule length_dropWhile_le)
  ultimately show ?thesis by (cases "dropWhile (\<lambda>c. c \<noteq> d) s") auto
qed

function split_into :: "string \<Rightarrow> char \<Rightarrow> string list \<Rightarrow> string list" where
  "split_into s delim elems =
     (case getline s delim of
        None \<Rightarrow> elems
      | Some (item, rest) \<Rightarrow> split_into rest delim (elems @ [item]))"
  by pat_completeness auto
termination
  by (relation "measure (\<lambda>(s, d, es). length s)") (auto simp: getline_shorter)

declare split_into.simps [simp del]

definition split :: "string \<Rightarrow> char \<Rightarrow> string list" where
  "split s delim = split_into s delim []"

text \<open>A file that cannot be opened reads as the empty string.\<close>

definition LoadBuiltins :: "(string \<rightharpoonup> string) \<Rightarrow> string" where
  "LoadBuiltins files = (case files ''builtin.js'' of Some content \<Rightarrow> content | None \<Rightarrow> [])"

section \<open>The conversion to UTF-16\<close>

lemma AsciiToUtf16_loop_eq:
  "AsciiToUtf16_loop s i buf =
     (if i + length (c_str s) < length buf
      then Inr (take i buf @ map utf16_unit (c_str s) @ 0 # drop (Suc (i + length (c_str s))) buf, i + length (c_str s))
      else Inl Buffer_overrun)"
proof (induction s i buf rule: AsciiToUtf16_loop.induct)
  case (1 i buf)
  then show ?case by (simp add: upd_conv_take_nth_drop)
next
  case (2 c cs i buf)
  show ?case
  proof (cases "c = NUL \<or> \<not> i < length buf")
    case True
    then show ?thesis by (auto simp: upd_conv_take_nth_drop c_str_def)
  next
    case False
    then have c: "c_str (c # cs) = c # c_str cs" by (simp add: c_str_def)
    have "take (Suc i) (buf[i := utf16_unit c]) = take i buf @ [utf16_unit c]"
      using False by (simp add: take_Suc_conv_app_nth)
    then show ?thesis using False 2 by (simp add: c)
  qed
qed

definition ascii_of_units :: "16 word list \<Rightarrow> string" where
  "ascii_of_units ws = map (\<lambda>w. char_of (unat w)) ws"

lemma char_of_utf16_unit [simp]: "char_of (unat (utf16_unit c)) = c"
proof -
  have "of_char c < (2::nat) ^ LENGTH(16)" by (rule less_trans [OF nat_of_char_less_256]) simp
  then have "unat (utf16_unit c) = of_char c"
    unfolding utf16_unit_def unat_of_nat by (rule mod_less)
  then show ?thesis by simp
qed

lemma ascii_of_utf16 [simp]: "ascii_of_units (map utf16_unit s) = s"
  by (simp add: ascii_of_units_def comp_def)

text \<open>
  AsciiToUtf16 writes past the buffer exactly where the command and its terminator do not fit;
  otherwise it returns the length of the C string, the units up to it read back as the command, the
  terminator follows, and nothing after it changes.
\<close>

theorem AsciiToUtf16_correct:
  "AsciiToUtf16 s buf =
     (if length (c_str s) < length buf
      then Inr (map utf16_unit (c_str s) @ 0 # drop (Suc (length (c_str s))) buf, length (c_str s))
      else Inl Buffer_overrun)
   \<and> ascii_of_units (map utf16_unit (c_str s)) = c_str s"
  by (simp add: AsciiToUtf16_def AsciiToUtf16_loop_eq)

section \<open>split takes apart what the delimiter joined\<close>

text \<open>The marker documents hold every document id followed by the delimiter.\<close>

definition join_keys :: "char \<Rightarrow> string list \<Rightarrow> string" where
  "join_keys d ks = concat (map (\<lambda>k. k @ [d]) ks)"

lemma split_into_prepend: "split_into s d (es @ fs) = es @ split_into s d fs"
proof (induction s d fs rule: split_into.induct)
  case (1 s d fs)
  show ?case
  proof (cases "getline s d")
    case None
    then show ?thesis by (simp add: split_into.simps [of s])
  next
    case (Some p)
    obtain item rest where p: "p = (item, rest)" by (cases p)
    have "split_into rest d (es @ fs @ [item]) = es @ split_into rest d (fs @ [item])"
      using 1 Some p by blast
    then show ?thesis by (simp add: split_into.simps [of s] Some p)
  qed
qed

lemma split_into_append: "split_into s d es = es @ split s d"
  using split_into_prepend [of s d es "[]"] by (simp add: split_def)

lemma split_Nil [simp]: "split [] d = []"
  by (simp add: split_def split_into.simps [of "[]"] getline_def)

lemma split_item [simp]: "d \<notin> set x \<Longrightarrow> split (x @ d # r) d = x # split r d"
proof -
  assume d: "d \<notin> set x"
  then have "takeWhile (\<lambda>c. c \<noteq> d) (x @ d # r) = x" "dropWhile (\<lambda>c. c \<noteq> d) (x @ d # r) = d # r"
    by (simp_all add: takeWhile_tail dropWhile_append3)
      (metis (mono_tags, lifting) append_Nil2 dropWhile_append2 dropWhile.simps(2))+
  then have "getline (x @ d # r) d = Some (x, r)" by (simp add: getline_def)
  then show ?thesis
    using split_into_append [of r d "[x]"] by (simp add: split_def split_into.simps [of "x @ d # r"])
qed

lemma split_last_item [simp]: "d \<notin> set x \<Longrightarrow> x \<noteq> [] \<Longrightarrow> split x d = [x]"
proof -
  assume "d \<notin> set x" "x \<noteq> []"
  then have "takeWhile (\<lambda>c. c \<noteq> d) x = x" "dropWhile (\<lambda>c. c \<noteq> d) x = []"
    by (auto simp: takeWhile_eq_all_conv dropWhile_eq_Nil_conv)
  then have "getline x d = Some (x, [])" using \<open>x \<noteq> []\<close> by (simp only: getline_def drop_Nil if_False)
  then show ?thesis by (simp add: split_def split_into.simps [of x] split_into.simps [of "[]"] getline_def)
qed

lemma join_keys_simps [simp]:
  "join_keys d [] = []"
  "join_keys d (k # ks) = k @ d # join_keys d ks"
  "join_keys d (ks @ js) = join_keys d ks @ join_keys d js"
  by (simp_all add: join_keys_def)

lemma split_join_keys: "\<forall>k \<in> set ks. d \<notin> set k \<Longrightarrow> split (join_keys d ks) d = ks"
  by (induction ks) auto

interpretation marker: codec "join_keys d" "\<lambda>s. Some (split s d)" "\<lambda>ks. \<forall>k \<in> set ks. d \<notin> set k"
  by unfold_locales (simp add: split_join_keys)

text \<open>Every item is free of the delimiter, whatever the text.\<close>

lemma split_items: "k \<in> set (split s d) \<Longrightarrow> d \<notin> set k"
proof -
  have "\<forall>k \<in> set es. d \<notin> set k \<Longrightarrow> \<forall>k \<in> set (split_into s d es). d \<notin> set k" for es
  proof (induction s d es rule: split_into.induct)
    case (1 s d es)
    show ?case
    proof (cases "getline s d")
      case None
      then show ?thesis using 1 by (simp add: split_into.simps [of s])
    next
      case (Some p)
      obtain item rest where p: "p = (item, rest)" by (cases p)
      have "d \<notin> set item" using Some p by (auto simp: getline_def split: if_splits dest: set_takeWhileD)
      then have "\<forall>k \<in> set (es @ [item]). d \<notin> set k" using "1.prems" by auto
      then have "\<forall>k \<in> set (split_into rest d (es @ [item])). d \<notin> set k" using 1 Some p by blast
      then show ?thesis by (simp only: split_into.simps [of s] Some p option.case prod.case)
    qed
  qed
  from this [of "[]"] show "k \<in> set (split s d) \<Longrightarrow> d \<notin> set k" by (auto simp: split_def)
qed

text \<open>
  split inverts the joining of keys with a delimiter that no key contains, and for every text its
  items are free of the delimiter: the list of document ids in a timer marker is recovered exactly.
\<close>

theorem split_correct:
  "((\<forall>k \<in> set ks. d \<notin> set k) \<longrightarrow> split (join_keys d ks) d = ks)
   \<and> (\<forall>k \<in> set (split s d). d \<notin> set k)"
  using split_join_keys split_items by blast

theorem split_correct_witness:
  "split (join_keys (CHR '';'') [''doc1'', [], ''doc2'']) (CHR '';'') = [''doc1'', [], ''doc2'']"
  using split_correct [of "[''doc1'', [], ''doc2'']" "CHR '';''"] by simp

section \<open>ExceptionString\<close>

lemma dec_of_int_length: "INT_MIN \<le> i \<Longrightarrow> i \<le> INT_MAX \<Longrightarrow> length (dec_of_int i) \<le> 11"
  using length_dec_of_nat_le_iff [of 10 "nat i"] length_dec_of_nat_le_iff [of 10 "nat (- i)"]
  by (auto simp: dec_of_int_def)

lemma snprintf_i_fits: "INT_MIN \<le> i \<Longrightarrow> i \<le> INT_MAX \<Longrightarrow> snprintf_i scratchSize i = dec_of_int i"
  using dec_of_int_length [of i] by (simp add: snprintf_i_def scratchSize_def)

text \<open>
  For a message whose line number is a C int, ExceptionString puts the whole line number after
  the file name (the scratch buffer never truncates it), and under the source line underlines exactly
  the columns from the start column to the end column.
\<close>

theorem ExceptionString_location:
  assumes "tc_message tc = Some m" and "INT_MIN \<le> msg_linenum m" and "msg_linenum m \<le> INT_MAX"
    and "0 \<le> msg_start m" and "msg_start m \<le> msg_end m"
  shows "\<exists>rest. ExceptionString tc =
      ToCString (msg_filename m) @ '':'' @ dec_of_int (msg_linenum m) @ newline
      @ ToCString (msg_sourceline m) @ newline
      @ replicate (nat (msg_start m)) (CHR '' '') @ replicate (nat (msg_end m) - nat (msg_start m)) (CHR ''^'')
      @ newline @ rest"
  using assms by (auto simp: ExceptionString_def Let_def snprintf_i_fits repeat_from_def nat_diff_distrib)

theorem ExceptionString_location_witness:
  "\<exists>rest. ExceptionString \<lparr>tc_exception = Some ''SyntaxError'',
      tc_message = Some \<lparr>msg_filename = Some ''undefined'', msg_linenum = 29, msg_sourceline = Some ''}'',
                         msg_start = 0, msg_end = 1\<rparr>,
      tc_stack_trace = None\<rparr> = ''undefined:29'' @ newline @ ''}'' @ newline @ ''^'' @ newline @ rest"
  using ExceptionString_location [of "\<lparr>tc_exception = Some ''SyntaxError'',
      tc_message = Some \<lparr>msg_filename = Some ''undefined'', msg_linenum = 29, msg_sourceline = Some ''}'',
                         msg_start = 0, msg_end = 1\<rparr>,
      tc_stack_trace = None\<rparr>"]
  by (simp add: ToCString_def c_eval dec_of_int_def dec_of_nat_double numeral_eq_Suc [of "num.One"])

end
