(* ===== verification/Host.thy ===== *)
theory Host
  imports Text
begin

text \<open>
  The objects the bindings install in a handler's JavaScript world: an \<open>ObjectTemplate\<close> with its
  property handlers and its number of internal fields, an instance of it with the pointers in those
  fields, the \<open>Unwrap\<close> functions of worker.cc that read a field back, the outcome of a property
  callback, and the contract every class follows that installs an object under its alias.
\<close>

section \<open>Templates and instances\<close>

text \<open>Which callbacks the template's \<open>SetHandler\<close> registers.\<close>

datatype handler_kind = BucketHandlers | N1QLHandlers | QueueHandlers | HTTPResponseHandlers | HTTPBodyHandlers

record object_template =
  internal_field_count :: nat
  handlers :: handler_kind

text \<open>
  What an internal field points to: a property map of the worker, an lcb handle (named by its
  connection string), a redis context, a \<open>std::string\<close> object, or an \<open>HTTPBody\<close>.
\<close>

datatype internal_field =
    Unset
  | MapField
  | LcbField string
  | RedisField
  | StringField string
  | BodyField

record host_object =
  obj_handlers :: handler_kind
  obj_fields :: "internal_field list"

definition NewInstance :: "object_template \<Rightarrow> host_object" where
  "NewInstance t = \<lparr>obj_handlers = handlers t, obj_fields = replicate (internal_field_count t) Unset\<rparr>"

definition SetInternalField :: "nat \<Rightarrow> internal_field \<Rightarrow> host_object \<Rightarrow> host_object result" where
  "SetInternalField i f obj =
     (if i < length (obj_fields obj) then Inr (obj\<lparr>obj_fields := (obj_fields obj)[i := f]\<rparr>)
      else Inl Library_contract)"

definition GetInternalField :: "nat \<Rightarrow> host_object \<Rightarrow> internal_field result" where
  "GetInternalField i obj =
     (if i < length (obj_fields obj) then Inr (obj_fields obj ! i) else Inl Library_contract)"

text \<open>
  The \<open>Unwrap\<close> functions cast the pointer they find; reading the wrong kind of object through it
  is a fault.
\<close>

definition UnwrapLcbInstance :: "host_object \<Rightarrow> string result" where
  "UnwrapLcbInstance obj =
     res_bind (GetInternalField 1 obj) (\<lambda>f. case f of LcbField c \<Rightarrow> Inr c | _ \<Rightarrow> Inl Library_contract)"

definition UnwrapWorkerLcbInstance :: "host_object \<Rightarrow> string result" where
  "UnwrapWorkerLcbInstance obj =
     res_bind (GetInternalField 2 obj) (\<lambda>f. case f of LcbField c \<Rightarrow> Inr c | _ \<Rightarrow> Inl Library_contract)"

definition UnwrapMap :: "host_object \<Rightarrow> unit result" where
  "UnwrapMap obj =
     res_bind (GetInternalField 0 obj) (\<lambda>f. case f of MapField \<Rightarrow> Inr () | _ \<Rightarrow> Inl Library_contract)"

lemmas host_object_simps = NewInstance_def SetInternalField_def GetInternalField_def
  UnwrapLcbInstance_def UnwrapWorkerLcbInstance_def UnwrapMap_def

text \<open>
  The kinds of pointer the callbacks of a template read from its instances: an object is well typed if
  its fields have them. The casts of the callbacks are sound exactly on such objects.
\<close>

definition host_typed :: "host_object \<Rightarrow> bool" where
  "host_typed obj \<longleftrightarrow>
     (case obj_handlers obj of
        BucketHandlers \<Rightarrow> (\<exists>b m. obj_fields obj = [MapField, LcbField b, LcbField m])
      | N1QLHandlers \<Rightarrow> (\<exists>b. obj_fields obj = [MapField, LcbField b])
      | QueueHandlers \<Rightarrow> (\<exists>q. obj_fields obj = [MapField, RedisField, StringField q])
      | HTTPResponseHandlers \<Rightarrow> obj_fields obj = [MapField, BodyField]
      | HTTPBodyHandlers \<Rightarrow> obj_fields obj = [MapField])"

section \<open>Property callbacks\<close>

text \<open>
  A property callback leaves the return value unset (the engine goes on as if there were no
  interceptor), sets it, or returns with an exception pending.
\<close>

datatype 'a outcome = NotSet | Returned 'a | Threw

text \<open>The objects a worker's context has bound to global names.\<close>

type_synonym globals = "string \<rightharpoonup> host_object"

section \<open>The contract of an installed class\<close>

text \<open>
  \<open>Bucket\<close>, \<open>N1QL\<close> and \<open>Queue\<close> follow one protocol: \<open>Initialize\<close> binds the wrapped object to
  the alias of the instance and to no other name, and reports success. Whoever initialises a list of
  instances can rely on it.
\<close>

locale installed_class =
  fixes initialise :: "'c \<Rightarrow> globals \<Rightarrow> (bool \<times> 'c \<times> globals) result"
    and global_name :: "'c \<Rightarrow> string"
    and wrapped :: "'c \<Rightarrow> host_object"
    and ok :: "'c \<Rightarrow> bool"
  assumes initialise_binds:
      "ok c \<Longrightarrow> \<exists>c'. initialise c g = Inr (True, c', g(global_name c \<mapsto> wrapped c))
         \<and> ok c' \<and> global_name c' = global_name c \<and> wrapped c' = wrapped c"
begin

lemma initialise_total: "ok c \<Longrightarrow> \<exists>c' g'. initialise c g = Inr (True, c', g') \<and> ok c'"
  using initialise_binds by blast

lemma initialise_frame: "ok c \<Longrightarrow> initialise c g = Inr (b, c', g') \<Longrightarrow> n \<noteq> global_name c \<Longrightarrow> g' n = g n"
  using initialise_binds [of c g] by auto

lemma initialise_name: "ok c \<Longrightarrow> initialise c g = Inr (b, c', g') \<Longrightarrow> b \<and> g' (global_name c) = Some (wrapped c)"
  using initialise_binds [of c g] by auto

text \<open>A second load binds the same object again and changes nothing.\<close>

lemma initialise_twice:
  assumes "ok c" "initialise c g = Inr (b, c', g')"
  shows "\<exists>c''. initialise c' g' = Inr (True, c'', g')"
proof -
  obtain d where d: "initialise c g = Inr (True, d, g(global_name c \<mapsto> wrapped c))" "ok d"
    "global_name d = global_name c" "wrapped d = wrapped c"
    using initialise_binds [OF assms(1)] by blast
  then have "c' = d" "g' = g(global_name c \<mapsto> wrapped c)" using assms(2) by auto
  with initialise_binds [OF d(2), of g'] d show ?thesis by auto
qed

end

end
