(* ===== verification/BucketBinding.thy ===== *)
theory BucketBinding
  imports Host Reference
begin

text \<open>
  The class \<open>Bucket\<close> of bucket.cc: a bucket of the cluster that a handler reads, writes and deletes
  by property access. The lemmas show that what is written is read back, that every write leaves the
  marker of its CAS in the metadata bucket under a key no other CAS has, and what a delete and the
  errors do.
\<close>

unbundle bit_operations_syntax

section \<open>Results of a key-value exchange\<close>

record Result =
  res_value :: string
  res_cas :: lcb_CAS
  res_itmflags :: "32 word"
  res_status :: lcb_error

definition Result_init :: Result where
  "Result_init = \<lparr>res_value = [], res_cas = 0, res_itmflags = 0, res_status = LCB_SUCCESS\<rparr>"

definition get_callback :: "lcb_RESPGET \<Rightarrow> Result \<Rightarrow> Result" where
  "get_callback resp result =
     (let r = result\<lparr>res_status := get_rc resp, res_value := []\<rparr>
      in if get_rc resp = LCB_SUCCESS then r\<lparr>res_value := get_value resp\<rparr> else r)"

definition set_callback :: "lcb_RESPSTORE \<Rightarrow> Result \<Rightarrow> Result" where
  "set_callback resp result = result\<lparr>res_status := store_rc resp, res_cas := store_cas resp\<rparr>"

section \<open>Byte order\<close>

definition bswap32 :: "32 word \<Rightarrow> 32 word" where
  "bswap32 w = push_bit 24 (w AND 0xFF) OR push_bit 8 (w AND 0xFF00)
     OR (drop_bit 8 w AND 0xFF00) OR drop_bit 24 w"

text \<open>\<open>htonl\<close> of the C library, and the routine of bucket.cc on a host of either byte order.\<close>

definition htonl :: "bool \<Rightarrow> 32 word \<Rightarrow> 32 word" where
  "htonl little_endian w = (if little_endian then bswap32 w else w)"

definition htonll_64 :: "bool \<Rightarrow> 64 word \<Rightarrow> 64 word" where
  "htonll_64 little_endian value =
     (if little_endian
      then let high_part = htonl little_endian (ucast (drop_bit 32 value));
               low_part = htonl little_endian (ucast (value AND 0xFFFFFFFF))
           in push_bit 32 (ucast low_part) OR ucast high_part
      else value)"

section \<open>The class\<close>

record Bucket =
  bucket_name :: string
  bucket_endpoint :: string
  bucket_alias :: string
  bucket_lcb_obj :: string
  bucket_map_template :: "object_template option"
  bucket_worker_cb :: string

text \<open>
  The constructor: the lcb handle is the connection to the bucket. \<open>worker_cb\<close> is the handle of the
  worker that the back pointer \<open>worker\<close> leads to.
\<close>

definition Bucket_new :: "string \<Rightarrow> string \<Rightarrow> string \<Rightarrow> string \<Rightarrow> Bucket" where
  "Bucket_new worker_cb bname ep al =
     \<lparr>bucket_name = c_str bname, bucket_endpoint = c_str ep, bucket_alias = c_str al,
      bucket_lcb_obj = ''couchbase://'' @ c_str ep @ ''/'' @ c_str bname,
      bucket_map_template = None, bucket_worker_cb = worker_cb\<rparr>"

definition MakeBucketMapTemplate :: object_template where
  "MakeBucketMapTemplate = \<lparr>internal_field_count = 3, handlers = BucketHandlers\<rparr>"

definition WrapBucketMap :: "Bucket \<Rightarrow> (host_object \<times> Bucket) result" where
  "WrapBucketMap b =
     (let t = (case bucket_map_template b of None \<Rightarrow> MakeBucketMapTemplate | Some t \<Rightarrow> t);
          b' = b\<lparr>bucket_map_template := Some t\<rparr>
      in res_bind (SetInternalField 0 MapField (NewInstance t)) (\<lambda>o1.
         res_bind (SetInternalField 1 (LcbField (bucket_lcb_obj b)) o1) (\<lambda>o2.
         res_bind (SetInternalField 2 (LcbField (bucket_worker_cb b)) o2) (\<lambda>o3.
         Inr (o3, b')))))"

definition Bucket_InstallMaps :: "Bucket \<Rightarrow> globals \<Rightarrow> (bool \<times> Bucket \<times> globals) result" where
  "Bucket_InstallMaps b g =
     res_bind (WrapBucketMap b) (\<lambda>(bucket_obj, b'). Inr (True, b', g(bucket_alias b \<mapsto> bucket_obj)))"

definition Bucket_Initialize :: "Bucket \<Rightarrow> globals \<Rightarrow> (bool \<times> Bucket \<times> globals) result" where
  "Bucket_Initialize b g =
     res_bind (Bucket_InstallMaps b g) (\<lambda>(ok, b', g'). Inr (if \<not> ok then False else True, b', g'))"

definition property_key :: "'v v8 \<Rightarrow> 'v \<Rightarrow> string result" where
  "property_key E n = ObjectToString E (Some n)"

definition BucketGet ::
  "'v v8 \<Rightarrow> 's lcb \<Rightarrow> 'v name \<Rightarrow> host_object \<Rightarrow> 's \<Rightarrow> ('v outcome \<times> 's) result" where
  "BucketGet E L name holder s =
     (case name of
        Symbol \<Rightarrow> Inr (NotSet, s)
      | StringName n \<Rightarrow>
          res_bind (property_key E n) (\<lambda>key.
          res_bind (UnwrapLcbInstance holder) (\<lambda>bucket_lcb_obj_ptr.
            let result = (case lcb_get3 L s bucket_lcb_obj_ptr key of
                            Some resp \<Rightarrow> get_callback resp Result_init
                          | None \<Rightarrow> Result_init)
            in Inr (case v8_parse E (res_value result) of Some x \<Rightarrow> Returned x | None \<Rightarrow> Threw, s))))"

definition BucketSet ::
  "'v v8 \<Rightarrow> 's lcb \<Rightarrow> bool \<Rightarrow> 'v name \<Rightarrow> 'v \<Rightarrow> host_object \<Rightarrow> 's \<Rightarrow> ('v outcome \<times> 's) result" where
  "BucketSet E L little_endian name value_obj holder s =
     (case name of
        Symbol \<Rightarrow> Inr (NotSet, s)
      | StringName n \<Rightarrow>
          res_bind (property_key E n) (\<lambda>key.
          res_bind (ToString E value_obj) (\<lambda>value.
          res_bind (UnwrapLcbInstance holder) (\<lambda>bucket_lcb_obj_ptr.
          res_bind (UnwrapWorkerLcbInstance holder) (\<lambda>cb_instance.
            let scmd = \<lparr>cmd_operation = LCB_SET, cmd_key = key, cmd_value = value, cmd_flags = 0x2000000\<rparr>;
                (resp, s1) = lcb_store3 L s bucket_lcb_obj_ptr scmd;
                result = (case resp of Some r \<Rightarrow> set_callback r Result_init | None \<Rightarrow> Result_init);
                cas_key = dec_of_nat (unat (htonll_64 little_endian (res_cas result)));
                scmd = \<lparr>cmd_operation = LCB_SET, cmd_key = cas_key, cmd_value = key, cmd_flags = 0\<rparr>;
                (_, s2) = lcb_store3 L s1 cb_instance scmd
            in Inr (Returned value_obj, s2))))))"

definition BucketDelete ::
  "'v v8 \<Rightarrow> 's lcb \<Rightarrow> 'v name \<Rightarrow> host_object \<Rightarrow> 's \<Rightarrow> (bool outcome \<times> 's) result" where
  "BucketDelete E L name holder s =
     (case name of
        Symbol \<Rightarrow> Inr (NotSet, s)
      | StringName n \<Rightarrow>
          res_bind (property_key E n) (\<lambda>key.
          res_bind (UnwrapLcbInstance holder) (\<lambda>bucket_lcb_obj_ptr.
            Inr (Returned True, lcb_remove3 L s bucket_lcb_obj_ptr key))))"

section \<open>Byte order: the routine reverses the bytes\<close>

lemma byte_masks:
  "(0xFF::'a::len word) = mask 8"
  "(0xFFFFFFFF::'a::len word) = mask 32"
  "(0xFF00::'a::len word) = push_bit 8 (mask 8)"
  by (simp_all add: mask_eq_exp_minus_1 push_bit_eq_mult)

lemma bit_bswap32: "bit (bswap32 w) n \<longleftrightarrow> n < 32 \<and> bit w (8 * (3 - n div 8) + n mod 8)"
proof -
  consider "n < 8" | "8 \<le> n" "n < 16" | "16 \<le> n" "n < 24" | "24 \<le> n" "n < 32" | "32 \<le> n" by linarith
  then show ?thesis
  proof cases
    case 1
    then have "n div 8 = 0" "n mod 8 = n" by auto
    then show ?thesis using 1 unfolding bswap32_def byte_masks by (auto simp: bit_simps)
  next
    case 2
    then have "n div 8 = 1" "n mod 8 = n - 8" by (auto simp: div_nat_eqI mod_if)
    then show ?thesis using 2 unfolding bswap32_def byte_masks
      by (auto simp: bit_simps dest: bit_imp_le_length)
  next
    case 3
    then have "n div 8 = 2" "n mod 8 = n - 16" by (auto simp: div_nat_eqI mod_if)
    then show ?thesis using 3 unfolding bswap32_def byte_masks
      by (auto simp: bit_simps dest: bit_imp_le_length)
  next
    case 4
    then have "n div 8 = 3" "n mod 8 = n - 24" by (auto simp: div_nat_eqI mod_if)
    then show ?thesis using 4 unfolding bswap32_def byte_masks
      by (auto simp: bit_simps dest: bit_imp_le_length)
  next
    case 5
    then show ?thesis by (auto dest: bit_imp_le_length)
  qed
qed

lemma bit_htonll_64: "bit (htonll_64 True w) n \<longleftrightarrow> n < 64 \<and> bit w (8 * (7 - n div 8) + n mod 8)"
proof -
  consider "n < 32" | "32 \<le> n" "n < 64" | "64 \<le> n" by linarith
  then show ?thesis
  proof cases
    case 1
    then have "n div 8 \<le> 3" by auto
    then have "8 * (7 - n div 8) + n mod 8 = 32 + (8 * (3 - n div 8) + n mod 8)" by auto
    then show ?thesis
      using 1 unfolding htonll_64_def htonl_def byte_masks Let_def
      by (auto simp: bit_simps bit_bswap32 add.assoc)
  next
    case 2
    define m where "m = n - 32"
    have nm: "n = m + 32" using 2 by (simp add: m_def)
    have m: "n = m + 32" "m < 32" "n div 8 = m div 8 + 4" "n mod 8 = m mod 8"
      using 2 mod_mult_self2 [of m 8 4] by (simp_all add: nm)
    have "8 * (3 - m div 8) + m mod 8 < 32" using m by auto
    then show ?thesis
      using m unfolding htonll_64_def htonl_def byte_masks Let_def by (auto simp: bit_simps bit_bswap32)
  next
    case 3
    then show ?thesis by (auto dest: bit_imp_le_length)
  qed
qed

definition byte :: "64 word \<Rightarrow> nat \<Rightarrow> 8 word" where
  "byte w i = ucast (drop_bit (8 * i) w)"

lemma byte_htonll_64: "i < 8 \<Longrightarrow> byte (htonll_64 True w) i = byte w (7 - i)"
proof (rule bit_word_eqI)
  fix n assume i: "i < 8" and "n < LENGTH(8)"
  then have n: "n < 8" by simp
  have "(8 * i + n) div 8 = i" "(8 * i + n) mod 8 = n" using n by auto
  then show "bit (byte (htonll_64 True w) i) n = bit (byte w (7 - i)) n"
    using i n by (simp add: byte_def bit_simps bit_htonll_64 add.commute)
qed

lemma htonll_64_involution [simp]: "htonll_64 e (htonll_64 e w) = w"
proof (cases e)
  case True
  show ?thesis
  proof (rule bit_word_eqI)
    fix n assume n: "n < LENGTH(64)"
    let ?m = "8 * (7 - n div 8) + n mod 8"
    have "?m div 8 = 7 - n div 8" "?m mod 8 = n mod 8" by simp_all
    moreover have "7 - (7 - n div 8) = n div 8" "?m < 64" using n by auto
    ultimately have "8 * (7 - ?m div 8) + ?m mod 8 = n" by simp
    then show "bit (htonll_64 e (htonll_64 e w)) n = bit w n"
      using True n \<open>?m < 64\<close> by (simp add: bit_htonll_64)
  qed
next
  case False
  then show ?thesis by (simp add: htonll_64_def)
qed

text \<open>The key under which a write leaves its CAS.\<close>

definition cas_marker_key :: "bool \<Rightarrow> lcb_CAS \<Rightarrow> string" where
  "cas_marker_key little_endian cas = dec_of_nat (unat (htonll_64 little_endian cas))"

definition cas_of_marker_key :: "bool \<Rightarrow> string \<Rightarrow> lcb_CAS option" where
  "cas_of_marker_key little_endian k = Some (htonll_64 little_endian (word_of_nat (nat_of_dec k)))"

interpretation cas_marker: codec "cas_marker_key e" "cas_of_marker_key e" "\<lambda>_. True"
  by unfold_locales (simp add: cas_marker_key_def cas_of_marker_key_def)

text \<open>
  C38. On a little-endian host htonll_64 turns the bytes of the CAS around, on either host it is its
  own inverse, and the decimal key made of its result is different for different CAS values.
\<close>

theorem htonll_64_correct:
  "(i < 8 \<longrightarrow> byte (htonll_64 True w) i = byte w (7 - i))
   \<and> htonll_64 e (htonll_64 e w) = w
   \<and> (dec_of_nat (unat (htonll_64 e w)) = dec_of_nat (unat (htonll_64 e v)) \<longleftrightarrow> w = v)"
  using byte_htonll_64 cas_marker.enc_inject [of e w v] by (simp add: cas_marker_key_def)

theorem htonll_64_correct_witness:
  "byte (htonll_64 True 0x0102030405060708) 0 = byte 0x0102030405060708 7
   \<and> htonll_64 True 0x0102030405060708 = 0x0807060504030201"
proof -
  have "byte (htonll_64 True 0x0102030405060708) 0 = byte 0x0102030405060708 7"
    using htonll_64_correct [of 0 "0x0102030405060708" True 0] by simp
  moreover have "htonll_64 True 0x0102030405060708 = 0x0807060504030201" by code_simp
  ultimately show ?thesis by simp
qed

section \<open>Installing a bucket\<close>

definition bucket_object :: "Bucket \<Rightarrow> host_object" where
  "bucket_object b = \<lparr>obj_handlers = BucketHandlers,
     obj_fields = [MapField, LcbField (bucket_lcb_obj b), LcbField (bucket_worker_cb b)]\<rparr>"

text \<open>The cached template is the one \<open>MakeBucketMapTemplate\<close> makes.\<close>

definition Bucket_wf :: "Bucket \<Rightarrow> bool" where
  "Bucket_wf b \<longleftrightarrow> bucket_map_template b \<in> {None, Some MakeBucketMapTemplate}"

lemma Bucket_new_wf [simp]: "Bucket_wf (Bucket_new w n e a)"
  by (simp add: Bucket_wf_def Bucket_new_def)

lemma WrapBucketMap_eq:
  "Bucket_wf b \<Longrightarrow> WrapBucketMap b = Inr (bucket_object b, b\<lparr>bucket_map_template := Some MakeBucketMapTemplate\<rparr>)"
  by (auto simp: Bucket_wf_def WrapBucketMap_def Let_def host_object_simps MakeBucketMapTemplate_def
    bucket_object_def numeral_eq_Suc)

lemma Bucket_Initialize_eq:
  "Bucket_wf b \<Longrightarrow> Bucket_Initialize b g =
     Inr (True, b\<lparr>bucket_map_template := Some MakeBucketMapTemplate\<rparr>, g(bucket_alias b \<mapsto> bucket_object b))"
  by (simp add: Bucket_Initialize_def Bucket_InstallMaps_def WrapBucketMap_eq)

interpretation bucket_class: installed_class Bucket_Initialize bucket_alias bucket_object Bucket_wf
  by unfold_locales (simp add: Bucket_Initialize_eq bucket_object_def Bucket_wf_def)

lemma bucket_object_unwrap [simp]:
  "UnwrapLcbInstance (bucket_object b) = Inr (bucket_lcb_obj b)"
  "UnwrapWorkerLcbInstance (bucket_object b) = Inr (bucket_worker_cb b)"
  by (simp_all add: bucket_object_def host_object_simps)

section \<open>Reads, writes and deletes\<close>

lemma BucketGet_kv:
  assumes "property_key E n = Inr key" "UnwrapLcbInstance h = Inr b"
  shows "BucketGet E L (StringName n) h s =
    Inr (case v8_parse E (case kv L s b key of Some v \<Rightarrow> v | None \<Rightarrow> []) of
           Some x \<Rightarrow> Returned x | None \<Rightarrow> Threw, s)"
  using assms by (auto simp: BucketGet_def kv_def get_callback_def Result_init_def Let_def split: option.splits)

text \<open>The CAS that the response of the first store of \<open>BucketSet\<close> carries.\<close>

definition write_cas :: "'s lcb \<Rightarrow> 's \<Rightarrow> string \<Rightarrow> string \<Rightarrow> string \<Rightarrow> lcb_CAS" where
  "write_cas L s b key value =
     (case fst (lcb_store3 L s b
        \<lparr>cmd_operation = LCB_SET, cmd_key = key, cmd_value = value, cmd_flags = 0x2000000\<rparr>) of
        Some r \<Rightarrow> store_cas r | None \<Rightarrow> 0)"

lemma BucketSet_eq:
  assumes "property_key E n = Inr key" "ToString E x = Inr value"
    "UnwrapLcbInstance h = Inr b" "UnwrapWorkerLcbInstance h = Inr w"
  shows "BucketSet E L e (StringName n) x h s =
    Inr (Returned x,
      snd (lcb_store3 L
        (snd (lcb_store3 L s b \<lparr>cmd_operation = LCB_SET, cmd_key = key, cmd_value = value, cmd_flags = 0x2000000\<rparr>)) w
        \<lparr>cmd_operation = LCB_SET, cmd_key = cas_marker_key e (write_cas L s b key value),
         cmd_value = key, cmd_flags = 0\<rparr>))"
  using assms
  by (auto simp: BucketSet_def Let_def write_cas_def cas_marker_key_def set_callback_def Result_init_def
    split: prod.splits option.splits)

lemma cas_marker_key_ok [simp]: "key_ok (cas_marker_key e cas)"
proof -
  have "unat (htonll_64 e cas) < 2 ^ 64" using unsigned_less [of "htonll_64 e cas"] by simp
  then have "unat (htonll_64 e cas) < 10 ^ 250" by (rule less_trans) simp
  then have "length (cas_marker_key e cas) \<le> 250" by (simp add: cas_marker_key_def length_dec_of_nat_le_iff)
  then show ?thesis by (simp add: key_ok_def cas_marker_key_def)
qed

lemma BucketSet_kv:
  assumes L: "reachable_cluster L" and ok: "key_ok key" and args: "property_key E n = Inr key" "ToString E x = Inr value"
    "UnwrapLcbInstance h = Inr b" "UnwrapWorkerLcbInstance h = Inr w"
  shows "\<exists>s'. BucketSet E L e (StringName n) x h s = Inr (Returned x, s')
    \<and> kv L s' = (let m = (kv L s)(b := (kv L s b)(key \<mapsto> value))
                 in m(w := (m w)(cas_marker_key e (write_cas L s b key value) \<mapsto> key)))"
  unfolding BucketSet_eq [OF args]
  by (simp add: reachable_clusterD(2) [OF L] ok kv_store_def Let_def)

lemma property_key_string: "utf8_round_trip E k \<Longrightarrow> NUL \<notin> set k \<Longrightarrow> property_key E (v8_string E k) = Inr k"
  by (simp add: property_key_def ObjectToString_def utf8_round_trip_def)

lemma ToString_json: "json_round_trip E x \<Longrightarrow> \<exists>t. ToString E x = Inr t \<and> v8_parse E t = Some x"
  by (auto simp: json_round_trip_def ToString_def ObjectToString_def)

lemma bucket_write_read:
  assumes L: "reachable_cluster L" and E: "utf8_round_trip E key" and x: "json_round_trip E x"
    and key: "NUL \<notin> set key" "key_ok key"
    and holder: "UnwrapLcbInstance h = Inr b" "UnwrapWorkerLcbInstance h = Inr w"
    and apart: "b \<noteq> w \<or> \<not> list_all is_digit key"
  shows "\<exists>s'. BucketSet E L e (StringName (v8_string E key)) x h s = Inr (Returned x, s')
    \<and> BucketGet E L (StringName (v8_string E key)) h s' = Inr (Returned x, s')"
proof -
  obtain t where t: "ToString E x = Inr t" "v8_parse E t = Some x" using ToString_json [OF x] by blast
  note k = property_key_string [OF E key(1)]
  obtain s' where s': "BucketSet E L e (StringName (v8_string E key)) x h s = Inr (Returned x, s')"
    and kv': "kv L s' = (let m = (kv L s)(b := (kv L s b)(key \<mapsto> t))
                 in m(w := (m w)(cas_marker_key e (write_cas L s b key t) \<mapsto> key)))"
    using BucketSet_kv [OF L key(2) k t(1) holder] by blast
  have "b = w \<Longrightarrow> key \<noteq> cas_marker_key e (write_cas L s b key t)"
    using apart dec_of_nat_digits by (metis cas_marker_key_def)
  then have "kv L s' b key = Some t" by (auto simp: kv' Let_def)
  then show ?thesis using s' t(2) BucketGet_kv [OF k holder(1), of L s'] by simp
qed

text \<open>
  C1. On a reachable cluster, a value that a handler writes to a bucket under a key that the server accepts, without NUL, and
  that survives JSON.stringify and JSON.parse, is what a following read of the same key returns. Where
  the bucket is the worker's own, the key must not consist of digits only, as the markers of the writes do.
\<close>

theorem BucketSet_BucketGet:
  assumes L: "reachable_cluster L" and E: "utf8_round_trip E key" and x: "json_round_trip E x"
    and key: "NUL \<notin> set key" "key_ok key"
    and holder: "UnwrapLcbInstance h = Inr b" "UnwrapWorkerLcbInstance h = Inr w"
    and apart: "b \<noteq> w \<or> \<not> list_all is_digit key"
  shows "\<exists>s'. BucketSet E L e (StringName (v8_string E key)) x h s = Inr (Returned x, s')
    \<and> BucketGet E L (StringName (v8_string E key)) h s' = Inr (Returned x, s')"
  by (rule bucket_write_read [OF assms])

theorem BucketSet_BucketGet_witness:
  "\<exists>s'. BucketSet ref_v8 ref_lcb True (StringName (v8_string ref_v8 ''user''))
        ''{}'' (bucket_object (Bucket_new ''couchbase://localhost/eventing'' ''default'' ''localhost'' ''credit'')) ref_empty
      = Inr (Returned ''{}'', s')
    \<and> BucketGet ref_v8 ref_lcb (StringName (v8_string ref_v8 ''user''))
        (bucket_object (Bucket_new ''couchbase://localhost/eventing'' ''default'' ''localhost'' ''credit'')) s'
      = Inr (Returned ''{}'', s')"
  by (rule BucketSet_BucketGet [where b = "''couchbase://localhost/default''"
        and w = "''couchbase://localhost/eventing''"])
    (simp_all add: Bucket_new_def c_eval key_ok_def)

text \<open>
  A write leaves a marker in the metadata bucket: after BucketSet the key made of the CAS that the
  store returned holds the name of the document, so the mutation can be recognised as the handler's
  own, and apart from the document and the marker no key of any bucket changes.
\<close>

theorem BucketSet_marks_own_mutation:
  assumes L: "reachable_cluster L" and ok: "key_ok key" and args: "property_key E n = Inr key" "ToString E x = Inr value"
    and holder: "UnwrapLcbInstance h = Inr b" "UnwrapWorkerLcbInstance h = Inr w"
  shows "\<exists>s'. BucketSet E L e (StringName n) x h s = Inr (Returned x, s')
    \<and> kv L s' w (cas_marker_key e (write_cas L s b key value)) = Some key
    \<and> (\<forall>b' k'. (b', k') \<noteq> (b, key) \<longrightarrow> (b', k') \<noteq> (w, cas_marker_key e (write_cas L s b key value))
          \<longrightarrow> kv L s' b' k' = kv L s b' k')"
proof -
  obtain s' where "BucketSet E L e (StringName n) x h s = Inr (Returned x, s')"
    and "kv L s' = (let m = (kv L s)(b := (kv L s b)(key \<mapsto> value))
                 in m(w := (m w)(cas_marker_key e (write_cas L s b key value) \<mapsto> key)))"
    using BucketSet_kv [OF L ok args holder] by blast
  then show ?thesis by (auto simp: Let_def)
qed

theorem BucketSet_marks_own_mutation_witness:
  "\<exists>s'. BucketSet ref_v8 ref_lcb True (StringName ''user'') ''{}''
        (bucket_object (Bucket_new ''meta'' ''default'' ''localhost'' ''credit'')) ref_empty = Inr (Returned ''{}'', s')
    \<and> kv ref_lcb s' ''meta'' (cas_marker_key True 1) = Some ''user''"
proof -
  let ?h = "bucket_object (Bucket_new ''meta'' ''default'' ''localhost'' ''credit'')"
  have h: "UnwrapLcbInstance ?h = Inr ''couchbase://localhost/default''" "UnwrapWorkerLcbInstance ?h = Inr ''meta''"
    by (simp_all add: Bucket_new_def c_eval)
  have k: "property_key ref_v8 ''user'' = Inr ''user''" and v: "ToString ref_v8 ''{}'' = Inr ''{}''"
    by (simp_all add: property_key_def ToString_def ObjectToString_def ref_v8_def c_eval)
  have "write_cas ref_lcb ref_empty ''couchbase://localhost/default'' ''user'' ''{}'' = 1"
    by (simp add: write_cas_def ref_lcb_def ref_store_def ref_empty_def)
  moreover have "key_ok ''user''" by (simp add: key_ok_def)
  ultimately show ?thesis
    using BucketSet_marks_own_mutation [OF ref_lcb_reachable _ k v h, of True ref_empty] by auto
qed

text \<open>
  A delete removes the key from the bucket of the holder and reports true; a read of the key
  afterwards throws, because the empty value of a missing key is not JSON.
\<close>

theorem BucketDelete_BucketGet:
  assumes L: "reachable_cluster L" and key: "property_key E n = Inr key" "key_ok key"
    and holder: "UnwrapLcbInstance h = Inr b" and empty: "v8_parse E [] = None"
  shows "\<exists>s'. BucketDelete E L (StringName n) h s = Inr (Returned True, s')
    \<and> kv L s' = (kv L s)(b := (kv L s b)(key := None))
    \<and> BucketGet E L (StringName n) h s' = Inr (Threw, s')"
proof -
  let ?s = "lcb_remove3 L s b key"
  have "kv L ?s = (kv L s)(b := (kv L s b)(key := None))" by (rule reachable_clusterD(3) [OF L key(2)])
  moreover have "BucketGet E L (StringName n) h ?s = Inr (Threw, ?s)"
    using BucketGet_kv [OF key(1) holder, of L ?s] empty by (simp add: reachable_clusterD(3) [OF L key(2)])
  moreover have "BucketDelete E L (StringName n) h s = Inr (Returned True, ?s)"
    by (simp add: BucketDelete_def key(1) holder)
  ultimately show ?thesis by blast
qed

theorem BucketDelete_BucketGet_witness:
  "\<exists>s'. BucketDelete ref_v8 ref_lcb (StringName ''user'')
        (bucket_object (Bucket_new ''meta'' ''default'' ''localhost'' ''credit'')) ref_empty = Inr (Returned True, s')
    \<and> BucketGet ref_v8 ref_lcb (StringName ''user'')
        (bucket_object (Bucket_new ''meta'' ''default'' ''localhost'' ''credit'')) s' = Inr (Threw, s')"
proof -
  let ?h = "bucket_object (Bucket_new ''meta'' ''default'' ''localhost'' ''credit'')"
  have "property_key ref_v8 ''user'' = Inr ''user''" "v8_parse ref_v8 [] = None" "key_ok ''user''"
    by (simp_all add: property_key_def ObjectToString_def ref_v8_def key_ok_def c_eval)
  then show ?thesis
    using BucketDelete_BucketGet [OF ref_lcb_reachable _ _ bucket_object_unwrap(1), of ref_v8 "''user''" "''user''"
        "Bucket_new ''meta'' ''default'' ''localhost'' ''credit''" ref_empty] by auto
qed

end
