(* ===== verification/N1qlBinding.thy ===== *)
theory N1qlBinding
  imports Host Reference
begin

text \<open>
  The class \<open>N1QL\<close> of n1ql.cc: a query is a property read on the object bound to \<open>_n1ql\<close>. The
  lemmas show that the rows arrive in their order, that a successful query returns the parsed rows,
  and that a failed one returns an array of as many holes. The trace lines that \<open>N1QLEnumGetCall\<close>
  prints about a query are left out.
\<close>

section \<open>Rows\<close>

record Rows =
  rows_rows :: "string list"
  rows_metadata :: string
  rows_rc :: lcb_error
  rows_htcode :: "16 word"

definition Rows_init :: Rows where
  "Rows_init = \<lparr>rows_rows = [], rows_metadata = [], rows_rc = LCB_ERROR, rows_htcode = 0\<rparr>"

definition query_callback :: "lcb_RESPN1QL \<Rightarrow> Rows \<Rightarrow> Rows" where
  "query_callback resp rows =
     (if resp_final resp then rows\<lparr>rows_rc := resp_rc resp, rows_metadata := resp_row resp\<rparr>
      else rows\<lparr>rows_rows := rows_rows rows @ [resp_row resp]\<rparr>)"

section \<open>The class\<close>

record N1QL =
  n1ql_bucket_name :: string
  n1ql_endpoint :: string
  n1ql_alias :: string
  n1ql_lcb_obj :: string
  n1ql_map_template :: "object_template option"

definition N1QL_new :: "string \<Rightarrow> string \<Rightarrow> string \<Rightarrow> N1QL" where
  "N1QL_new bname ep al =
     \<lparr>n1ql_bucket_name = c_str bname, n1ql_endpoint = c_str ep, n1ql_alias = c_str al,
      n1ql_lcb_obj = ''couchbase://'' @ c_str ep @ ''/'' @ c_str bname, n1ql_map_template = None\<rparr>"

definition MakeN1QLMapTemplate :: object_template where
  "MakeN1QLMapTemplate = \<lparr>internal_field_count = 2, handlers = N1QLHandlers\<rparr>"

definition WrapN1QLMap :: "N1QL \<Rightarrow> (host_object \<times> N1QL) result" where
  "WrapN1QLMap q =
     (let t = (case n1ql_map_template q of None \<Rightarrow> MakeN1QLMapTemplate | Some t \<Rightarrow> t);
          q' = q\<lparr>n1ql_map_template := Some t\<rparr>
      in res_bind (SetInternalField 0 MapField (NewInstance t)) (\<lambda>o1.
         res_bind (SetInternalField 1 (LcbField (n1ql_lcb_obj q)) o1) (\<lambda>o2.
         Inr (o2, q'))))"

definition N1QL_InstallMaps :: "N1QL \<Rightarrow> globals \<Rightarrow> (bool \<times> N1QL \<times> globals) result" where
  "N1QL_InstallMaps q g =
     res_bind (WrapN1QLMap q) (\<lambda>(n1ql_obj, q'). Inr (True, q', g(n1ql_alias q \<mapsto> n1ql_obj)))"

definition N1QL_Initialize :: "N1QL \<Rightarrow> globals \<Rightarrow> (bool \<times> N1QL \<times> globals) result" where
  "N1QL_Initialize q g =
     res_bind (N1QL_InstallMaps q g) (\<lambda>(ok, q', g'). Inr (if \<not> ok then False else True, q', g'))"

text \<open>
  The rows are parsed one after the other into \<open>result\<close>; a row that is not JSON gives an empty
  handle, which \<open>result->Set\<close> does not accept.
\<close>

fun set_rows :: "'v v8 \<Rightarrow> nat \<Rightarrow> string list \<Rightarrow> 'v option list \<Rightarrow> 'v option list result" where
  "set_rows E index [] result = Inr result"
| "set_rows E index (row # rows) result =
     (case v8_parse E (c_str row) of
        None \<Rightarrow> Inl Library_contract
      | Some x \<Rightarrow> set_rows E (Suc index) rows (result[index := Some x]))"

definition N1QLEnumGetCall ::
  "'v v8 \<Rightarrow> 's lcb \<Rightarrow> 'v name \<Rightarrow> host_object \<Rightarrow> 's \<Rightarrow> ('v outcome \<times> 's) result" where
  "N1QLEnumGetCall E L name holder s =
     (case name of
        Symbol \<Rightarrow> Inr (NotSet, s)
      | StringName n \<Rightarrow>
          res_bind (ObjectToString E (Some n)) (\<lambda>query.
          res_bind (UnwrapLcbInstance holder) (\<lambda>n1ql_lcb_obj_ptr.
            let (resps, s') = lcb_n1ql_query L s n1ql_lcb_obj_ptr (c_str query);
                rows = fold query_callback resps Rows_init;
                result = replicate (length (rows_rows rows)) None
            in if rows_rc rows = LCB_SUCCESS
               then res_bind (set_rows E 0 (rows_rows rows) result) (\<lambda>result.
                      Inr (Returned (v8_array E result), s'))
               else Inr (Returned (v8_array E result), s'))))"

section \<open>Installing the query object\<close>

definition n1ql_object :: "N1QL \<Rightarrow> host_object" where
  "n1ql_object q = \<lparr>obj_handlers = N1QLHandlers, obj_fields = [MapField, LcbField (n1ql_lcb_obj q)]\<rparr>"

definition N1QL_wf :: "N1QL \<Rightarrow> bool" where
  "N1QL_wf q \<longleftrightarrow> n1ql_map_template q \<in> {None, Some MakeN1QLMapTemplate}"

lemma N1QL_new_wf [simp]: "N1QL_wf (N1QL_new n e a)"
  by (simp add: N1QL_wf_def N1QL_new_def)

lemma N1QL_Initialize_eq:
  "N1QL_wf q \<Longrightarrow> N1QL_Initialize q g =
     Inr (True, q\<lparr>n1ql_map_template := Some MakeN1QLMapTemplate\<rparr>, g(n1ql_alias q \<mapsto> n1ql_object q))"
  by (auto simp: N1QL_wf_def N1QL_Initialize_def N1QL_InstallMaps_def WrapN1QLMap_def Let_def
    host_object_simps MakeN1QLMapTemplate_def n1ql_object_def numeral_eq_Suc)

interpretation n1ql_class: installed_class N1QL_Initialize n1ql_alias n1ql_object N1QL_wf
  by unfold_locales (simp add: N1QL_Initialize_eq n1ql_object_def N1QL_wf_def)

lemma n1ql_object_unwrap [simp]: "UnwrapLcbInstance (n1ql_object q) = Inr (n1ql_lcb_obj q)"
  by (simp add: n1ql_object_def host_object_simps)

section \<open>Queries\<close>

text \<open>The responses of a query: its rows in order, then the final response.\<close>

definition row_response :: "string \<Rightarrow> lcb_RESPN1QL" where
  "row_response r = \<lparr>resp_final = False, resp_rc = LCB_SUCCESS, resp_row = r\<rparr>"

definition final_response :: "lcb_error \<Rightarrow> string \<Rightarrow> lcb_RESPN1QL" where
  "final_response rc meta = \<lparr>resp_final = True, resp_rc = rc, resp_row = meta\<rparr>"

lemma fold_query_callback_rows:
  "fold query_callback (map row_response rs) rows = rows\<lparr>rows_rows := rows_rows rows @ rs\<rparr>"
  by (induction rs arbitrary: rows) (auto simp: query_callback_def row_response_def)

lemma fold_query_callback:
  "fold query_callback (map row_response rs @ [final_response rc meta]) Rows_init =
     \<lparr>rows_rows = rs, rows_metadata = meta, rows_rc = rc, rows_htcode = 0\<rparr>"
  by (simp add: fold_query_callback_rows query_callback_def final_response_def Rows_init_def)

lemma set_rows_eq:
  "list_all (\<lambda>r. v8_parse E (c_str r) \<noteq> None) rs \<Longrightarrow>
     set_rows E (length done) rs (done @ replicate (length rs) None) = Inr (done @ map (\<lambda>r. v8_parse E (c_str r)) rs)"
proof (induction rs arbitrary: "done")
  case Nil
  then show ?case by simp
next
  case (Cons r rs)
  then obtain x where x: "v8_parse E (c_str r) = Some x" by auto
  then show ?case using Cons.IH [of "done @ [Some x]"] Cons.prems by simp
qed

lemma N1QLEnumGetCall_eq:
  assumes "ObjectToString E (Some n) = Inr query" "UnwrapLcbInstance h = Inr b"
    and "lcb_n1ql_query L s b query = (map row_response rs @ [final_response rc meta], s')"
  shows "N1QLEnumGetCall E L (StringName n) h s =
    (if rc = LCB_SUCCESS
     then res_bind (set_rows E 0 rs (replicate (length rs) None)) (\<lambda>r. Inr (Returned (v8_array E r), s'))
     else Inr (Returned (v8_array E (replicate (length rs) None)), s'))"
proof -
  have "c_str query = query"
    using assms(1) by (auto simp: ObjectToString_def split: option.splits)
  then show ?thesis using assms by (simp add: N1QLEnumGetCall_def Let_def fold_query_callback [simplified])
qed

text \<open>
  C33. A query whose rows are JSON and whose final response is a success returns the array of the parsed
  rows in their order; a query whose final response is an error returns an array of as many holes as
  rows arrived, and never the rows.
\<close>

theorem N1QLEnumGetCall_correct:
  assumes q: "ObjectToString E (Some n) = Inr query" and h: "UnwrapLcbInstance h = Inr b"
    and resps: "lcb_n1ql_query L s b query = (map row_response rs @ [final_response rc meta], s')"
    and json: "list_all (\<lambda>r. v8_parse E (c_str r) \<noteq> None) rs"
  shows "N1QLEnumGetCall E L (StringName n) h s =
    Inr (Returned (v8_array E (if rc = LCB_SUCCESS then map (\<lambda>r. v8_parse E (c_str r)) rs
                                else replicate (length rs) None)), s')"
  using N1QLEnumGetCall_eq [OF q h resps] set_rows_eq [OF json, of "[]"] by simp

theorem N1QLEnumGetCall_correct_witness:
  "N1QLEnumGetCall ref_v8 ref_lcb (StringName ''select 1'') (n1ql_object (N1QL_new ''default'' ''localhost'' ''_n1ql'')) ref_empty
    = Inr (Returned (v8_array ref_v8 [Some ''select 1'']), ref_empty)"
proof -
  let ?q = "N1QL_new ''default'' ''localhost'' ''_n1ql''"
  have 1: "ObjectToString ref_v8 (Some ''select 1'') = Inr ''select 1''"
    by (simp add: ObjectToString_def ref_v8_def c_eval)
  have 2: "lcb_n1ql_query ref_lcb ref_empty (n1ql_lcb_obj ?q) ''select 1''
      = (map row_response [''select 1''] @ [final_response LCB_SUCCESS []], ref_empty)"
    by (simp add: ref_lcb_def row_response_def final_response_def)
  have 3: "list_all (\<lambda>r. v8_parse ref_v8 (c_str r) \<noteq> None) [''select 1'']"
    by (simp add: ref_v8_def c_eval)
  show ?thesis
    using N1QLEnumGetCall_correct [OF 1 n1ql_object_unwrap 2 3] by (simp add: ref_v8_def c_eval)
qed

end
