(* ===== verification/QueueBinding.thy ===== *)
theory QueueBinding
  imports Host Reference
begin

text \<open>
  The class \<open>Queue\<close> of queue.cc: a list of a redis server that a handler appends to by reading a
  property. The lemmas show how the constructor takes the endpoint apart, that a queue starts empty,
  and that a document reaches the list of the queue where a \<open>std::string\<close> keeps short text inline
  behind one length byte, as libc++ does.
\<close>

section \<open>The class\<close>

record Queue =
  queue_provider :: string
  queue_endpoint :: string
  queue_alias :: string
  queue_name :: string
  queue_map_template :: "object_template option"

text \<open>\<open>s.substr(0, s.find(d))\<close> is all of \<open>s\<close> where \<open>d\<close> does not occur.\<close>

definition substr_to :: "string \<Rightarrow> string \<Rightarrow> string" where
  "substr_to s d = (case str_find d s of Some i \<Rightarrow> take i s | None \<Rightarrow> s)"

text \<open>
  \<open>s.erase(0, s.find(d) + d.length())\<close>: with a delimiter of one character, \<open>npos + 1\<close> wraps to 0
  and nothing is erased.
\<close>

definition erase_to :: "string \<Rightarrow> string \<Rightarrow> string" where
  "erase_to s d = (case str_find d s of Some i \<Rightarrow> drop (i + length d) s | None \<Rightarrow> drop (length d - 1) s)"

definition Queue_new ::
  "'r hiredis \<Rightarrow> string \<Rightarrow> string \<Rightarrow> string \<Rightarrow> string \<Rightarrow> 'r \<Rightarrow> (Queue \<times> 'r) result" where
  "Queue_new R p ep al qname r =
     (let provider = c_str p; endpoint = c_str ep; queue_alias' = c_str al; queue_name' = c_str qname;
          delimiter = '':'';
          hostname = substr_to endpoint delimiter;
          endpoint = erase_to endpoint delimiter;
          port = substr_to endpoint delimiter
      in res_bind (stoi port) (\<lambda>port_number.
           if \<not> redis_connect R hostname port_number then Inl (Exit 1)
           else let del_command = ''DEL '' @ queue_name';
                    r' = redisCommand R r del_command []
                in Inr (\<lparr>queue_provider = provider, queue_endpoint = endpoint, queue_alias = queue_alias',
                         queue_name = queue_name', queue_map_template = None\<rparr>, r')))"

definition MakeQueueMapTemplate :: object_template where
  "MakeQueueMapTemplate = \<lparr>internal_field_count = 3, handlers = QueueHandlers\<rparr>"

definition WrapQueueMap :: "Queue \<Rightarrow> (host_object \<times> Queue) result" where
  "WrapQueueMap q =
     (let t = (case queue_map_template q of None \<Rightarrow> MakeQueueMapTemplate | Some t \<Rightarrow> t);
          q' = q\<lparr>queue_map_template := Some t\<rparr>
      in res_bind (SetInternalField 0 MapField (NewInstance t)) (\<lambda>o1.
         res_bind (SetInternalField 1 RedisField o1) (\<lambda>o2.
         res_bind (SetInternalField 2 (StringField (queue_name q)) o2) (\<lambda>o3.
         Inr (o3, q')))))"

definition InstallQueueMaps :: "Queue \<Rightarrow> globals \<Rightarrow> (bool \<times> Queue \<times> globals) result" where
  "InstallQueueMaps q g =
     res_bind (WrapQueueMap q) (\<lambda>(queue_obj, q'). Inr (True, q', g(queue_alias q \<mapsto> queue_obj)))"

definition Queue_Initialize :: "Queue \<Rightarrow> globals \<Rightarrow> (bool \<times> Queue \<times> globals) result" where
  "Queue_Initialize q g =
     res_bind (InstallQueueMaps q g) (\<lambda>(ok, q', g'). Inr (if \<not> ok then False else True, q', g'))"

definition UnwrapRedisContext :: "host_object \<Rightarrow> unit result" where
  "UnwrapRedisContext obj =
     res_bind (GetInternalField 1 obj) (\<lambda>f. case f of RedisField \<Rightarrow> Inr () | _ \<Rightarrow> Inl Library_contract)"

text \<open>
  The field holds the address of a \<open>std::string\<close> object and is read as a \<open>const char*\<close>: what the
  caller sees is the object representation of the string, \<open>string_bytes\<close>, up to its first NUL.
\<close>

definition UnwrapQueueName :: "(string \<Rightarrow> string) \<Rightarrow> host_object \<Rightarrow> string result" where
  "UnwrapQueueName string_bytes obj =
     res_bind (GetInternalField 2 obj) (\<lambda>f.
       case f of StringField s \<Rightarrow> Inr (c_str (string_bytes s)) | _ \<Rightarrow> Inl Library_contract)"

definition QueueGetCall ::
  "'v v8 \<Rightarrow> 'r hiredis \<Rightarrow> (string \<Rightarrow> string) \<Rightarrow> 'v name \<Rightarrow> host_object \<Rightarrow> 'r \<Rightarrow> ('v outcome \<times> 'r) result" where
  "QueueGetCall E R string_bytes name holder r =
     (case name of
        Symbol \<Rightarrow> Inr (NotSet, r)
      | StringName n \<Rightarrow>
          res_bind (ObjectToString E (Some n)) (\<lambda>doc.
          res_bind (UnwrapRedisContext holder) (\<lambda>_.
          res_bind (UnwrapQueueName string_bytes holder) (\<lambda>qname.
            Inr (NotSet, redisCommand R r ''LPUSH %s %s'' [c_str (drop 1 qname), c_str doc])))))"

section \<open>Installing a queue\<close>

definition queue_object :: "Queue \<Rightarrow> host_object" where
  "queue_object q = \<lparr>obj_handlers = QueueHandlers, obj_fields = [MapField, RedisField, StringField (queue_name q)]\<rparr>"

definition Queue_wf :: "Queue \<Rightarrow> bool" where
  "Queue_wf q \<longleftrightarrow> queue_map_template q \<in> {None, Some MakeQueueMapTemplate}"

lemma Queue_Initialize_eq:
  "Queue_wf q \<Longrightarrow> Queue_Initialize q g =
     Inr (True, q\<lparr>queue_map_template := Some MakeQueueMapTemplate\<rparr>, g(queue_alias q \<mapsto> queue_object q))"
  by (auto simp: Queue_wf_def Queue_Initialize_def InstallQueueMaps_def WrapQueueMap_def Let_def
    host_object_simps MakeQueueMapTemplate_def queue_object_def numeral_eq_Suc)

interpretation queue_class: installed_class Queue_Initialize queue_alias queue_object Queue_wf
  by unfold_locales (simp add: Queue_Initialize_eq queue_object_def Queue_wf_def)

lemma queue_object_unwrap [simp]:
  "UnwrapRedisContext (queue_object q) = Inr ()"
  "UnwrapQueueName bs (queue_object q) = Inr (c_str (bs (queue_name q)))"
  by (simp_all add: queue_object_def UnwrapRedisContext_def UnwrapQueueName_def host_object_simps)

section \<open>The endpoint\<close>

lemma substr_to_single: "CHR '':'' \<notin> set a \<Longrightarrow> substr_to (a @ CHR '':'' # b) '':'' = a"
  by (simp add: substr_to_def str_find_single)

lemma substr_to_absent: "CHR '':'' \<notin> set a \<Longrightarrow> substr_to a '':'' = a"
  by (simp add: substr_to_def)

lemma erase_to_single: "CHR '':'' \<notin> set a \<Longrightarrow> erase_to (a @ CHR '':'' # b) '':'' = b"
  by (simp add: erase_to_def str_find_single)

lemma erase_to_absent: "CHR '':'' \<notin> set a \<Longrightarrow> erase_to a '':'' = a"
  by (simp add: erase_to_def)

lemma Queue_new_wf: "Queue_new R p ep al qn r = Inr (q, r') \<Longrightarrow> Queue_wf q"
  by (auto simp: Queue_new_def Let_def Queue_wf_def res_bind_eq_Inr_iff split: if_splits)

lemma digits_no_colon: "CHR '':'' \<notin> set (dec_of_nat n) \<and> NUL \<notin> set (dec_of_nat n)"
  using dec_of_nat_digits [of n] digit_not_special by (fastforce simp: list_all_iff)

text \<open>
  For an endpoint host:port with a numeric port, the constructor connects to that host and port.
  Where the connection fails the process exits with status 1; where it succeeds the queue keeps its
  alias and name, its list on the server is empty, and no other list changes. An endpoint without a
  colon is handed to std::stoi whole.
\<close>

theorem Queue_new_correct:
  assumes R: "redis_lists R" and host: "CHR '':'' \<notin> set host" "NUL \<notin> set host"
    and port: "int port \<le> INT_MAX" and name: "plain_word qn" "NUL \<notin> set al"
  shows "(\<not> redis_connect R host (int port) \<longrightarrow>
            Queue_new R p (host @ '':'' @ dec_of_nat port) al qn r = Inl (Exit 1))
    \<and> (redis_connect R host (int port) \<longrightarrow>
        (\<exists>q r'. Queue_new R p (host @ '':'' @ dec_of_nat port) al qn r = Inr (q, r')
          \<and> queue_alias q = al \<and> queue_name q = qn
          \<and> redis_list R r' = (redis_list R r)(qn := [])))
    \<and> (stoi host = Inl Uncaught_exception \<longrightarrow> Queue_new R p host al qn r = Inl Uncaught_exception)"
proof -
  have ep: "c_str (host @ '':'' @ dec_of_nat port) = host @ CHR '':'' # dec_of_nat port"
    using host digits_no_colon [of port] by (subst c_str_id) (auto simp: NUL_def)
  have st: "stoi (dec_of_nat port) = Inr (int port)"
    using port by (simp add: stoi_def signed_value_def Let_def)
  have del: "redis_list R (redisCommand R r (''DEL '' @ qn) []) = (redis_list R r)(qn := [])"
    using R name(1) by (simp add: redis_lists_def)
  have qn: "c_str qn = qn" "c_str al = al" "c_str host = host"
    using name host by (simp_all add: plain_word_def)
  note parts = substr_to_single [OF host(1)] erase_to_single [OF host(1)]
    substr_to_absent [OF conjunct1 [OF digits_no_colon]] substr_to_absent [OF host(1)] erase_to_absent [OF host(1)]
  show ?thesis
    unfolding Queue_new_def Let_def ep qn parts st using del by simp
qed

theorem Queue_new_correct_witness:
  "\<exists>q r'. Queue_new ref_redis ''redis'' (''127.0.0.1'' @ '':'' @ dec_of_nat 6379) ''orders'' ''order_queue''
        (\<lambda>_. [''old'']) = Inr (q, r')
      \<and> queue_name q = ''order_queue'' \<and> redis_list ref_redis r' ''order_queue'' = []"
proof -
  have "plain_word ''order_queue''" by (simp add: plain_word_def NUL_def)
  then show ?thesis
    using Queue_new_correct [of ref_redis "''127.0.0.1''" 6379 "''order_queue''" "''orders''" "''redis''" "\<lambda>_. [''old'']"]
    by (auto simp: NUL_def)
qed

section \<open>Enqueueing\<close>

text \<open>
  The representation of a string of at most 22 bytes in libc++: one byte with twice the length, the
  characters, a NUL.
\<close>

definition inline_short_strings :: "(string \<Rightarrow> string) \<Rightarrow> bool" where
  "inline_short_strings string_bytes \<longleftrightarrow>
     (\<forall>s. length s \<le> 22 \<longrightarrow> (\<exists>pad. string_bytes s = char_of (2 * length s) # s @ NUL # pad))"

lemma length_byte_not_NUL: "0 < n \<Longrightarrow> n \<le> 22 \<Longrightarrow> char_of (2 * n :: nat) \<noteq> NUL"
proof
  assume n: "0 < n" "n \<le> 22" and eq: "char_of (2 * n :: nat) = NUL"
  have "of_char (char_of (2 * n :: nat)) = (2 * n) mod 256" by simp
  then show False using n by (simp add: eq NUL_def)
qed

lemma QueueGetCall_eq:
  assumes bytes: "inline_short_strings bs" and q: "queue_name q \<noteq> []" "length (queue_name q) \<le> 22" "NUL \<notin> set (queue_name q)"
    and doc: "ObjectToString E (Some n) = Inr doc"
  shows "QueueGetCall E R bs (StringName n) (queue_object q) r =
    Inr (NotSet, redisCommand R r ''LPUSH %s %s'' [queue_name q, doc])"
proof -
  obtain pad where pad: "bs (queue_name q) = char_of (2 * length (queue_name q)) # queue_name q @ NUL # pad"
    using bytes q(2) by (auto simp: inline_short_strings_def)
  have "char_of (2 * length (queue_name q)) \<noteq> NUL" using length_byte_not_NUL q by simp
  then have "c_str (bs (queue_name q)) = char_of (2 * length (queue_name q)) # queue_name q"
    unfolding pad using q(3) c_str_append [of "queue_name q" "NUL # pad"] by (simp add: c_str_def)
  moreover have "c_str doc = doc" using doc by (auto simp: ObjectToString_def split: option.splits)
  ultimately show ?thesis using doc q(3) by (simp add: QueueGetCall_def)
qed

fun enqueue_all :: "'v v8 \<Rightarrow> 'r hiredis \<Rightarrow> (string \<Rightarrow> string) \<Rightarrow> host_object \<Rightarrow> 'v list \<Rightarrow> 'r \<Rightarrow> 'r result" where
  "enqueue_all E R bs h [] r = Inr r"
| "enqueue_all E R bs h (n # ns) r =
     res_bind (QueueGetCall E R bs (StringName n) h r) (\<lambda>(_, r'). enqueue_all E R bs h ns r')"

text \<open>
  C36. Where short strings are stored inline as in libc++, a handler that enqueues documents on a queue
  with a name of 1 to 22 characters pushes each of them on the server's list of that name, so a reader
  at the tail gets them in the order they were enqueued; every other list is unchanged.
\<close>

theorem enqueue_correct:
  assumes R: "redis_lists R" and bytes: "inline_short_strings bs"
    and q: "queue_name q \<noteq> []" "length (queue_name q) \<le> 22" "NUL \<notin> set (queue_name q)"
    and docs: "list_all (\<lambda>(n, d). ObjectToString E (Some n) = Inr d) nds"
  shows "\<exists>r'. enqueue_all E R bs (queue_object q) (map fst nds) r = Inr r'
    \<and> redis_list R r' = (redis_list R r)(queue_name q := rev (map snd nds) @ redis_list R r (queue_name q))"
  using docs
proof (induction nds arbitrary: r)
  case Nil
  then show ?case by simp
next
  case (Cons nd nds)
  obtain n d where nd: "nd = (n, d)" by (cases nd)
  have eq: "QueueGetCall E R bs (StringName n) (queue_object q) r =
      Inr (NotSet, redisCommand R r ''LPUSH %s %s'' [queue_name q, d])"
    using Cons.prems by (intro QueueGetCall_eq [OF bytes q]) (simp add: nd)
  let ?r = "redisCommand R r ''LPUSH %s %s'' [queue_name q, d]"
  have "redis_list R ?r = (redis_list R r)(queue_name q := d # redis_list R r (queue_name q))"
    using R by (simp add: redis_lists_def)
  moreover obtain r' where "enqueue_all E R bs (queue_object q) (map fst nds) ?r = Inr r'"
    "redis_list R r' = (redis_list R ?r)(queue_name q := rev (map snd nds) @ redis_list R ?r (queue_name q))"
    using Cons.IH [of ?r] Cons.prems unfolding list.pred_inject by blast
  ultimately show ?case by (simp add: nd eq fun_eq_iff)
qed

theorem enqueue_correct_witness:
  "\<exists>r'. enqueue_all ref_v8 ref_redis (\<lambda>s. char_of (2 * length s) # s @ [NUL])
        (queue_object \<lparr>queue_provider = ''redis'', queue_endpoint = ''6379'', queue_alias = ''orders'',
                       queue_name = ''order_queue'', queue_map_template = None\<rparr>) [''doc1'', ''doc2''] (\<lambda>_. []) = Inr r'
    \<and> redis_list ref_redis r' ''order_queue'' = [''doc2'', ''doc1'']"
proof -
  have b: "inline_short_strings (\<lambda>s. char_of (2 * length s) # s @ [NUL])"
    by (simp add: inline_short_strings_def)
  show ?thesis
    using enqueue_correct [OF ref_redis_lists b, of "\<lparr>queue_provider = ''redis'', queue_endpoint = ''6379'',
        queue_alias = ''orders'', queue_name = ''order_queue'', queue_map_template = None\<rparr>" ref_v8
        "[(''doc1'', ''doc1''), (''doc2'', ''doc2'')]" "\<lambda>_. []"]
    by (auto simp: ObjectToString_def ref_v8_def c_eval)
qed

end
