(* ===== verification/HttpBinding.thy ===== *)
theory HttpBinding
  imports Host Reference
begin

text \<open>
  The classes \<open>HTTPBody\<close> and \<open>HTTPResponse\<close> of http_response.cc: the response object of an HTTP
  handler and the JSON text made of what the handler assigned to its body.
\<close>

section \<open>The classes\<close>

text \<open>
  \<open>hr_body\<close> is the map \<open>http_body\<close> of the \<open>HTTPBody\<close> the response owns, \<open>hr_response\<close> the map
  \<open>http_response\<close>.
\<close>

record HTTPResponse =
  hr_body :: "(string, string) std_map"
  hr_response :: "(string, string) std_map"
  hr_template :: "object_template option"

definition HTTPResponse_new :: HTTPResponse where
  "HTTPResponse_new = \<lparr>hr_body = [], hr_response = [], hr_template = None\<rparr>"

definition HTTPBodySet ::
  "'v v8 \<Rightarrow> 'v name \<Rightarrow> 'v \<Rightarrow> host_object \<Rightarrow> HTTPResponse \<Rightarrow> ('v outcome \<times> HTTPResponse) result" where
  "HTTPBodySet E name value_obj holder hr =
     (case name of
        Symbol \<Rightarrow> Inr (NotSet, hr)
      | StringName n \<Rightarrow>
          res_bind (ObjectToString E (Some n)) (\<lambda>key.
          res_bind (ToString E value_obj) (\<lambda>value.
          res_bind (UnwrapMap holder) (\<lambda>_.
            Inr (Returned value_obj, hr\<lparr>hr_body := map_assign key value (hr_body hr)\<rparr>)))))"

definition WrapHTTPBodyMap :: "host_object result" where
  "WrapHTTPBodyMap =
     SetInternalField 0 MapField (NewInstance \<lparr>internal_field_count = 1, handlers = HTTPBodyHandlers\<rparr>)"

definition HTTPResponseGet ::
  "'v v8 \<Rightarrow> 'v name \<Rightarrow> host_object \<Rightarrow> host_object outcome result" where
  "HTTPResponseGet E name holder =
     (case name of
        Symbol \<Rightarrow> Inr NotSet
      | StringName n \<Rightarrow>
          res_bind (ObjectToString E (Some n)) (\<lambda>key.
          res_bind (GetInternalField 1 holder) (\<lambda>f.
            case f of
              BodyField \<Rightarrow> res_bind WrapHTTPBodyMap (\<lambda>body_map. Inr (Returned body_map))
            | _ \<Rightarrow> Inl Library_contract)))"

definition MakeHTTPResponseMapTemplate :: object_template where
  "MakeHTTPResponseMapTemplate = \<lparr>internal_field_count = 2, handlers = HTTPResponseHandlers\<rparr>"

definition WrapHTTPResponseMap :: "HTTPResponse \<Rightarrow> (host_object \<times> HTTPResponse) result" where
  "WrapHTTPResponseMap hr =
     (let t = (case hr_template hr of None \<Rightarrow> MakeHTTPResponseMapTemplate | Some t \<Rightarrow> t);
          hr' = hr\<lparr>hr_template := Some t\<rparr>
      in res_bind (SetInternalField 0 MapField (NewInstance t)) (\<lambda>o1.
         res_bind (SetInternalField 1 BodyField o1) (\<lambda>o2.
         Inr (o2, hr'))))"

text \<open>
  The text is in a \<open>StringBuffer\<close> of the function's own frame, so the pointer that
  \<open>s.GetString()\<close> returns outlives its referent.
\<close>

definition body_events :: "(string, string) std_map \<Rightarrow> writer_event list" where
  "body_events m = StartObject # concat (map (\<lambda>(k, v). [Key (c_str k), RawValue v]) m) @ [EndObject]"

definition ConvertMapToJson :: "rapidjson \<Rightarrow> HTTPResponse \<Rightarrow> cstring_ptr \<times> HTTPResponse" where
  "ConvertMapToJson rj hr =
     (Dangling (c_str (rj_write rj (body_events (hr_body hr)))), hr\<lparr>hr_response := []\<rparr>)"

section \<open>The response object\<close>

definition HTTPResponse_wf :: "HTTPResponse \<Rightarrow> bool" where
  "HTTPResponse_wf hr \<longleftrightarrow> hr_template hr \<in> {None, Some MakeHTTPResponseMapTemplate} \<and> map_invar (hr_body hr)"

definition response_object :: host_object where
  "response_object = \<lparr>obj_handlers = HTTPResponseHandlers, obj_fields = [MapField, BodyField]\<rparr>"

definition body_object :: host_object where
  "body_object = \<lparr>obj_handlers = HTTPBodyHandlers, obj_fields = [MapField]\<rparr>"

lemma WrapHTTPBodyMap_eq [simp]: "WrapHTTPBodyMap = Inr body_object"
  by (simp add: WrapHTTPBodyMap_def host_object_simps body_object_def)

lemma WrapHTTPResponseMap_eq:
  "HTTPResponse_wf hr \<Longrightarrow>
     WrapHTTPResponseMap hr = Inr (response_object, hr\<lparr>hr_template := Some MakeHTTPResponseMapTemplate\<rparr>)"
  by (auto simp: HTTPResponse_wf_def WrapHTTPResponseMap_def Let_def host_object_simps
    MakeHTTPResponseMapTemplate_def response_object_def numeral_eq_Suc)

lemma HTTPResponseGet_body:
  "ObjectToString E (Some n) = Inr key \<Longrightarrow> HTTPResponseGet E (StringName n) response_object = Inr (Returned body_object)"
  by (simp add: HTTPResponseGet_def response_object_def host_object_simps)

lemma HTTPBodySet_eq:
  "ObjectToString E (Some n) = Inr key \<Longrightarrow> ToString E x = Inr value \<Longrightarrow>
     HTTPBodySet E (StringName n) x body_object hr = Inr (Returned x, hr\<lparr>hr_body := map_assign key value (hr_body hr)\<rparr>)"
  by (simp add: HTTPBodySet_def body_object_def host_object_simps)

lemma HTTPBodySet_wf:
  "HTTPBodySet E n x h hr = Inr (r, hr') \<Longrightarrow> HTTPResponse_wf hr \<Longrightarrow> HTTPResponse_wf hr'"
  by (auto simp: HTTPBodySet_def HTTPResponse_wf_def res_bind_eq_Inr_iff split: name.splits)

section \<open>What a handler assigns is what the response holds\<close>

text \<open>The assignments \<open>res.body.k = v\<close> of a handler, one after the other.\<close>

fun body_sets :: "'v v8 \<Rightarrow> ('v \<times> 'v) list \<Rightarrow> HTTPResponse \<Rightarrow> HTTPResponse result" where
  "body_sets E [] hr = Inr hr"
| "body_sets E ((n, x) # nxs) hr =
     res_bind (HTTPBodySet E (StringName n) x body_object hr) (\<lambda>(_, hr'). body_sets E nxs hr')"

lemma body_sets_eq:
  "list_all2 (\<lambda>(n, x) (k, v). ObjectToString E (Some n) = Inr k \<and> ToString E x = Inr v) nxs kvs \<Longrightarrow>
     body_sets E nxs hr = Inr (hr\<lparr>hr_body := std_map.assign_all kvs (hr_body hr)\<rparr>)"
proof (induction nxs arbitrary: kvs hr)
  case Nil
  then show ?case by simp
next
  case (Cons nx nxs)
  obtain n x where nx: "nx = (n, x)" by (cases nx)
  from Cons.prems obtain k v kvs' where kvs: "kvs = (k, v) # kvs'"
    and kv: "ObjectToString E (Some n) = Inr k" "ToString E x = Inr v"
    and rest: "list_all2 (\<lambda>(n, x) (k, v). ObjectToString E (Some n) = Inr k \<and> ToString E x = Inr v) nxs kvs'"
    by (auto simp: nx list_all2_Cons1)
  show ?case using Cons.IH [OF rest] by (simp add: nx kvs HTTPBodySet_eq [OF kv])
qed

text \<open>
  After a handler's assignments to a cleared body, ConvertMapToJson writes one object: its members
  are in increasing order of their names, each name once, with the JSON text of the last value
  assigned to it. The pointer it returns refers to a buffer that is gone.
\<close>

theorem ConvertMapToJson_correct:
  assumes sets: "list_all2 (\<lambda>(n, x) (k, v). ObjectToString E (Some n) = Inr k \<and> ToString E x = Inr v) nxs kvs"
    and cleared: "hr_body hr = []"
  shows "\<exists>hr' m. body_sets E nxs hr = Inr hr'
    \<and> fst (ConvertMapToJson rj hr') = Dangling (c_str (rj_write rj (body_events m)))
    \<and> sorted_wrt (<) (map fst m) \<and> map_of m = map_of (rev kvs)
    \<and> hr_body (snd (ConvertMapToJson rj hr')) = m"
proof -
  let ?m = "std_map.assign_all kvs []"
  have inv: "map_invar ?m" by (rule std_map.invar_assign_all) simp
  have "map_of ?m = map_of (rev kvs)" using std_map.lookup_assign_all [of "[]" kvs] by simp
  moreover have "sorted_wrt (<) (map fst ?m)" using std_map.entries_sorted [OF inv] .
  ultimately show ?thesis using body_sets_eq [OF sets, of hr] cleared by (simp add: ConvertMapToJson_def)
qed

theorem ConvertMapToJson_correct_witness:
  "\<exists>hr' m. body_sets ref_v8 [(''b'', ''1''), (''a'', ''2''), (''b'', ''3'')] HTTPResponse_new = Inr hr'
    \<and> fst (ConvertMapToJson ref_json hr') = Dangling (c_str (rj_write ref_json (body_events m)))
    \<and> sorted_wrt (<) (map fst m) \<and> map_of m = map_of (rev [(''b'', ''1''), (''a'', ''2''), (''b'', ''3'')])
    \<and> hr_body (snd (ConvertMapToJson ref_json hr')) = m"
  by (rule ConvertMapToJson_correct)
    (simp_all add: ObjectToString_def ToString_def ref_v8_def c_eval HTTPResponse_new_def)

end
