(* ===== verification/Deployment.thy ===== *)
theory Deployment
  imports Extern Reference
begin

text \<open>
  \<open>ParseDeployment\<close> of parse_deployment.cc: the configuration of an application read from its file
  under ./apps. The lemmas show what a well-formed file yields and where a malformed one stops the
  process.
\<close>

section \<open>The configuration\<close>

record deployment_config =
  metadata_bucket :: string
  source_bucket :: string
  source_endpoint :: string
  component_configs :: "(string, (string, string list) std_map) std_map"

definition bucket_entry :: "json \<Rightarrow> (string \<times> string list) result" where
  "bucket_entry j =
     res_bind (json_member j ''bucket_name'') (\<lambda>bucket_name.
     res_bind (json_member j ''alias'') (\<lambda>al.
     res_bind (json_string bucket_name) (\<lambda>n.
     res_bind (json_string al) (\<lambda>a.
       Inr (a, [n, a])))))"

definition queue_entry :: "json \<Rightarrow> (string \<times> string list) result" where
  "queue_entry j =
     res_bind (json_member j ''provider'') (\<lambda>provider.
     res_bind (json_member j ''queue_name'') (\<lambda>queue_name.
     res_bind (json_member j ''endpoint'') (\<lambda>endpoint.
     res_bind (json_member j ''alias'') (\<lambda>al.
     res_bind (json_string provider) (\<lambda>p.
     res_bind (json_string endpoint) (\<lambda>e.
     res_bind (json_string al) (\<lambda>a.
     res_bind (json_string queue_name) (\<lambda>q.
       Inr (p, [p, e, a, q])))))))))"

text \<open>The two loops: one entry per element, assigned under its key.\<close>

fun entries_loop ::
  "(json \<Rightarrow> (string \<times> string list) result) \<Rightarrow> json list \<Rightarrow> (string, string list) std_map
     \<Rightarrow> (string, string list) std_map result" where
  "entries_loop entry [] info = Inr info"
| "entries_loop entry (j # js) info =
     res_bind (entry j) (\<lambda>(k, v). entries_loop entry js (map_assign k v info))"

definition depcfg_member :: "json \<Rightarrow> string \<Rightarrow> json result" where
  "depcfg_member doc k = res_bind (json_member doc ''depcfg'') (\<lambda>d. json_member d k)"

definition ParseDeployment :: "rapidjson \<Rightarrow> (string \<rightharpoonup> string) \<Rightarrow> string \<Rightarrow> deployment_config result" where
  "ParseDeployment rj files app_name =
     (let file_name = ''./apps/'' @ c_str app_name;
          content = (case files file_name of Some c \<Rightarrow> c | None \<Rightarrow> [])
      in case rj_parse rj (c_str content) of
           None \<Rightarrow> Inl (Exit 1)
         | Some doc \<Rightarrow>
             res_bind (guard (is_object doc) Assertion_failed) (\<lambda>_.
             res_bind (depcfg_member doc ''buckets'') (\<lambda>buckets.
             res_bind (depcfg_member doc ''queue'') (\<lambda>queues.
             res_bind (depcfg_member doc ''workspace'') (\<lambda>workspace.
             res_bind (depcfg_member doc ''source'') (\<lambda>source.
             res_bind (guard (is_array buckets) Assertion_failed) (\<lambda>_.
             res_bind (guard (is_array queues) Assertion_failed) (\<lambda>_.
             res_bind (guard (is_object workspace) Assertion_failed) (\<lambda>_.
             res_bind (guard (is_object source) Assertion_failed) (\<lambda>_.
             res_bind (entries_loop bucket_entry (json_elements buckets) []) (\<lambda>buckets_info.
             res_bind (entries_loop queue_entry (json_elements queues) []) (\<lambda>queues_info.
             res_bind (json_member workspace ''metadata_bucket'') (\<lambda>mb.
             res_bind (json_string mb) (\<lambda>meta.
             res_bind (json_member source ''source_bucket'') (\<lambda>sb.
             res_bind (json_string sb) (\<lambda>src.
               Inr \<lparr>metadata_bucket = meta, source_bucket = src, source_endpoint = ''localhost'',
                    component_configs = map_assign ''queue'' queues_info (map_assign ''buckets'' buckets_info [])\<rparr>))))))))))))))))"

section \<open>What a well-formed file yields\<close>

lemma entries_loop_eq:
  "list_all2 (\<lambda>j kv. entry j = Inr kv) js kvs \<Longrightarrow> entries_loop entry js m = Inr (std_map.assign_all kvs m)"
  by (induction js arbitrary: m kvs) (auto simp: list_all2_Cons1)

text \<open>A configuration as a document: buckets as (name, alias), queues as (provider, name, endpoint, alias).\<close>

definition bucket_json :: "string \<times> string \<Rightarrow> json" where
  "bucket_json b = JObj [(''alias'', JStr (snd b)), (''bucket_name'', JStr (fst b))]"

fun queue_json :: "string \<times> string \<times> string \<times> string \<Rightarrow> json" where
  "queue_json (p, q, e, a) =
     JObj [(''alias'', JStr a), (''endpoint'', JStr e), (''provider'', JStr p), (''queue_name'', JStr q)]"

fun queue_info :: "string \<times> string \<times> string \<times> string \<Rightarrow> string \<times> string list" where
  "queue_info (p, q, e, a) = (c_str p, [c_str p, c_str e, c_str a, c_str q])"

definition deployment_json ::
  "(string \<times> string) list \<Rightarrow> (string \<times> string \<times> string \<times> string) list \<Rightarrow> string \<Rightarrow> string \<Rightarrow> json" where
  "deployment_json bs qs meta src =
     JObj [(''depcfg'', JObj [(''buckets'', JArr (map bucket_json bs)), (''queue'', JArr (map queue_json qs)),
             (''source'', JObj [(''source_bucket'', JStr src)]),
             (''workspace'', JObj [(''metadata_bucket'', JStr meta)])])]"

lemmas deployment_eval = depcfg_member_def json_member_def json_string_def is_object_def is_array_def
  json_elements_def bucket_entry_def queue_entry_def

lemma bucket_entry_json: "bucket_entry (bucket_json b) = Inr (c_str (snd b), [c_str (fst b), c_str (snd b)])"
  by (simp add: deployment_eval bucket_json_def)

lemma queue_entry_json: "queue_entry (queue_json q) = Inr (queue_info q)"
  by (cases q rule: queue_info.cases) (simp add: deployment_eval)

lemma buckets_loop_json:
  "entries_loop bucket_entry (map bucket_json bs) m =
     Inr (std_map.assign_all (map (\<lambda>b. (c_str (snd b), [c_str (fst b), c_str (snd b)])) bs) m)"
  by (rule entries_loop_eq) (simp add: list_all2_conv_all_nth bucket_entry_json)

lemma queues_loop_json:
  "entries_loop queue_entry (map queue_json qs) m = Inr (std_map.assign_all (map queue_info qs) m)"
  by (rule entries_loop_eq) (simp add: list_all2_conv_all_nth queue_entry_json)

lemma ParseDeployment_json:
  assumes "rj_parse rj (c_str (case files (''./apps/'' @ c_str app) of Some c \<Rightarrow> c | None \<Rightarrow> []))
      = Some (deployment_json bs qs meta src)"
  shows "ParseDeployment rj files app = Inr
    \<lparr>metadata_bucket = c_str meta, source_bucket = c_str src, source_endpoint = ''localhost'',
     component_configs =
       [(''buckets'', std_map.assign_all (map (\<lambda>b. (c_str (snd b), [c_str (fst b), c_str (snd b)])) bs) []),
        (''queue'', std_map.assign_all (map queue_info qs) [])]\<rparr>"
  using assms
  by (simp add: ParseDeployment_def deployment_json_def deployment_eval buckets_loop_json queues_loop_json)

text \<open>
  C30. A file whose text parses to a document with the buckets, queues, metadata bucket and source
  bucket given yields the configuration with exactly these: the endpoint is localhost, each bucket is
  found under its alias with its name first, each queue under its provider, and a later bucket with the
  same alias or queue with the same provider replaces the earlier one.
\<close>

theorem ParseDeployment_correct:
  assumes src_file: "files (''./apps/'' @ app) = Some content" "NUL \<notin> set app" "NUL \<notin> set content"
    and json: "rj_parse rj content = Some (deployment_json bs qs meta src)"
  shows "\<exists>cfg bm qm. ParseDeployment rj files app = Inr cfg
    \<and> metadata_bucket cfg = c_str meta \<and> source_bucket cfg = c_str src \<and> source_endpoint cfg = ''localhost''
    \<and> component_configs cfg = [(''buckets'', bm), (''queue'', qm)]
    \<and> map_invar bm \<and> map_of bm = map_of (rev (map (\<lambda>b. (c_str (snd b), [c_str (fst b), c_str (snd b)])) bs))
    \<and> map_invar qm \<and> map_of qm = map_of (rev (map queue_info qs))"
proof -
  have "rj_parse rj (c_str (case files (''./apps/'' @ c_str app) of Some c \<Rightarrow> c | None \<Rightarrow> []))
      = Some (deployment_json bs qs meta src)"
    using src_file json by simp
  note cfg = ParseDeployment_json [of rj files app bs qs meta src, OF this]
  have inv: "map_invar (std_map.assign_all kvs [])" for kvs :: "(string \<times> string list) list"
    by (rule std_map.invar_assign_all) simp
  have look: "map_of (std_map.assign_all kvs []) = map_of (rev kvs)" for kvs :: "(string \<times> string list) list"
    using std_map.lookup_assign_all [of "[]" kvs] by simp
  show ?thesis unfolding cfg using inv look by fastforce
qed

theorem ParseDeployment_correct_witness:
  "\<exists>cfg bm qm. ParseDeployment (ref_json\<lparr>rj_parse := (\<lambda>t. if t = ''cfg'' then Some (deployment_json
         [(''default'', ''credit''), (''beer'', ''credit'')] [] ''eventing'' ''default'') else None)\<rparr>)
        [''./apps/app1'' \<mapsto> ''cfg''] ''app1'' = Inr cfg
    \<and> metadata_bucket cfg = ''eventing'' \<and> component_configs cfg = [(''buckets'', bm), (''queue'', qm)]
    \<and> map_of bm ''credit'' = Some [''beer'', ''credit'']"
proof -
  let ?rj = "ref_json\<lparr>rj_parse := (\<lambda>t. if t = ''cfg'' then Some (deployment_json
         [(''default'', ''credit''), (''beer'', ''credit'')] [] ''eventing'' ''default'') else None)\<rparr>"
  have "\<exists>cfg bm qm. ParseDeployment ?rj [''./apps/app1'' \<mapsto> ''cfg''] ''app1'' = Inr cfg
    \<and> metadata_bucket cfg = c_str ''eventing'' \<and> source_bucket cfg = c_str ''default'' \<and> source_endpoint cfg = ''localhost''
    \<and> component_configs cfg = [(''buckets'', bm), (''queue'', qm)]
    \<and> map_invar bm \<and> map_of bm = map_of (rev (map (\<lambda>b. (c_str (snd b), [c_str (fst b), c_str (snd b)]))
        [(''default'', ''credit''), (''beer'', ''credit'')]))
    \<and> map_invar qm \<and> map_of qm = map_of (rev (map queue_info []))"
    by (rule ParseDeployment_correct [where content = "''cfg''"]) (simp_all add: NUL_def)
  then obtain cfg bm qm where r: "ParseDeployment ?rj [''./apps/app1'' \<mapsto> ''cfg''] ''app1'' = Inr cfg"
    "metadata_bucket cfg = c_str ''eventing''" "component_configs cfg = [(''buckets'', bm), (''queue'', qm)]"
    "map_of bm = map_of (rev (map (\<lambda>b. (c_str (snd b), [c_str (fst b), c_str (snd b)]))
        [(''default'', ''credit''), (''beer'', ''credit'')]))"
    by blast
  moreover have "map_of bm ''credit'' = Some [''beer'', ''credit'']" unfolding r(4) by (simp add: c_eval)
  moreover have "metadata_bucket cfg = ''eventing''" unfolding r(2) by (simp add: c_eval)
  ultimately show ?thesis by blast
qed

lemma entries_loop_Inr: "entries_loop entry js m = Inr m' \<Longrightarrow> list_all (\<lambda>j. \<exists>kv. entry j = Inr kv) js"
  by (induction js arbitrary: m) (auto simp: res_bind_eq_Inr_iff)

text \<open>
  A file that is missing or not JSON makes the process exit with status 1, a document that is not
  an object fails an assertion, and ParseDeployment returns a configuration only where every section
  of depcfg is present with its kind and every bucket and every queue has all its string members.
\<close>

theorem ParseDeployment_errors:
  fixes files app rj
  defines "content \<equiv> c_str (case files (''./apps/'' @ c_str app) of Some c \<Rightarrow> c | None \<Rightarrow> [])"
  shows "(rj_parse rj content = None \<longrightarrow> ParseDeployment rj files app = Inl (Exit 1))
    \<and> (\<forall>doc. rj_parse rj content = Some doc \<longrightarrow> \<not> is_object doc \<longrightarrow> ParseDeployment rj files app = Inl Assertion_failed)
    \<and> (\<forall>cfg. ParseDeployment rj files app = Inr cfg \<longrightarrow>
        (\<exists>doc buckets queues workspace source. rj_parse rj content = Some doc
          \<and> depcfg_member doc ''buckets'' = Inr buckets \<and> is_array buckets
          \<and> depcfg_member doc ''queue'' = Inr queues \<and> is_array queues
          \<and> depcfg_member doc ''workspace'' = Inr workspace \<and> is_object workspace
          \<and> depcfg_member doc ''source'' = Inr source \<and> is_object source
          \<and> list_all (\<lambda>j. \<exists>kv. bucket_entry j = Inr kv) (json_elements buckets)
          \<and> list_all (\<lambda>j. \<exists>kv. queue_entry j = Inr kv) (json_elements queues)))"
proof (intro conjI allI impI)
  assume "rj_parse rj content = None"
  then show "ParseDeployment rj files app = Inl (Exit 1)" by (simp add: ParseDeployment_def content_def)
next
  fix doc assume "rj_parse rj content = Some doc" "\<not> is_object doc"
  then show "ParseDeployment rj files app = Inl Assertion_failed" by (simp add: ParseDeployment_def content_def)
next
  fix cfg assume "ParseDeployment rj files app = Inr cfg"
  then show "\<exists>doc buckets queues workspace source. rj_parse rj content = Some doc
      \<and> depcfg_member doc ''buckets'' = Inr buckets \<and> is_array buckets
      \<and> depcfg_member doc ''queue'' = Inr queues \<and> is_array queues
      \<and> depcfg_member doc ''workspace'' = Inr workspace \<and> is_object workspace
      \<and> depcfg_member doc ''source'' = Inr source \<and> is_object source
      \<and> list_all (\<lambda>j. \<exists>kv. bucket_entry j = Inr kv) (json_elements buckets)
      \<and> list_all (\<lambda>j. \<exists>kv. queue_entry j = Inr kv) (json_elements queues)"
    unfolding ParseDeployment_def Let_def content_def [symmetric]
    by (auto simp: res_bind_eq_Inr_iff split: option.split_asm dest!: entries_loop_Inr)
qed

theorem ParseDeployment_errors_witness:
  "ParseDeployment ref_json Map.empty ''nosuchapp'' = Inl (Exit 1)"
  using ParseDeployment_errors [of ref_json Map.empty "''nosuchapp''"]
  by (simp add: ref_json_def parse_object_def)

end
