(* ===== verification/Preprocess.thy ===== *)
theory Preprocess
  imports Text
begin

text \<open>
  The source preprocessing in \<open>Worker::WorkerLoad\<close>: \<open>enqueue(q, k)\<close> becomes a property read
  \<open>q[k]\<close> and \<open>n1ql("...")\<close> a tagged template, line by line, with \<open>std::regex_search\<close> in a loop.
  The lemmas show that both loops end, that they keep the line structure and every character outside
  the calls, and what a call on a line becomes.
\<close>

section \<open>The regular expressions\<close>

text \<open>
  The patterns are sequences of literals and \<open>(.*)\<close>. As in ECMAScript, a dot does not match a line
  terminator, and a star takes as many characters as it can, then gives them back one by one until
  the rest of the pattern matches. A match lists the text of each item.
\<close>

datatype rx_item = Lit string | AnyStar

definition line_terminator :: "char \<Rightarrow> bool" where
  "line_terminator c \<longleftrightarrow> c = CHR 0x0A \<or> c = CHR 0x0D"

definition line_part :: "string \<Rightarrow> string" where
  "line_part s = takeWhile (\<lambda>c. \<not> line_terminator c) s"

fun try_lengths :: "(nat \<Rightarrow> 'a option) \<Rightarrow> nat \<Rightarrow> 'a option" where
  "try_lengths f 0 = f 0"
| "try_lengths f (Suc k) = (case f (Suc k) of Some x \<Rightarrow> Some x | None \<Rightarrow> try_lengths f k)"

fun rx_match :: "rx_item list \<Rightarrow> string \<Rightarrow> (string list \<times> string) option" where
  "rx_match [] s = Some ([], s)"
| "rx_match (Lit l # is) s =
     (if is_prefix l s then map_option (\<lambda>(ms, r). (l # ms, r)) (rx_match is (drop (length l) s)) else None)"
| "rx_match (AnyStar # is) s =
     try_lengths (\<lambda>k. map_option (\<lambda>(ms, r). (take k s # ms, r)) (rx_match is (drop k s))) (length (line_part s))"

text \<open>\<open>std::regex_search\<close>: the leftmost match, as prefix, items and suffix.\<close>

fun rx_search :: "rx_item list \<Rightarrow> string \<Rightarrow> (string \<times> string list \<times> string) option" where
  "rx_search is [] = map_option (\<lambda>(ms, r). ([], ms, r)) (rx_match is [])"
| "rx_search is (c # cs) =
     (case rx_match is (c # cs) of
        Some (ms, r) \<Rightarrow> Some ([], ms, r)
      | None \<Rightarrow> map_option (\<lambda>(p, ms, r). (c # p, ms, r)) (rx_search is cs))"

text \<open>\<open>std::regex_replace\<close> with a literal pattern.\<close>

function replace_all :: "string \<Rightarrow> string \<Rightarrow> string \<Rightarrow> string" where
  "replace_all l rep s =
     (case s of
        [] \<Rightarrow> []
      | c # cs \<Rightarrow>
          if l \<noteq> [] \<and> is_prefix l s then rep @ replace_all l rep (drop (length l) s)
          else c # replace_all l rep cs)"
  by pat_completeness auto
termination
  by (relation "measure (\<lambda>(l, rep, s). length s)") (auto simp: neq_Nil_conv)

declare replace_all.simps [simp del]

section \<open>The loops of WorkerLoad\<close>

definition enqueue_rx :: "rx_item list" where
  "enqueue_rx = [Lit ''enqueue('', AnyStar, Lit '', '', AnyStar, Lit '')'']"

definition n1ql_open :: string where
  "n1ql_open = ''n1ql('' @ [CHR 0x22]"

definition n1ql_close :: string where
  "n1ql_close = CHR 0x22 # '')''"

definition n1ql_rx :: "rx_item list" where
  "n1ql_rx = [Lit n1ql_open, AnyStar, Lit n1ql_close]"

lemma try_lengths_Some:
  "try_lengths f n = Some x \<longleftrightarrow> (\<exists>k \<le> n. f k = Some x \<and> (\<forall>j. k < j \<longrightarrow> j \<le> n \<longrightarrow> f j = None))"
proof (induction n)
  case 0
  then show ?case by auto
next
  case (Suc n)
  show ?case
  proof (cases "f (Suc n)")
    case None
    then show ?thesis using Suc by (auto simp: le_Suc_eq)
  next
    case (Some y)
    then show ?thesis by (auto simp: le_Suc_eq dest: spec [of _ "Suc n"])
  qed
qed

text \<open>What an item may match.\<close>

fun rx_ok :: "rx_item \<Rightarrow> string \<Rightarrow> bool" where
  "rx_ok (Lit l) m = (m = l)"
| "rx_ok AnyStar m = (\<forall>c \<in> set m. \<not> line_terminator c)"

lemma take_line_part: "k \<le> length (line_part s) \<Longrightarrow> c \<in> set (take k s) \<Longrightarrow> \<not> line_terminator c"
proof -
  assume k: "k \<le> length (line_part s)" and c: "c \<in> set (take k s)"
  have "s = line_part s @ dropWhile (\<lambda>c. \<not> line_terminator c) s" by (simp add: line_part_def)
  then have "take k s = take k (line_part s)" using k by (metis append_Nil2 diff_is_0_eq take0 take_append)
  then have "c \<in> set (line_part s)" using c by (metis in_set_takeD)
  then show ?thesis by (auto simp: line_part_def dest: set_takeWhileD)
qed

lemma rx_match_sound:
  "rx_match is s = Some (ms, r) \<Longrightarrow> s = concat ms @ r \<and> list_all2 rx_ok is ms"
proof (induction "is" arbitrary: s ms r)
  case Nil
  then show ?case by simp
next
  case (Cons i "is")
  show ?case
  proof (cases i)
    case (Lit l)
    then obtain ms' where "rx_match is (drop (length l) s) = Some (ms', r)" "ms = l # ms'" "is_prefix l s"
      using Cons.prems by (auto split: if_splits)
    then show ?thesis using Cons.IH [of "drop (length l) s" ms' r] Lit by (auto simp: is_prefix_iff)
  next
    case AnyStar
    then obtain k ms' where k: "k \<le> length (line_part s)"
      and m: "rx_match is (drop k s) = Some (ms', r)" "ms = take k s # ms'"
      using Cons.prems by (auto simp: try_lengths_Some)
    have "s = take k s @ drop k s" by simp
    also have "\<dots> = concat ms @ r" using Cons.IH [OF m(1)] m(2) by simp
    finally have "s = concat ms @ r" .
    moreover have "rx_ok AnyStar (take k s)" using take_line_part [OF k] by auto
    ultimately show ?thesis using Cons.IH [OF m(1)] m(2) AnyStar by simp
  qed
qed

lemma rx_search_sound:
  "rx_search is s = Some (p, ms, r) \<Longrightarrow> s = p @ concat ms @ r \<and> list_all2 rx_ok is ms"
proof (induction s arbitrary: p ms r)
  case Nil
  then show ?case using rx_match_sound [of "is" "[]"] by auto
next
  case (Cons c s)
  then show ?case
    using rx_match_sound [of "is" "c # s"] by (fastforce split: option.splits)
qed

lemma enqueue_search_shape:
  assumes "rx_search enqueue_rx s = Some (p, m, r)"
  obtains q k where "m = [''enqueue('', q, '', '', k, '')'']"
    "s = p @ ''enqueue('' @ q @ '', '' @ k @ '')'' @ r" "rx_ok AnyStar q" "rx_ok AnyStar k"
  using rx_search_sound [OF assms] that by (auto simp: enqueue_rx_def list_all2_Cons1)

function enqueue_loop :: "string \<Rightarrow> string \<Rightarrow> string" where
  "enqueue_loop content temp =
     (case rx_search enqueue_rx content of
        None \<Rightarrow> temp @ content
      | Some (prefix, m, suffix) \<Rightarrow> enqueue_loop suffix (temp @ prefix @ m ! 1 @ ''['' @ m ! 3 @ '']''))"
  by pat_completeness auto
termination
  by (relation "measure (\<lambda>(c, t). length c)") (auto elim!: enqueue_search_shape)

declare enqueue_loop.simps [simp del]

lemma n1ql_search_shape:
  assumes "rx_search n1ql_rx s = Some (p, m, r)"
  obtains q where "m = [n1ql_open, q, n1ql_close]" "s = p @ n1ql_open @ q @ n1ql_close @ r" "rx_ok AnyStar q"
  using rx_search_sound [OF assms] that by (auto simp: n1ql_rx_def list_all2_Cons1)

function n1ql_loop :: "string \<Rightarrow> string \<Rightarrow> string" where
  "n1ql_loop temp script_to_execute =
     (case rx_search n1ql_rx temp of
        None \<Rightarrow> script_to_execute @ temp
      | Some (prefix, m, suffix) \<Rightarrow>
          n1ql_loop suffix (script_to_execute @ prefix
            @ replace_all n1ql_open ''n1ql`'' (m ! 0) @ m ! 1 @ replace_all n1ql_close ''`'' (m ! 2)))"
  by pat_completeness auto
termination
  by (relation "measure (\<lambda>(c, t). length c)") (auto elim!: n1ql_search_shape simp: n1ql_open_def)

declare n1ql_loop.simps [simp del]

text \<open>The script that \<open>WorkerLoad\<close> executes.\<close>

definition script_of :: "(string \<rightharpoonup> string) \<Rightarrow> string \<Rightarrow> string" where
  "script_of files source_s = n1ql_loop (enqueue_loop (c_str source_s) []) [] @ LoadBuiltins files"

section \<open>Loops with an accumulator\<close>

definition rewrite_enqueue :: "string \<Rightarrow> string" where
  "rewrite_enqueue s = enqueue_loop s []"

definition rewrite_n1ql :: "string \<Rightarrow> string" where
  "rewrite_n1ql s = n1ql_loop s []"

lemma replace_all_self: "l \<noteq> [] \<Longrightarrow> replace_all l rep l = rep"
proof -
  assume "l \<noteq> []"
  then obtain c cs where l: "l = c # cs" by (cases l) auto
  have "is_prefix l l" using is_prefix_append [of l "[]"] by simp
  then show ?thesis
    by (subst replace_all.simps) (simp add: l replace_all.simps [of "c # cs" rep "[]"])
qed

lemma n1ql_replacements [simp]:
  "replace_all n1ql_open ''n1ql`'' n1ql_open = ''n1ql`''"
  "replace_all n1ql_close ''`'' n1ql_close = ''`''"
  by (simp_all add: replace_all_self n1ql_open_def n1ql_close_def)

lemma enqueue_loop_acc: "enqueue_loop s t = t @ rewrite_enqueue s"
proof -
  have "enqueue_loop s (t @ u) = t @ enqueue_loop s u" for u
  proof (induction s u rule: enqueue_loop.induct)
    case (1 s u)
    show ?case
    proof (cases "rx_search enqueue_rx s")
      case None
      then show ?thesis by (simp add: enqueue_loop.simps [of s])
    next
      case (Some x)
      obtain p m r where x: "x = (p, m, r)" by (cases x)
      show ?thesis using 1 [OF Some x [symmetric] refl] by (simp add: enqueue_loop.simps [of s] Some x)
    qed
  qed
  from this [of "[]"] show ?thesis by (simp add: rewrite_enqueue_def)
qed

lemma n1ql_loop_acc: "n1ql_loop s t = t @ rewrite_n1ql s"
proof -
  have "n1ql_loop s (t @ u) = t @ n1ql_loop s u" for u
  proof (induction s u rule: n1ql_loop.induct)
    case (1 s u)
    show ?case
    proof (cases "rx_search n1ql_rx s")
      case None
      then show ?thesis by (simp add: n1ql_loop.simps [of s])
    next
      case (Some x)
      obtain p m r where x: "x = (p, m, r)" by (cases x)
      show ?thesis using 1 [OF Some x [symmetric] refl] by (simp add: n1ql_loop.simps [of s] Some x)
    qed
  qed
  from this [of "[]"] show ?thesis by (simp add: rewrite_n1ql_def)
qed

text \<open>One round of each loop.\<close>

lemma rewrite_enqueue_step:
  "rewrite_enqueue s =
     (case rx_search enqueue_rx s of
        None \<Rightarrow> s
      | Some (p, m, r) \<Rightarrow> p @ m ! 1 @ ''['' @ m ! 3 @ '']'' @ rewrite_enqueue r)"
  by (simp add: rewrite_enqueue_def enqueue_loop.simps [of s] enqueue_loop_acc [of _ "_ @ _"]
    split: option.splits prod.splits)

lemma rewrite_n1ql_step:
  "rewrite_n1ql s =
     (case rx_search n1ql_rx s of
        None \<Rightarrow> s
      | Some (p, m, r) \<Rightarrow> p @ ''n1ql`'' @ m ! 1 @ ''`'' @ rewrite_n1ql r)"
proof (cases "rx_search n1ql_rx s")
  case None
  then show ?thesis by (simp add: rewrite_n1ql_def n1ql_loop.simps [of s])
next
  case (Some x)
  obtain p m r where x: "x = (p, m, r)" by (cases x)
  from Some x obtain q where "m = [n1ql_open, q, n1ql_close]" by (auto elim: n1ql_search_shape)
  then show ?thesis
    unfolding rewrite_n1ql_def by (simp add: n1ql_loop.simps [of s] Some x n1ql_loop_acc [of r])
qed

lemma script_of_eq: "script_of files src = rewrite_n1ql (rewrite_enqueue (c_str src)) @ LoadBuiltins files"
  by (simp add: script_of_def rewrite_n1ql_def rewrite_enqueue_def)

section \<open>The line structure is kept\<close>

abbreviation terminators :: "string \<Rightarrow> string" where
  "terminators s \<equiv> filter line_terminator s"

lemma terminators_ok [simp]: "rx_ok AnyStar q \<Longrightarrow> terminators q = []"
  by (simp add: filter_empty_conv)

lemma terminators_literals [simp]:
  "terminators ''enqueue('' = []" "terminators '', '' = []" "terminators '')'' = []" "terminators ''['' = []"
  "terminators '']'' = []" "terminators n1ql_open = []" "terminators n1ql_close = []"
  "terminators ''n1ql`'' = []" "terminators ''`'' = []"
  by (simp_all add: line_terminator_def n1ql_open_def n1ql_close_def)

lemma terminators_rewrite_enqueue: "terminators (rewrite_enqueue s) = terminators s"
proof (induction s rule: length_induct)
  case (1 s)
  show ?case
  proof (cases "rx_search enqueue_rx s")
    case None
    then show ?thesis by (simp add: rewrite_enqueue_step [of s])
  next
    case (Some x)
    obtain p m r where x: "x = (p, m, r)" by (cases x)
    from Some x obtain q k where m: "m = [''enqueue('', q, '', '', k, '')'']"
      and s: "s = p @ ''enqueue('' @ q @ '', '' @ k @ '')'' @ r" and ok: "rx_ok AnyStar q" "rx_ok AnyStar k"
      by (auto elim: enqueue_search_shape)
    have "length r < length s" by (simp add: s)
    then have "terminators (rewrite_enqueue r) = terminators r" using 1 by blast
    moreover have "rewrite_enqueue s = p @ q @ ''['' @ k @ '']'' @ rewrite_enqueue r"
      by (simp add: rewrite_enqueue_step [of s] Some x m)
    moreover have "terminators s = terminators p @ terminators r"
      using ok unfolding s by (simp only: filter_append terminators_ok terminators_literals append_Nil)
    ultimately show ?thesis
      using ok by (simp only: filter_append terminators_ok terminators_literals append_Nil)
  qed
qed

lemma terminators_rewrite_n1ql: "terminators (rewrite_n1ql s) = terminators s"
proof (induction s rule: length_induct)
  case (1 s)
  show ?case
  proof (cases "rx_search n1ql_rx s")
    case None
    then show ?thesis by (simp add: rewrite_n1ql_step [of s])
  next
    case (Some x)
    obtain p m r where x: "x = (p, m, r)" by (cases x)
    from Some x obtain q where m: "m = [n1ql_open, q, n1ql_close]"
      and s: "s = p @ n1ql_open @ q @ n1ql_close @ r" and ok: "rx_ok AnyStar q"
      by (auto elim: n1ql_search_shape)
    have "length r < length s" by (simp add: s n1ql_open_def)
    then have "terminators (rewrite_n1ql r) = terminators r" using 1 by blast
    moreover have "rewrite_n1ql s = p @ ''n1ql`'' @ q @ ''`'' @ rewrite_n1ql r"
      by (simp add: rewrite_n1ql_step [of s] Some x m)
    moreover have "terminators s = terminators p @ terminators r"
      using ok unfolding s by (simp only: filter_append terminators_ok terminators_literals append_Nil)
    ultimately show ?thesis
      using ok by (simp only: filter_append terminators_ok terminators_literals append_Nil)
  qed
qed

lemma rx_search_literal_first:
  "\<not> strstr s l \<Longrightarrow> l \<noteq> [] \<Longrightarrow> rx_search (Lit l # is) s = None"
proof (induction s)
  case Nil
  then show ?case by (cases l) auto
next
  case (Cons c s)
  have "\<not> is_prefix l (c # s)" "\<not> strstr s l"
    using Cons.prems by (auto simp: strstr_def split: if_splits)
  then show ?case using Cons by auto
qed

lemma rewrite_enqueue_absent: "\<not> strstr s ''enqueue('' \<Longrightarrow> rewrite_enqueue s = s"
  by (subst rewrite_enqueue_step) (simp add: enqueue_rx_def rx_search_literal_first)

lemma rewrite_n1ql_absent: "\<not> strstr s n1ql_open \<Longrightarrow> rewrite_n1ql s = s"
  by (subst rewrite_n1ql_step) (simp add: n1ql_rx_def n1ql_open_def rx_search_literal_first)

text \<open>
  Preprocessing keeps the line structure of a handler's source: the sequence of line terminators
  is the same before and after both rewriting loops, so a line number of an error in the script is the
  line of the handler; a source with neither call is passed on unchanged, with the built-ins behind it.
\<close>

theorem script_of_keeps_lines:
  "(\<exists>body. script_of files src = body @ LoadBuiltins files
      \<and> filter line_terminator body = filter line_terminator (c_str src))
   \<and> (\<not> strstr (c_str src) ''enqueue('' \<longrightarrow> \<not> strstr (c_str src) n1ql_open \<longrightarrow>
        script_of files src = c_str src @ LoadBuiltins files)"
  by (simp add: script_of_eq terminators_rewrite_enqueue terminators_rewrite_n1ql
    rewrite_enqueue_absent rewrite_n1ql_absent)

theorem script_of_keeps_lines_witness:
  "script_of Map.empty ''function OnUpdate(doc, meta) {}'' = ''function OnUpdate(doc, meta) {}''"
proof -
  have "\<not> strstr (c_str ''function OnUpdate(doc, meta) {}'') ''enqueue(''"
    "\<not> strstr (c_str ''function OnUpdate(doc, meta) {}'') n1ql_open"
    by (simp_all add: strstr_def n1ql_open_def c_eval)
  then show ?thesis
    using script_of_keeps_lines [of Map.empty "''function OnUpdate(doc, meta) {}''"]
    by (simp add: LoadBuiltins_def c_eval)
qed

section \<open>What a call becomes\<close>

lemma line_part_split: "\<exists>t. s = line_part s @ t \<and> (t = [] \<or> line_terminator (hd t))"
proof -
  let ?t = "dropWhile (\<lambda>c. \<not> line_terminator c) s"
  have "s = line_part s @ ?t" by (simp add: line_part_def)
  moreover have "?t = [] \<or> line_terminator (hd ?t)" using hd_dropWhile [of "\<lambda>c. \<not> line_terminator c" s] by blast
  ultimately show ?thesis by blast
qed

lemma line_part_append: "rx_ok AnyStar a \<Longrightarrow> line_part (a @ s) = a @ line_part s"
  by (simp add: line_part_def)

text \<open>A text without line terminators that starts on a line lies on that line.\<close>

lemma within_line:
  assumes "drop i s = l @ r" "i \<le> length (line_part s)" "rx_ok AnyStar l"
  shows "\<exists>r'. drop i (line_part s) = l @ r'"
proof -
  obtain t where t: "s = line_part s @ t" "t = [] \<or> line_terminator (hd t)" using line_part_split by blast
  have "drop i (line_part s) @ t = l @ r"
    using assms(1,2) t(1) by (metis append_Nil2 append_eq_append_conv_if diff_is_0_eq drop0 drop_append)
  then consider us where "drop i (line_part s) = l @ us" | us where "l = drop i (line_part s) @ us" "us @ r = t"
    by (auto simp: append_eq_append_conv2)
  then show ?thesis
  proof cases
    case 1
    then show ?thesis by blast
  next
    case (2 us)
    have "us = []"
    proof (rule ccontr)
      assume "us \<noteq> []"
      then obtain u us' where us: "us = u # us'" by (cases us) auto
      with 2 t(2) have "line_terminator u" by auto
      moreover have "u \<in> set l" using 2 us by simp
      ultimately show False using assms(3) by simp
    qed
    then show ?thesis using 2 by auto
  qed
qed

text \<open>A star before a closing literal ends at the last occurrence of the literal on the line.\<close>

lemma star_before_last:
  assumes k: "rx_ok AnyStar k" and l: "rx_ok AnyStar l" "l \<noteq> []"
    and last: "\<not> strstr (tl l @ line_part post) l"
  shows "rx_match [AnyStar, Lit l] (k @ l @ post) = Some ([k, l], post)"
proof -
  let ?s = "k @ l @ post"
  have line: "line_part ?s = k @ l @ line_part post" using k l by (simp add: line_part_append)
  have none: "\<not> is_prefix l (drop j ?s)" if j: "length k < j" "j \<le> length (line_part ?s)" for j
  proof
    assume "is_prefix l (drop j ?s)"
    then obtain r where "drop j ?s = l @ r" by (auto simp: is_prefix_iff)
    from within_line [OF this j(2) l(1)] obtain r' where "drop j (k @ l @ line_part post) = l @ r'"
      unfolding line by blast
    moreover have "drop j (k @ l @ line_part post) = drop (j - length k - 1) (tl l @ line_part post)"
      using j l(2) by (cases l) (auto simp: drop_Cons' Suc_le_eq)
    ultimately have "tl l @ line_part post = take (j - length k - 1) (tl l @ line_part post) @ l @ r'"
      by (metis append_take_drop_id)
    then show False using last strstr_iff by blast
  qed
  show ?thesis
    unfolding rx_match.simps try_lengths_Some
    by (rule exI [of _ "length k"]) (use none line in auto)
qed

lemma rx_search_first:
  assumes "\<And>i. i < length pre \<Longrightarrow> rx_match is (drop i pre @ s) = None" "rx_match is s = Some (ms, r)"
  shows "rx_search is (pre @ s) = Some (pre, ms, r)"
  using assms(1)
proof (induction pre)
  case Nil
  then show ?case using assms(2) by (cases s) auto
next
  case (Cons c pre)
  have "rx_match is (c # pre @ s) = None" using Cons.prems [of 0] by simp
  moreover have "rx_search is (pre @ s) = Some (pre, ms, r)"
    using Cons.prems [of "Suc _"] by (intro Cons.IH) simp
  ultimately show ?case by simp
qed

text \<open>A literal none of whose proper suffixes is one of its prefixes does not overlap itself.\<close>

definition no_overlap :: "string \<Rightarrow> bool" where
  "no_overlap l \<longleftrightarrow> (\<forall>i \<in> {1..<length l}. \<not> is_prefix (drop i l) l)"

lemma literal_not_before:
  assumes nov: "no_overlap l" and pre: "\<not> strstr pre l" and i: "i < length pre"
  shows "\<not> is_prefix l (drop i pre @ l @ s)"
proof
  assume "is_prefix l (drop i pre @ l @ s)"
  then obtain r where r: "drop i pre @ l @ s = l @ r" by (auto simp: is_prefix_iff)
  show False
  proof (cases "length l \<le> length (drop i pre)")
    case True
    then have "drop i pre = l @ drop (length l) (drop i pre)"
      using r by (metis append_eq_append_conv_if append_take_drop_id)
    then have "pre = take i pre @ l @ drop (length l) (drop i pre)" by (metis append_take_drop_id)
    then show False using pre strstr_iff by blast
  next
    case False
    define n where "n = length (drop i pre)"
    have n: "1 \<le> n" "n < length l" using i False by (auto simp: n_def)
    have "l @ s = drop n l @ r"
      using r False by (metis append_eq_append_conv_if append_eq_conv_conj drop_append length_drop n_def nat_le_linear
          drop_all append_Nil diff_is_0_eq drop0)
    then have "is_prefix (drop n l) l"
      using n by (metis append_eq_append_conv_if is_prefix_iff length_drop diff_le_self append_take_drop_id)
    then show False using nov n by (auto simp: no_overlap_def)
  qed
qed

lemma no_overlap_literals: "no_overlap ''enqueue(''" "no_overlap n1ql_open"
proof -
  have s: "{1..<length ''enqueue(''} = {1,2,3,4,5,6,7}" "{1..<length n1ql_open} = {1,2,3,4,5}"
    by (auto simp: n1ql_open_def)
  show "no_overlap ''enqueue(''" "no_overlap n1ql_open"
    unfolding no_overlap_def s by (simp_all add: n1ql_open_def eval_nat_numeral)
qed

lemma rx_search_call:
  assumes "no_overlap l" "\<not> strstr pre l" "rx_match (Lit l # is) (l @ s) = Some (ms, r)"
  shows "rx_search (Lit l # is) (pre @ l @ s) = Some (pre, ms, r)"
  by (rule rx_search_first) (use assms literal_not_before in auto)

text \<open>The star for the queue name ends at the last comma that is followed by a closing parenthesis.\<close>

lemma comma_before_close:
  assumes "'' '' @ k @ '')'' @ lp = a @ '', '' @ k' @ '')'' @ r" "CHR '')'' \<notin> set lp"
  shows "strstr k '', ''"
proof -
  let ?a = "a @ '', '' @ k'"
  have eq: "('' '' @ k) @ '')'' @ lp = ?a @ '')'' @ r" using assms(1) by simp
  from iffD1 [OF append_eq_append_conv2 this] obtain us where
    "'' '' @ k = ?a @ us \<or> ('' '' @ k) @ us = ?a \<and> '')'' @ lp = us @ '')'' @ r" by blast
  then consider "'' '' @ k = ?a @ us" | "us \<noteq> []" "'')'' @ lp = us @ '')'' @ r"
    by (cases "us = []") auto
  then show ?thesis
  proof cases
    case 1
    then obtain a' where "k = a' @ '', '' @ k' @ us" by (cases a) auto
    then show ?thesis using strstr_iff by blast
  next
    case 2
    then have "CHR '')'' \<in> set lp" by (cases us) auto
    then show ?thesis using assms(2) by simp
  qed
qed

lemma enqueue_match:
  assumes q: "rx_ok AnyStar q" and k: "rx_ok AnyStar k" "\<not> strstr k '', ''"
    and post: "CHR '')'' \<notin> set (line_part post)"
  shows "rx_match enqueue_rx (''enqueue('' @ q @ '', '' @ k @ '')'' @ post)
    = Some ([''enqueue('', q, '', '', k, '')''], post)"
proof -
  let ?s = "q @ '', '' @ k @ '')'' @ post"
  let ?is = "[Lit '', '', AnyStar, Lit '')'']"
  have ok: "rx_ok AnyStar '', ''" "rx_ok AnyStar '')''" by (simp_all add: line_terminator_def)
  have line: "line_part ?s = q @ '', '' @ k @ '')'' @ line_part post"
    using q k ok by (simp only: line_part_append)
  have inner: "rx_match [AnyStar, Lit '')''] (k @ '')'' @ post) = Some ([k, '')''], post)"
    using post by (intro star_before_last [OF k(1) ok(2)]) (auto simp: strstr_iff)
  have none: "rx_match ?is (drop j ?s) = None" if j: "length q < j" "j \<le> length (line_part ?s)" for j
  proof (rule ccontr)
    assume "rx_match ?is (drop j ?s) \<noteq> None"
    then obtain ms r where m: "rx_match ?is (drop j ?s) = Some (ms, r)" by auto
    from rx_match_sound [OF m] obtain k' where
      d: "drop j ?s = ('', '' @ k' @ '')'') @ r" "rx_ok AnyStar ('', '' @ k' @ '')'')"
      using ok by (auto simp: list_all2_Cons1)
    from within_line [OF d(1) j(2) d(2)] obtain r' where
      "drop j (q @ '', '' @ k @ '')'' @ line_part post) = '', '' @ k' @ '')'' @ r'"
      unfolding line by auto
    moreover have "drop j (q @ '', '' @ k @ '')'' @ line_part post)
        = drop (j - length q - 1) ('' '' @ k @ '')'' @ line_part post)"
      using j by (cases "j - length q") auto
    ultimately have "'' '' @ k @ '')'' @ line_part post
        = take (j - length q - 1) ('' '' @ k @ '')'' @ line_part post) @ '', '' @ k' @ '')'' @ r'"
      by (metis append_take_drop_id)
    then show False using comma_before_close post k(2) by blast
  qed
  have "rx_match (AnyStar # ?is) ?s = Some ([q, '', '', k, '')''], post)"
    unfolding rx_match.simps(3) try_lengths_Some
    by (rule exI [of _ "length q"]) (use none line inner in auto)
  then show ?thesis by (simp add: enqueue_rx_def)
qed
lemma rewrite_enqueue_call:
  assumes pre: "\<not> strstr pre ''enqueue(''" and q: "rx_ok AnyStar q" and k: "rx_ok AnyStar k" "\<not> strstr k '', ''"
    and post: "CHR '')'' \<notin> set (line_part post)"
  shows "rewrite_enqueue (pre @ ''enqueue('' @ q @ '', '' @ k @ '')'' @ post)
    = pre @ q @ ''['' @ k @ '']'' @ rewrite_enqueue post"
proof -
  have "rx_search enqueue_rx (pre @ ''enqueue('' @ q @ '', '' @ k @ '')'' @ post)
      = Some (pre, [''enqueue('', q, '', '', k, '')''], post)"
    unfolding enqueue_rx_def
    by (rule rx_search_call [OF no_overlap_literals(1) pre])
      (use enqueue_match [OF q k post] in \<open>simp add: enqueue_rx_def\<close>)
  then show ?thesis by (subst rewrite_enqueue_step) simp
qed

lemma rewrite_n1ql_call:
  assumes pre: "\<not> strstr pre n1ql_open" and q: "rx_ok AnyStar q"
    and post: "\<not> strstr (line_part post) n1ql_close"
  shows "rewrite_n1ql (pre @ n1ql_open @ q @ n1ql_close @ post) = pre @ ''n1ql`'' @ q @ ''`'' @ rewrite_n1ql post"
proof -
  have ok: "rx_ok AnyStar n1ql_close" "n1ql_close \<noteq> []" by (simp_all add: n1ql_close_def line_terminator_def)
  have "\<not> strstr (tl n1ql_close @ line_part post) n1ql_close"
  proof
    assume "strstr (tl n1ql_close @ line_part post) n1ql_close"
    then obtain a b where ab: "CHR '')'' # line_part post = a @ n1ql_close @ b"
      by (auto simp: strstr_iff n1ql_close_def)
    then obtain a' where "line_part post = a' @ n1ql_close @ b" by (cases a) (auto simp: n1ql_close_def)
    then show False using post strstr_iff by blast
  qed
  from star_before_last [OF q ok this]
  have m: "rx_match [AnyStar, Lit n1ql_close] (q @ n1ql_close @ post) = Some ([q, n1ql_close], post)" .
  have "rx_search n1ql_rx (pre @ n1ql_open @ q @ n1ql_close @ post) = Some (pre, [n1ql_open, q, n1ql_close], post)"
    unfolding n1ql_rx_def by (rule rx_search_call [OF no_overlap_literals(2) pre]) (use m in simp)
  then show ?thesis by (subst rewrite_n1ql_step) simp
qed

text \<open>
  C31. The first call \<open>enqueue(q, k)\<close> of a text, on one line that has no closing parenthesis behind it and with no comma and
  blank in \<open>k\<close>, becomes \<open>q[k]\<close>, and the first call \<open>n1ql("query")\<close>, on one line that has no further \<open>")\<close>, becomes
  \<open>n1ql`query`\<close>; the text before is kept and the loop continues behind the call.
\<close>

theorem preprocess_calls:
  assumes "\<not> strstr pre ''enqueue(''" "\<forall>c \<in> set (q @ k). \<not> line_terminator c" "\<not> strstr k '', ''"
    and "CHR '')'' \<notin> set (line_part post)"
    and "\<not> strstr pre' n1ql_open" "\<forall>c \<in> set query. \<not> line_terminator c" "\<not> strstr (line_part post') n1ql_close"
  shows "enqueue_loop (pre @ ''enqueue('' @ q @ '', '' @ k @ '')'' @ post) []
      = pre @ q @ ''['' @ k @ '']'' @ enqueue_loop post []
    \<and> n1ql_loop (pre' @ n1ql_open @ query @ n1ql_close @ post') []
      = pre' @ ''n1ql`'' @ query @ ''`'' @ n1ql_loop post' []"
  using rewrite_enqueue_call [of pre q k post] rewrite_n1ql_call [of pre' query post'] assms
  by (simp add: rewrite_enqueue_def rewrite_n1ql_def)

theorem preprocess_calls_witness:
  "enqueue_loop (''x; '' @ ''enqueue('' @ ''jobs'' @ '', '' @ ''id(1)'' @ '')'' @ '';'') []
      = ''x; '' @ ''jobs'' @ ''['' @ ''id(1)'' @ '']'' @ enqueue_loop '';'' []
    \<and> n1ql_loop (''r = '' @ n1ql_open @ ''select 1'' @ n1ql_close @ '';'') []
      = ''r = '' @ ''n1ql`'' @ ''select 1'' @ ''`'' @ n1ql_loop '';'' []"
proof (rule preprocess_calls)
  show "\<forall>c \<in> set (''jobs'' @ ''id(1)''). \<not> line_terminator c" "\<forall>c \<in> set ''select 1''. \<not> line_terminator c"
    by (simp_all add: line_terminator_def)
qed (simp_all add: strstr_def n1ql_open_def n1ql_close_def line_part_def line_terminator_def)

text \<open>
  Two calls on one line are not two matches: the greedy first group takes the text up to the last comma,
  so the second call disappears into the queue name of the first.
\<close>

lemma enqueue_calls_merged:
  "enqueue_loop ''enqueue(q, a);enqueue(q, b)'' [] = ''q, a);enqueue(q[b]''"
proof -
  have "rewrite_enqueue ([] @ ''enqueue('' @ ''q, a);enqueue(q'' @ '', '' @ ''b'' @ '')'' @ [])
      = [] @ ''q, a);enqueue(q'' @ ''['' @ ''b'' @ '']'' @ rewrite_enqueue []"
    by (rule rewrite_enqueue_call) (simp_all add: strstr_def line_terminator_def line_part_def)
  then show ?thesis using rewrite_enqueue_absent [of "[]"] by (simp add: rewrite_enqueue_def strstr_def)
qed

end
