(* ===== verification/Timer.thy ===== *)
theory Timer
  imports Clock BucketBinding
begin

text \<open>
  The timers of worker.cc: \<open>RegisterCallback\<close> (the global \<open>registerCallback\<close> of a handler) with
  the response callbacks it relies on. The lemmas show that a registration refines an abstract timer
  table: the document of the id holds the callback, and the marker of the instant lists the ids of
  all registrations for it, in their order.
\<close>

section \<open>Registering a callback\<close>

text \<open>The callbacks installed on the handle of the worker.\<close>

definition op_get_callback :: "lcb_RESPGET \<Rightarrow> Result \<Rightarrow> Result" where
  "op_get_callback resp result =
     (let r = result\<lparr>res_status := get_rc resp, res_cas := get_cas resp, res_itmflags := get_itmflags resp, res_value := []\<rparr>
      in if get_rc resp = LCB_SUCCESS then r\<lparr>res_value := get_value resp\<rparr> else r)"

definition op_set_callback :: "lcb_RESPSTORE \<Rightarrow> unit" where
  "op_set_callback resp = ()"

text \<open>One \<open>lcb_get3\<close> of the worker, from scheduling to the end of \<open>lcb_wait\<close>.\<close>

definition worker_get :: "'s lcb \<Rightarrow> 's \<Rightarrow> string \<Rightarrow> string \<Rightarrow> Result" where
  "worker_get L s b key =
     (case lcb_get3 L s b key of
        Some resp \<Rightarrow> op_get_callback resp Result_init
      | None \<Rightarrow> Result_init)"

definition timer_events :: "string \<Rightarrow> string \<Rightarrow> string \<Rightarrow> writer_event list" where
  "timer_events callback_func doc_id timestamp =
     [StartObject, Key ''callback_func'', String callback_func, Key ''doc_id'', String doc_id,
      Key ''start_timestamp'', String timestamp, EndObject]"

definition skip_message :: "string \<Rightarrow> string" where
  "skip_message doc_id =
     ''Skipping timer callback setup for doc_id: '' @ c_str doc_id @ '' doc won't expire'' @ newline"

text \<open>
  \<open>isolate_data\<close> is slot 1 of the isolate, which \<open>WorkerLoad\<close> sets to the worker's handle on its
  last line; \<open>now\<close> is the clock. The state is the cluster's and the text on the standard output.
\<close>

definition RegisterCallback ::
  "'v v8 \<Rightarrow> rapidjson \<Rightarrow> 's lcb \<Rightarrow> int \<Rightarrow> string pointer \<Rightarrow> 'v list \<Rightarrow> 's \<times> string \<Rightarrow> ('s \<times> string) result" where
  "RegisterCallback E J L now isolate_data args = (\<lambda>(s, out).
     res_bind (ObjectToString E (Some (argument E args 0))) (\<lambda>callback_func.
     res_bind (ObjectToString E (Some (argument E args 1))) (\<lambda>doc_id.
     res_bind (ObjectToString E (Some (argument E args 2))) (\<lambda>startTs.
     res_bind (atoi (c_str startTs)) (\<lambda>startTs_value.
       if startTs_value = 0 then Inr (s, out @ skip_message doc_id)
       else res_bind (ConvertToISO8601 now startTs) (\<lambda>timestamp.
         let value = c_str (rj_write J (timer_events callback_func doc_id timestamp))
         in case isolate_data of
              Indeterminate \<Rightarrow> Inl Uninitialised_read
            | Null \<Rightarrow> Inl Null_deref
            | Ptr bucket_cb_handle \<Rightarrow>
                let scmd = \<lparr>cmd_operation = LCB_SET, cmd_key = doc_id, cmd_value = value, cmd_flags = 0x2000000\<rparr>;
                    s1 = snd (lcb_store3 L s bucket_cb_handle scmd);
                    result = worker_get L s1 bucket_cb_handle timestamp;
                    acmd = \<lparr>cmd_operation = LCB_ADD, cmd_key = timestamp, cmd_value = [], cmd_flags = 0\<rparr>;
                    s2 = (if res_status result \<noteq> LCB_SUCCESS then snd (lcb_store3 L s1 bucket_cb_handle acmd) else s1);
                    cmd = \<lparr>cmd_operation = LCB_APPEND, cmd_key = timestamp, cmd_value = doc_id @ '';'', cmd_flags = 0\<rparr>
                in Inr (snd (lcb_store3 L s2 bucket_cb_handle cmd), out)))))))"

section \<open>One registration\<close>

lemma worker_get_kv:
  "res_value (worker_get L s b k) = (case kv L s b k of Some v \<Rightarrow> v | None \<Rightarrow> [])"
  by (auto simp: worker_get_def kv_def op_get_callback_def Result_init_def Let_def split: option.splits)

lemma worker_get_status:
  assumes "reachable_cluster L" "key_ok k"
  shows "res_status (worker_get L s b k) = LCB_SUCCESS \<longleftrightarrow> kv L s b k \<noteq> None"
proof -
  obtain r where "lcb_get3 L s b k = Some r" using reachable_clusterD(1) [OF assms] by blast
  then show ?thesis by (auto simp: worker_get_def kv_def op_get_callback_def Result_init_def Let_def)
qed

lemma iso_text_key_ok [simp]: "four_digit_time t \<Longrightarrow> key_ok (iso_text t)"
  using length_iso_text [of t] by (auto simp: key_ok_def)

text \<open>What a registration does to a bucket: the document of the id, then the marker of the instant.\<close>

definition put_timer :: "string \<Rightarrow> string \<Rightarrow> string \<Rightarrow> (string \<rightharpoonup> string) \<Rightarrow> (string \<rightharpoonup> string)" where
  "put_timer doc_id value timestamp m =
     (let m1 = m(doc_id \<mapsto> value);
          marker = (case m1 timestamp of Some t \<Rightarrow> t | None \<Rightarrow> [])
      in m1(timestamp \<mapsto> marker @ doc_id @ '';''))"

lemma RegisterCallback_kv:
  assumes L: "reachable_cluster L" and ok: "key_ok doc_id" "key_ok timestamp"
    and args: "ObjectToString E (Some (argument E args 0)) = Inr cb"
      "ObjectToString E (Some (argument E args 1)) = Inr doc_id"
      "ObjectToString E (Some (argument E args 2)) = Inr ts"
    and ts: "atoi (c_str ts) = Inr v" "v \<noteq> 0" "ConvertToISO8601 now ts = Inr timestamp"
  shows "\<exists>s'. RegisterCallback E J L now (Ptr b) args (s, out) = Inr (s', out)
    \<and> kv L s' = (kv L s)(b := put_timer doc_id (c_str (rj_write J (timer_events cb doc_id timestamp))) timestamp (kv L s b))"
proof -
  let ?v = "c_str (rj_write J (timer_events cb doc_id timestamp))"
  define s1 where "s1 = snd (lcb_store3 L s b \<lparr>cmd_operation = LCB_SET, cmd_key = doc_id, cmd_value = ?v, cmd_flags = 0x2000000\<rparr>)"
  define s2 where "s2 = (if res_status (worker_get L s1 b timestamp) \<noteq> LCB_SUCCESS
      then snd (lcb_store3 L s1 b \<lparr>cmd_operation = LCB_ADD, cmd_key = timestamp, cmd_value = [], cmd_flags = 0\<rparr>) else s1)"
  define s3 where "s3 = snd (lcb_store3 L s2 b \<lparr>cmd_operation = LCB_APPEND, cmd_key = timestamp,
      cmd_value = doc_id @ '';'', cmd_flags = 0\<rparr>)"
  have kv1: "kv L s1 = (kv L s)(b := (kv L s b)(doc_id \<mapsto> ?v))"
    unfolding s1_def by (simp add: reachable_clusterD(2) [OF L] ok kv_store_def)
  have kv2: "kv L s2 = (kv L s1)(b := (kv L s1 b)(timestamp \<mapsto> (case kv L s1 b timestamp of Some t \<Rightarrow> t | None \<Rightarrow> [])))"
    unfolding s2_def using worker_get_status [OF L ok(2), of s1 b]
    by (auto simp: reachable_clusterD(2) [OF L] ok kv_store_def fun_eq_iff split: option.splits)
  have kv3: "kv L s3 = (kv L s2)(b := kv_store \<lparr>cmd_operation = LCB_APPEND, cmd_key = timestamp,
      cmd_value = doc_id @ '';'', cmd_flags = 0\<rparr> (kv L s2 b))"
    unfolding s3_def by (rule reachable_clusterD(2) [OF L]) (simp add: ok)
  have "RegisterCallback E J L now (Ptr b) args (s, out) = Inr (s3, out)"
    using args ts unfolding s3_def s2_def s1_def by (simp add: RegisterCallback_def Let_def)
  moreover have "kv L s3 = (kv L s)(b := put_timer doc_id ?v timestamp (kv L s b))"
    unfolding kv3 kv2 kv1 by (simp add: kv_store_def put_timer_def Let_def fun_eq_iff)
  ultimately show ?thesis by blast
qed

lemma not_iso_text: "four_digit_time t \<Longrightarrow> length x \<noteq> 19 \<Longrightarrow> x \<noteq> iso_text t"
  using length_iso_text by blast

text \<open>The JSON document of a timer.\<close>

definition timer_doc :: "string \<Rightarrow> string \<Rightarrow> string \<Rightarrow> json" where
  "timer_doc cb doc_id timestamp =
     JObj [(''callback_func'', JStr cb), (''doc_id'', JStr doc_id), (''start_timestamp'', JStr timestamp)]"

lemma timer_events_object:
  "timer_events cb doc_id timestamp =
     object_events [(''callback_func'', cb), (''doc_id'', doc_id), (''start_timestamp'', timestamp)]"
  by (simp add: timer_events_def object_events_def)

lemma timer_doc_round_trip:
  assumes "writes_string_objects J"
  shows "NUL \<notin> set (rj_write J (timer_events cb doc_id timestamp))"
    and "rj_parse J (rj_write J (timer_events cb doc_id timestamp)) = Some (timer_doc cb doc_id timestamp)"
  using assms by (simp_all add: writes_string_objects_def timer_events_object timer_doc_def)

text \<open>
  What \<open>SendTimerCallback\<close> takes out of the document of a timer: the callback, the id and the instant.
\<close>

definition timer_fields :: "json \<Rightarrow> (string \<times> string \<times> string) result" where
  "timer_fields doc =
     res_bind (guard (is_object doc) Assertion_failed) (\<lambda>_.
     res_bind (json_member doc ''callback_func'') (\<lambda>cf.
     res_bind (json_member doc ''doc_id'') (\<lambda>id.
     res_bind (json_member doc ''start_timestamp'') (\<lambda>sts.
     res_bind (json_string cf) (\<lambda>callback_func.
     res_bind (json_string id) (\<lambda>doc_id.
     res_bind (json_string sts) (\<lambda>start_timestamp.
       Inr (callback_func, doc_id, start_timestamp))))))))"

lemma timer_doc_fields:
  "NUL \<notin> set cb \<Longrightarrow> NUL \<notin> set doc_id \<Longrightarrow> NUL \<notin> set timestamp \<Longrightarrow>
     timer_fields (timer_doc cb doc_id timestamp) = Inr (cb, doc_id, timestamp)"
  by (simp add: timer_fields_def timer_doc_def is_object_def json_member_def json_string_def)

text \<open>A stored text that the delivery reads as a timer with the given callback, id and instant.\<close>

definition timer_blob :: "rapidjson \<Rightarrow> string \<Rightarrow> string \<Rightarrow> string \<Rightarrow> string \<Rightarrow> bool" where
  "timer_blob J value cb doc_id timestamp \<longleftrightarrow>
     (case rj_parse J (c_str value) of Some doc \<Rightarrow> timer_fields doc = Inr (cb, doc_id, timestamp) | None \<Rightarrow> False)"

lemma timer_blob_written:
  "writes_string_objects J \<Longrightarrow> NUL \<notin> set cb \<Longrightarrow> NUL \<notin> set doc_id \<Longrightarrow> NUL \<notin> set timestamp \<Longrightarrow>
     timer_blob J (rj_write J (timer_events cb doc_id timestamp)) cb doc_id timestamp"
  by (simp add: timer_blob_def timer_doc_round_trip timer_doc_fields)

text \<open>
  A registration with a non-zero timer value leaves exactly two changes in the worker's bucket:
  the document of the id parses as an object with the callback, the id and the instant, and the
  marker of the instant is extended by the id and the delimiter, created first where it is missing.
  The member that holds the id is \<open>doc_id\<close>; the comment above the code calls it \<open>document_id\<close>, a member
  that the document does not have.
\<close>

theorem RegisterCallback_correct:
  assumes L: "reachable_cluster L" and J: "writes_string_objects J"
    and args: "ObjectToString E (Some (argument E args 0)) = Inr cb"
      "ObjectToString E (Some (argument E args 1)) = Inr doc_id"
      "ObjectToString E (Some (argument E args 2)) = Inr ts"
    and ts: "atoi (c_str ts) = Inr v" "v \<noteq> 0" "four_digit_time (timer_instant now v)"
    and doc: "doc_id \<noteq> iso_text (timer_instant now v)" "key_ok doc_id"
  shows "\<exists>s' value. RegisterCallback E J L now (Ptr b) args (s, out) = Inr (s', out)
    \<and> kv L s' b doc_id = Some value
    \<and> rj_parse J value = Some (timer_doc cb doc_id (iso_text (timer_instant now v)))
    \<and> json_member (timer_doc cb doc_id (iso_text (timer_instant now v))) ''document_id'' = Inl Library_contract
    \<and> kv L s' b (iso_text (timer_instant now v)) =
        Some ((case kv L s b (iso_text (timer_instant now v)) of Some m \<Rightarrow> m | None \<Rightarrow> []) @ doc_id @ '';'')
    \<and> (\<forall>b' k. (b', k) \<noteq> (b, doc_id) \<longrightarrow> (b', k) \<noteq> (b, iso_text (timer_instant now v))
         \<longrightarrow> kv L s' b' k = kv L s b' k)"
proof -
  let ?t = "iso_text (timer_instant now v)"
  let ?v = "rj_write J (timer_events cb doc_id ?t)"
  have "ConvertToISO8601 now ts = Inr ?t" by (rule ConvertToISO8601_eq [OF ts(1,3)])
  from RegisterCallback_kv [OF L doc(2) _ args ts(1,2) this, of J b s out] ts(3) timer_doc_round_trip(1) [OF J]
  obtain s' where s': "RegisterCallback E J L now (Ptr b) args (s, out) = Inr (s', out)"
    "kv L s' = (kv L s)(b := put_timer doc_id ?v ?t (kv L s b))" by auto
  have m: "json_member (timer_doc cb doc_id ?t) ''document_id'' = Inl Library_contract"
    by (simp add: timer_doc_def json_member_def)
  have "kv L s' b doc_id = Some ?v" "kv L s' b ?t = Some ((case kv L s b ?t of Some m \<Rightarrow> m | None \<Rightarrow> []) @ doc_id @ '';'')"
    "\<forall>b' k. (b', k) \<noteq> (b, doc_id) \<longrightarrow> (b', k) \<noteq> (b, ?t) \<longrightarrow> kv L s' b' k = kv L s b' k"
    using doc unfolding s'(2) by (auto simp: put_timer_def Let_def)
  then show ?thesis using s'(1) timer_doc_round_trip(2) [OF J] m by blast
qed

theorem RegisterCallback_correct_witness:
  "\<exists>s' value. RegisterCallback ref_v8 ref_json ref_lcb 0 (Ptr ''meta'') [''expired'', ''doc1'', ''1470737472''] (ref_empty, [])
      = Inr (s', [])
    \<and> kv ref_lcb s' ''meta'' ''doc1'' = Some value
    \<and> rj_parse ref_json value = Some (timer_doc ''expired'' ''doc1'' (iso_text 1470737472))
    \<and> kv ref_lcb s' ''meta'' (iso_text 1470737472) = Some ''doc1;''"
proof -
  have args: "ObjectToString ref_v8 (Some (argument ref_v8 [''expired'', ''doc1'', ''1470737472''] 0)) = Inr ''expired''"
    "ObjectToString ref_v8 (Some (argument ref_v8 [''expired'', ''doc1'', ''1470737472''] 1)) = Inr ''doc1''"
    "ObjectToString ref_v8 (Some (argument ref_v8 [''expired'', ''doc1'', ''1470737472''] 2)) = Inr ''1470737472''"
    by (simp_all add: argument_def ObjectToString_def ref_v8_def c_eval)
  have a: "atoi (c_str ''1470737472'') = Inr 1470737472" by (simp add: c_eval)
  have t: "four_digit_time (timer_instant 0 1470737472)" "timer_instant 0 1470737472 = 1470737472"
    by (simp_all add: timer_instant_def four_digit_time_def)
  have d: "''doc1'' \<noteq> iso_text (timer_instant 0 1470737472)" "key_ok ''doc1''"
    using not_iso_text [OF t(1)] by (simp_all add: key_ok_def)
  show ?thesis
    using RegisterCallback_correct [OF ref_lcb_reachable ref_json_writes args a _ t(1) d, of "''meta''" ref_empty "[]"]
    by (auto simp: t(2) ref_empty_def)
qed

section \<open>The timer table\<close>

text \<open>The marker of an instant as a list of ids.\<close>

definition timers_at :: "'s lcb \<Rightarrow> 's \<Rightarrow> string \<Rightarrow> int \<Rightarrow> string list" where
  "timers_at L s b t = (case kv L s b (iso_text t) of Some m \<Rightarrow> split m (CHR '';'') | None \<Rightarrow> [])"

text \<open>
  The abstract table: a list of registrations, each with the clock at its time, the callback, the id
  and the timer value. The concrete bucket refines it where every marker is the joined list of the ids
  due at its instant, and every id's document reads as the timer of its last registration. The instant is the
  documented one of Clock, and a registration has a value on which the code follows the documentation.
\<close>

record registration =
  reg_now :: int
  reg_callback :: string
  reg_doc :: string
  reg_value :: int

definition due :: "registration \<Rightarrow> int" where
  "due r = documented_instant (reg_now r) (reg_value r)"

definition due_ids :: "registration list \<Rightarrow> int \<Rightarrow> string list" where
  "due_ids rs t = map reg_doc (filter (\<lambda>r. due r = t) rs)"

definition registration_ok :: "registration \<Rightarrow> bool" where
  "registration_ok r \<longleftrightarrow>
     NUL \<notin> set (reg_callback r) \<and> NUL \<notin> set (reg_doc r) \<and> CHR '';'' \<notin> set (reg_doc r) \<and> length (reg_doc r) \<noteq> 19
     \<and> key_ok (reg_doc r)
     \<and> 0 < reg_value r \<and> reg_value r \<le> INT_MAX \<and> (reg_value r \<le> thirty_days \<or> 25920000 < reg_value r) \<and> four_digit_time (due r)"

definition refines_timers :: "rapidjson \<Rightarrow> 's lcb \<Rightarrow> string \<Rightarrow> registration list \<Rightarrow> 's \<Rightarrow> bool" where
  "refines_timers J L b rs s \<longleftrightarrow>
     (\<forall>r \<in> set rs. registration_ok r)
   \<and> (\<forall>t. four_digit_time t \<longrightarrow>
        kv L s b (iso_text t) = (if due_ids rs t = [] then None else Some (join_keys (CHR '';'') (due_ids rs t))))
   \<and> (\<forall>r pre post. rs = pre @ r # post \<longrightarrow> reg_doc r \<notin> reg_doc ` set post \<longrightarrow>
        (\<exists>value. kv L s b (reg_doc r) = Some value
           \<and> timer_blob J value (reg_callback r) (reg_doc r) (iso_text (due r))))"

text \<open>The call a handler makes for a registration, and a sequence of such calls.\<close>

definition register ::
  "'v v8 \<Rightarrow> rapidjson \<Rightarrow> 's lcb \<Rightarrow> string \<Rightarrow> registration \<Rightarrow> 's \<times> string \<Rightarrow> ('s \<times> string) result" where
  "register E J L b r =
     RegisterCallback E J L (reg_now r) (Ptr b)
       [v8_string E (reg_callback r), v8_string E (reg_doc r), v8_string E (dec_of_nat (nat (reg_value r)))]"

text \<open>The texts of a registration survive the way into V8 and back.\<close>

definition registration_texts :: "'v v8 \<Rightarrow> registration \<Rightarrow> bool" where
  "registration_texts E r \<longleftrightarrow> utf8_round_trip E (reg_callback r) \<and> utf8_round_trip E (reg_doc r)
     \<and> utf8_round_trip E (dec_of_nat (nat (reg_value r)))"

fun register_all ::
  "'v v8 \<Rightarrow> rapidjson \<Rightarrow> 's lcb \<Rightarrow> string \<Rightarrow> registration list \<Rightarrow> 's \<times> string \<Rightarrow> ('s \<times> string) result" where
  "register_all E J L b [] w = Inr w"
| "register_all E J L b (r # rs) w = res_bind (register E J L b r w) (register_all E J L b rs)"

lemma dec_of_nat_no_NUL [simp]: "NUL \<notin> set (dec_of_nat n)"
  using dec_of_nat_digits [of n] digit_not_special by (fastforce simp: list_all_iff NUL_def)

lemma register_kv:
  assumes L: "reachable_cluster L" and J: "writes_string_objects J" and E: "registration_texts E r"
    and r: "registration_ok r"
  shows "\<exists>s'. register E J L b r (s, out) = Inr (s', out)
    \<and> kv L s' = (kv L s)(b := put_timer (reg_doc r)
         (rj_write J (timer_events (reg_callback r) (reg_doc r) (iso_text (due r)))) (iso_text (due r)) (kv L s b))"
proof -
  let ?ts = "dec_of_nat (nat (reg_value r))"
  let ?args = "[v8_string E (reg_callback r), v8_string E (reg_doc r), v8_string E ?ts]"
  have args: "ObjectToString E (Some (argument E ?args 0)) = Inr (reg_callback r)"
    "ObjectToString E (Some (argument E ?args 1)) = Inr (reg_doc r)"
    "ObjectToString E (Some (argument E ?args 2)) = Inr ?ts"
    using E r by (simp_all add: argument_def ObjectToString_def registration_texts_def utf8_round_trip_def registration_ok_def)
  have a: "atoi (c_str ?ts) = Inr (reg_value r)" "reg_value r \<noteq> 0"
    using r by (simp_all add: registration_ok_def)
  have t: "timer_instant (reg_now r) (reg_value r) = due r"
    using r unfolding due_def registration_ok_def timer_instant_documented by blast
  have "ConvertToISO8601 (reg_now r) ?ts = Inr (iso_text (due r))"
    using ConvertToISO8601_eq [OF a(1), of "reg_now r"] r by (simp add: t registration_ok_def)
  from RegisterCallback_kv [OF L _ _ args a this, of J b s out] timer_doc_round_trip(1) [OF J] r
  show ?thesis by (simp add: register_def registration_ok_def)
qed

lemma due_ids_snoc: "due_ids (rs @ [r]) t = due_ids rs t @ (if due r = t then [reg_doc r] else [])"
  by (simp add: due_ids_def)

lemma join_keys_snoc: "join_keys d ks @ k @ [d] = join_keys d (ks @ [k])"
  by simp

lemma refines_timers_marker:
  "refines_timers J L b rs s \<Longrightarrow> four_digit_time t \<Longrightarrow>
     kv L s b (iso_text t) = (if due_ids rs t = [] then None else Some (join_keys (CHR '';'') (due_ids rs t)))"
  by (simp add: refines_timers_def)

lemma refines_timers_doc:
  "refines_timers J L b (pre @ r # post) s \<Longrightarrow> reg_doc r \<notin> reg_doc ` set post \<Longrightarrow>
     \<exists>value. kv L s b (reg_doc r) = Some value
       \<and> timer_blob J value (reg_callback r) (reg_doc r) (iso_text (due r))"
  by (simp add: refines_timers_def)

text \<open>One registration simulates the extension of the table.\<close>

lemma register_refines:
  assumes L: "reachable_cluster L" and J: "writes_string_objects J" and E: "registration_texts E r"
    and r: "registration_ok r" and rs: "refines_timers J L b rs s"
  shows "\<exists>s'. register E J L b r (s, out) = Inr (s', out) \<and> refines_timers J L b (rs @ [r]) s'"
proof -
  let ?v = "rj_write J (timer_events (reg_callback r) (reg_doc r) (iso_text (due r)))"
  obtain s' where s': "register E J L b r (s, out) = Inr (s', out)"
    "kv L s' = (kv L s)(b := put_timer (reg_doc r) ?v (iso_text (due r)) (kv L s b))"
    using register_kv [OF L J E r] by blast
  have due: "four_digit_time (due r)" using r by (simp add: registration_ok_def)
  have ne: "reg_doc x \<noteq> iso_text t" if "registration_ok x" "four_digit_time t" for x t
    using that not_iso_text by (simp add: registration_ok_def)
  have marker: "kv L s' b (iso_text t) =
      (if due_ids (rs @ [r]) t = [] then None else Some (join_keys (CHR '';'') (due_ids (rs @ [r]) t)))"
    if t: "four_digit_time t" for t
  proof (cases "t = due r")
    case True
    have "kv L s' b (iso_text t) = Some ((case kv L s b (iso_text t) of Some m \<Rightarrow> m | None \<Rightarrow> []) @ reg_doc r @ '';'')"
      using ne [OF r t] unfolding s'(2) by (simp add: put_timer_def Let_def True)
    also have "\<dots> = Some (join_keys (CHR '';'') (due_ids rs t @ [reg_doc r]))"
      using refines_timers_marker [OF rs t] by simp
    finally show ?thesis by (simp add: due_ids_snoc True)
  next
    case False
    then have "iso_text t \<noteq> iso_text (due r)" using iso.enc_inject [OF t due] by simp
    then have "kv L s' b (iso_text t) = kv L s b (iso_text t)"
      using ne [OF r t] unfolding s'(2) by (simp add: put_timer_def Let_def)
    then show ?thesis using refines_timers_marker [OF rs t] False by (simp add: due_ids_snoc)
  qed
  have doc: "\<exists>value. kv L s' b (reg_doc x) = Some value
       \<and> timer_blob J value (reg_callback x) (reg_doc x) (iso_text (due x))"
    if x: "rs @ [r] = pre @ x # post" "reg_doc x \<notin> reg_doc ` set post" for x pre post
  proof (cases post rule: rev_cases)
    case Nil
    then show ?thesis
      using x ne [OF r due] timer_blob_written [OF J] r iso_text_chars [OF due]
      unfolding s'(2) registration_ok_def by (auto simp: put_timer_def Let_def)
  next
    case (snoc post' y)
    then have y: "rs = pre @ x # post'" "reg_doc x \<noteq> reg_doc r" "reg_doc x \<notin> reg_doc ` set post'"
      using x by auto
    then have "registration_ok x" using rs by (simp add: refines_timers_def)
    then have "kv L s' b (reg_doc x) = kv L s b (reg_doc x)"
      using ne [OF _ due] y unfolding s'(2) by (simp add: put_timer_def Let_def)
    then show ?thesis using refines_timers_doc [of J L b pre x post' s] rs y by simp
  qed
  have "\<forall>x \<in> set (rs @ [r]). registration_ok x" using r rs by (simp add: refines_timers_def)
  then show ?thesis using s'(1) marker doc unfolding refines_timers_def by blast
qed

lemma register_all_refines:
  assumes L: "reachable_cluster L" and J: "writes_string_objects J"
  shows "\<forall>r \<in> set qs. registration_ok r \<and> registration_texts E r \<Longrightarrow> refines_timers J L b rs s \<Longrightarrow>
     \<exists>s'. register_all E J L b qs (s, out) = Inr (s', out) \<and> refines_timers J L b (rs @ qs) s'"
proof (induction qs arbitrary: rs s)
  case Nil
  then show ?case by simp
next
  case (Cons q qs)
  obtain s1 where s1: "register E J L b q (s, out) = Inr (s1, out)" "refines_timers J L b (rs @ [q]) s1"
    using register_refines [OF L J] Cons.prems by (metis list.set_intros(1))
  then show ?case using Cons.IH [of "rs @ [q]" s1] Cons.prems by simp
qed

lemma refines_timers_empty: "(\<forall>t. four_digit_time t \<longrightarrow> kv L s b (iso_text t) = None) \<Longrightarrow> refines_timers J L b [] s"
  by (simp add: refines_timers_def due_ids_def)

lemma refines_timers_at:
  assumes "refines_timers J L b rs s" "four_digit_time t"
  shows "timers_at L s b t = due_ids rs t"
proof -
  have "\<forall>k \<in> set (due_ids rs t). CHR '';'' \<notin> set k"
    using assms(1) by (auto simp: refines_timers_def due_ids_def registration_ok_def)
  then show ?thesis
    using refines_timers_marker [OF assms] by (simp add: timers_at_def split_join_keys)
qed



text \<open>
  A timer value that reads as zero registers nothing and prints the id; a call made while the
  script is still being loaded, before the handle is in the isolate's slot, goes through a null
  pointer.
\<close>

theorem RegisterCallback_errors:
  assumes "ObjectToString E (Some (argument E args 0)) = Inr cb"
      "ObjectToString E (Some (argument E args 1)) = Inr doc_id"
      "ObjectToString E (Some (argument E args 2)) = Inr ts" "atoi (c_str ts) = Inr v"
  shows "(v = 0 \<longrightarrow> RegisterCallback E J L now data args (s, out) = Inr (s, out @ skip_message doc_id))
    \<and> (v \<noteq> 0 \<longrightarrow> four_digit_time (timer_instant now v) \<longrightarrow>
         RegisterCallback E J L now Null args (s, out) = Inl Null_deref)"
  using assms ConvertToISO8601_eq [OF assms(4)] by (simp add: RegisterCallback_def Let_def)

theorem RegisterCallback_errors_witness:
  "RegisterCallback ref_v8 ref_json ref_lcb 0 Null [''expired'', ''doc1'', ''5''] (ref_empty, []) = Inl Null_deref"
proof -
  have args: "ObjectToString ref_v8 (Some (argument ref_v8 [''expired'', ''doc1'', ''5''] 0)) = Inr ''expired''"
    "ObjectToString ref_v8 (Some (argument ref_v8 [''expired'', ''doc1'', ''5''] 1)) = Inr ''doc1''"
    "ObjectToString ref_v8 (Some (argument ref_v8 [''expired'', ''doc1'', ''5''] 2)) = Inr ''5''"
    "atoi (c_str ''5'') = Inr 5"
    by (simp_all add: argument_def ObjectToString_def ref_v8_def c_eval)
  show ?thesis
    using RegisterCallback_errors [OF args, of ref_json ref_lcb 0 Null ref_empty "[]"]
    by (simp add: timer_instant_def four_digit_time_def)
qed

end
