(* ===== verification/Mail.thy ===== *)
theory Mail
  imports Text Reference
begin

text \<open>
  \<open>PostMail\<close> and \<open>SendMail\<close> of worker.cc (the global \<open>sendmail\<close> of a handler): a form posted with
  libcurl, printed into a buffer of 1000 characters. The lemmas show when the form fits, what is
  posted, and when the fields can be told apart again.
\<close>

section \<open>libcurl\<close>

text \<open>
  libcurl is not in the repository: whether \<open>curl_easy_init\<close> gives a handle, a POST of fields to a
  URL with its result code (zero is \<open>CURLE_OK\<close>), and the text of an error code.
\<close>

record 'm curl =
  curl_easy_init :: "'m \<Rightarrow> bool"
  curl_easy_perform :: "'m \<Rightarrow> string \<Rightarrow> string \<Rightarrow> nat \<times> 'm"
  curl_easy_strerror :: "nat \<Rightarrow> string"

section \<open>Posting a mail\<close>

definition mail_url :: string where
  "mail_url = ''http://localhost:6061/sendmail/''"

definition mail_buf_size :: nat where
  "mail_buf_size = 1000"

definition mail_form :: "string \<Rightarrow> string \<Rightarrow> string \<Rightarrow> string \<Rightarrow> string" where
  "mail_form app_name mail_to subject body =
     ''app_name='' @ app_name @ ''&to='' @ mail_to @ ''&subject='' @ subject @ ''&body='' @ body"

text \<open>The state is that of the mail service and the text on the standard error.\<close>

definition PostMail ::
  "'m curl \<Rightarrow> string \<Rightarrow> string \<Rightarrow> string \<Rightarrow> string \<Rightarrow> 'm \<times> string \<Rightarrow> ('m \<times> string) result" where
  "PostMail C app_name mail_to subject body = (\<lambda>(m, err).
     if curl_easy_init C m then
       let buf = mail_form (c_str app_name) (c_str mail_to) (c_str subject) (c_str body)
       in if mail_buf_size \<le> length buf then Inl Buffer_overrun
          else let (res, m') = curl_easy_perform C m mail_url buf
               in Inr (m', if res \<noteq> 0
                           then err @ ''curl_easy_perform() failed: '' @ curl_easy_strerror C res @ newline
                           else err)
     else Inr (m, err))"

definition SendMail ::
  "'v v8 \<Rightarrow> 'm curl \<Rightarrow> string \<Rightarrow> 'v list \<Rightarrow> 'm \<times> string \<Rightarrow> ('m \<times> string) result" where
  "SendMail E C app_name args w =
     (let m_to = argument E args 0; m_subject = argument E args 1; m_body = argument E args 2
      in res_bind (guard (v8_is_string E m_to) Assertion_failed) (\<lambda>_.
         res_bind (guard (v8_is_string E m_subject) Assertion_failed) (\<lambda>_.
         res_bind (guard (v8_is_string E m_body) Assertion_failed) (\<lambda>_.
           let mail_to = ToCString (v8_utf8 E m_to);
               mail_subject = ToCString (v8_utf8 E m_subject);
               mail_body = ToCString (v8_utf8 E m_body)
           in PostMail C app_name mail_to mail_subject mail_body w))))"

section \<open>The form\<close>

lemma ToCString_c_str [simp]: "c_str (ToCString u) = ToCString u"
  by (cases u) (simp_all add: ToCString_def NUL_def)

lemma length_mail_form [bound_simps]:
  "length (mail_form a t s b) = length a + length t + length s + length b + 28"
  by (simp add: mail_form_def)

text \<open>A field of the form, and the form as the fields joined by ampersands.\<close>

lemma mail_form_fields:
  assumes "CHR ''&'' \<notin> set a" "CHR ''&'' \<notin> set t" "CHR ''&'' \<notin> set s" "CHR ''&'' \<notin> set b"
  shows "split (mail_form a t s b) (CHR ''&'') = [''app_name='' @ a, ''to='' @ t, ''subject='' @ s, ''body='' @ b]"
proof -
  have form: "mail_form a t s b =
      (''app_name='' @ a) @ CHR ''&'' # (''to='' @ t) @ CHR ''&'' # (''subject='' @ s) @ CHR ''&'' # (''body='' @ b)"
    by (simp add: mail_form_def)
  have free: "CHR ''&'' \<notin> set (''app_name='' @ a)" "CHR ''&'' \<notin> set (''to='' @ t)"
    "CHR ''&'' \<notin> set (''subject='' @ s)" "CHR ''&'' \<notin> set (''body='' @ b)" "''body='' @ b \<noteq> []"
    using assms by simp_all
  show ?thesis
    unfolding form split_item [OF free(1)] split_item [OF free(2)] split_item [OF free(3)] split_last_item [OF free(4,5)] ..
qed

text \<open>
  A mail with three string arguments and a usable handle is posted once, to the mail URL, as the
  form of the application name and the arguments, if the four texts have at most 971 characters
  together, and writes past the buffer otherwise; and where no text contains an ampersand, splitting
  the form at ampersands gives exactly the four fields back.
\<close>

theorem SendMail_correct:
  assumes "curl_easy_init C m"
    and "v8_is_string E (argument E args 0)" "v8_is_string E (argument E args 1)" "v8_is_string E (argument E args 2)"
    and "v8_utf8 E (argument E args 0) = Some mail_to" "v8_utf8 E (argument E args 1) = Some subject"
      "v8_utf8 E (argument E args 2) = Some body"
    and "NUL \<notin> set (app @ mail_to @ subject @ body)"
  shows "SendMail E C app args (m, err) =
      (if length app + length mail_to + length subject + length body \<le> 971
       then let (res, m') = curl_easy_perform C m mail_url (mail_form app mail_to subject body)
            in Inr (m', if res \<noteq> 0 then err @ ''curl_easy_perform() failed: '' @ curl_easy_strerror C res @ newline else err)
       else Inl Buffer_overrun)
    \<and> (CHR ''&'' \<notin> set (app @ mail_to @ subject @ body) \<longrightarrow>
         split (mail_form app mail_to subject body) (CHR ''&'')
           = [''app_name='' @ app, ''to='' @ mail_to, ''subject='' @ subject, ''body='' @ body])"
proof -
  have "SendMail E C app args (m, err) = PostMail C app mail_to subject body (m, err)"
    using assms by (simp add: SendMail_def ToCString_def)
  also have "\<dots> = (if length app + length mail_to + length subject + length body \<le> 971
       then let (res, m') = curl_easy_perform C m mail_url (mail_form app mail_to subject body)
            in Inr (m', if res \<noteq> 0 then err @ ''curl_easy_perform() failed: '' @ curl_easy_strerror C res @ newline else err)
       else Inl Buffer_overrun)"
    using assms by (auto simp: PostMail_def Let_def mail_buf_size_def length_mail_form)
  finally show ?thesis using mail_form_fields [of app mail_to subject body] by simp
qed

text \<open>A mail service that keeps the posted forms.\<close>

definition ref_curl :: "(string \<times> string) list curl" where
  "ref_curl = \<lparr>curl_easy_init = (\<lambda>_. True), curl_easy_perform = (\<lambda>m u f. (0, m @ [(u, f)])),
     curl_easy_strerror = (\<lambda>n. dec_of_nat n)\<rparr>"

theorem SendMail_correct_witness:
  "SendMail ref_v8 ref_curl ''app'' [''a@b.c'', ''hello'', ''world''] ([], []) =
     Inr ([(mail_url, mail_form ''app'' ''a@b.c'' ''hello'' ''world'')], [])"
proof -
  have 1: "curl_easy_init ref_curl []" by (simp add: ref_curl_def)
  have 2: "v8_is_string ref_v8 x" "v8_utf8 ref_v8 x = Some x" for x by (simp_all add: ref_v8_def)
  have 3: "argument ref_v8 [''a@b.c'', ''hello'', ''world''] 0 = ''a@b.c''"
    "argument ref_v8 [''a@b.c'', ''hello'', ''world''] 1 = ''hello''"
    "argument ref_v8 [''a@b.c'', ''hello'', ''world''] 2 = ''world''" by (simp_all add: argument_def)
  have 4: "NUL \<notin> set (''app'' @ ''a@b.c'' @ ''hello'' @ ''world'')" by (simp add: NUL_def)
  show ?thesis
    using SendMail_correct [of ref_curl "[]" ref_v8 "[''a@b.c'', ''hello'', ''world'']", OF 1 2(1) 2(1) 2(1) 2(2) 2(2) 2(2), of "''app''" "[]"] 4
    unfolding 3 by (simp add: ref_curl_def)
qed

text \<open>
  An argument that is not a string stops the process at the assertion before anything is posted;
  an argument that is missing is undefined, which is not a string.
\<close>

lemma SendMail_assertions:
  assumes "\<not> v8_is_string E (v8_undefined E)"
    and "\<exists>i < 3. i < length args \<longrightarrow> \<not> v8_is_string E (args ! i)"
  shows "SendMail E C app args w = Inl Assertion_failed"
proof -
  obtain i where i: "i < 3" "i < length args \<longrightarrow> \<not> v8_is_string E (args ! i)" using assms(2) by blast
  then have "\<not> v8_is_string E (argument E args i)" using assms(1) by (simp add: argument_def)
  moreover have "i = 0 \<or> i = 1 \<or> i = 2" using i(1) by auto
  ultimately show ?thesis by (auto simp: SendMail_def Let_def guard_def res_bind_def)
qed

end
