(* ===== verification/Debugger.thy ===== *)
theory Debugger
  imports Text Reference
begin

text \<open>
  The V8 debugger protocol of worker.cc: the message handlers that store a response and wake the
  waiting request, and the requests, which are threads that share a mutex, a condition variable and
  the flag \<open>data_ready\<close>. The handlers follow one contract, stated as a locale. The requests are
  programs of a step relation with every interleaving of threads, messages and finished updates.
\<close>

section \<open>The shared state\<close>

text \<open>
  The globals of worker.cc that the debugger uses, how often \<open>cv.notify_all\<close> was called, and the
  texts on the standard output and error.
\<close>

record debug_state =
  continue_result :: string
  evaluate_result :: string
  set_breakpoint_result :: string
  clear_breakpoint_result :: string
  list_breakpoint_result :: string
  data_ready :: bool
  notifications :: nat
  dbg_out :: string
  dbg_err :: string

definition debug_state_init :: debug_state where
  "debug_state_init = \<lparr>continue_result = [], evaluate_result = [], set_breakpoint_result = [],
     clear_breakpoint_result = [], list_breakpoint_result = [], data_ready = False, notifications = 0,
     dbg_out = [], dbg_err = []\<rparr>"

definition set_ready :: "debug_state \<Rightarrow> debug_state" where
  "set_ready d = d\<lparr>data_ready := True, notifications := Suc (notifications d)\<rparr>"

definition log_parse_failure :: "debug_state \<Rightarrow> debug_state" where
  "log_parse_failure d = d\<lparr>dbg_err := dbg_err d @ ''Failed to parse v8 debug JSON response'' @ newline\<rparr>"

definition log_message :: "string \<Rightarrow> string \<Rightarrow> debug_state \<Rightarrow> debug_state" where
  "log_message place m d = d\<lparr>dbg_out := dbg_out d @ place @ m @ newline\<rparr>"

section \<open>The handlers\<close>

text \<open>
  The traces on the standard output carry the line and the name of the function; the file name that
  one branch prints is given without the directory the compiler was called with. The sources
  search a message for the text of a JSON member with a string value.
\<close>

definition dq :: string where
  "dq = [CHR 0x22]"

definition command_text :: "string \<Rightarrow> string" where
  "command_text c = dq @ ''command'' @ dq @ '':'' @ dq @ c @ dq"

definition text_member :: string where
  "text_member = dq @ ''text'' @ dq @ '':'' @ dq"

definition type_member :: string where
  "type_member = dq @ ''type'' @ dq @ '':'' @ dq"

definition error_member :: string where
  "error_member = dq @ ''message'' @ dq @ '':'' @ dq @ ''Error''"

definition GetEvaluateResult :: "rapidjson \<Rightarrow> string \<Rightarrow> debug_state \<Rightarrow> (bool \<times> debug_state) result" where
  "GetEvaluateResult J message d =
     (let m = c_str message
      in if \<not> strstr m (command_text ''evaluate'') then Inr (False, d\<lparr>evaluate_result := m\<rparr>)
         else if strstr m text_member then Inr (False, d\<lparr>evaluate_result := m\<rparr>)
         else case rj_parse J m of
                None \<Rightarrow> Inr (False, log_parse_failure (d\<lparr>evaluate_result := m\<rparr>))
              | Some doc \<Rightarrow>
                  let d1 = log_message ''86GetEvaluateResultMESSAGE: '' m d
                  in res_bind (guard (is_object doc) Assertion_failed) (\<lambda>_.
                     Inr (True, set_ready (d1\<lparr>evaluate_result := m\<rparr>))))"

text \<open>\<open>sprintf\<close> into the buffer of ten characters.\<close>

definition breakpoint_buf_size :: nat where
  "breakpoint_buf_size = 10"

definition breakpoint_text :: "int \<Rightarrow> int \<Rightarrow> string" where
  "breakpoint_text line column = dec_of_int line @ '':'' @ dec_of_int column"

definition SetBreakpointResult :: "rapidjson \<Rightarrow> string \<Rightarrow> debug_state \<Rightarrow> (bool \<times> debug_state) result" where
  "SetBreakpointResult J message d =
     (let m = c_str message
      in if \<not> strstr m (command_text ''setbreakpoint'') then Inr (False, d\<lparr>set_breakpoint_result := m\<rparr>)
         else if strstr m type_member then Inr (False, d\<lparr>set_breakpoint_result := m\<rparr>)
         else case rj_parse J m of
                None \<Rightarrow> Inr (False, log_parse_failure (d\<lparr>set_breakpoint_result := m\<rparr>))
              | Some doc \<Rightarrow>
                  let d1 = log_message ''124SetBreakpointResultMESSAGE: '' m d
                  in res_bind (guard (is_object doc) Assertion_failed) (\<lambda>_.
                     res_bind (res_bind (json_member doc ''body'') (\<lambda>b. json_member b ''line'')) (\<lambda>line.
                     res_bind (res_bind (json_member doc ''body'') (\<lambda>b. json_member b ''column'')) (\<lambda>column.
                     res_bind (json_int line) (\<lambda>l. res_bind (json_int column) (\<lambda>c.
                       let buf = breakpoint_text l c
                       in if breakpoint_buf_size \<le> length buf then Inl Buffer_overrun
                          else Inr (True, set_ready (d1\<lparr>set_breakpoint_result := buf\<rparr>))))))))"

definition ContinueResult :: "rapidjson \<Rightarrow> string \<Rightarrow> debug_state \<Rightarrow> debug_state result" where
  "ContinueResult J message d =
     (let m = c_str message
      in if strstr m (command_text ''continue'') then Inr (d\<lparr>continue_result := m\<rparr>)
         else case rj_parse J m of
                None \<Rightarrow> Inr (log_parse_failure (d\<lparr>continue_result := m\<rparr>))
              | Some doc \<Rightarrow>
                  let d1 = log_message ''161ContinueResultMESSAGE: '' m d
                  in res_bind (guard (is_object doc) Assertion_failed) (\<lambda>_.
                     Inr (set_ready (d1\<lparr>continue_result := m\<rparr>))))"

definition ClearBreakpointResult :: "rapidjson \<Rightarrow> string \<Rightarrow> debug_state \<Rightarrow> debug_state result" where
  "ClearBreakpointResult J message d =
     (let m = c_str message
      in if \<not> strstr m (command_text ''clearbreakpoint'') then Inr (d\<lparr>clear_breakpoint_result := m\<rparr>)
         else if strstr m error_member then Inr (d\<lparr>clear_breakpoint_result := m\<rparr>)
         else case rj_parse J m of
                None \<Rightarrow> Inr (log_parse_failure (d\<lparr>clear_breakpoint_result := m\<rparr>))
              | Some doc \<Rightarrow>
                  let d1 = log_message ''220ClearBreakpointResultMESSAGE:'' m d
                  in res_bind (guard (is_object doc) Assertion_failed) (\<lambda>_.
                     Inr (set_ready (d1\<lparr>clear_breakpoint_result := m\<rparr>))))"

definition ListBreakpointResult :: "rapidjson \<Rightarrow> string \<Rightarrow> debug_state \<Rightarrow> debug_state result" where
  "ListBreakpointResult J message d =
     (let m = c_str message
      in if \<not> strstr m (command_text ''listbreakpoints'') then Inr (d\<lparr>list_breakpoint_result := m\<rparr>)
         else if strstr m error_member
         then Inr ((log_message ''252ListBreakpointResultworker.cc'' [] d)\<lparr>list_breakpoint_result := m\<rparr>)
         else case rj_parse J m of
                None \<Rightarrow> Inr (log_parse_failure (d\<lparr>list_breakpoint_result := m\<rparr>))
              | Some doc \<Rightarrow>
                  let d1 = log_message ''273ListBreakpointResultMESSAGE: '' m d
                  in res_bind (guard (is_object doc) Assertion_failed) (\<lambda>_.
                     Inr (set_ready (d1\<lparr>list_breakpoint_result := m\<rparr>))))"

text \<open>
  The functions registered with \<open>Debug::SetMessageHandler\<close>: the message is converted, and a failed
  conversion is a null pointer that \<open>strstr\<close> reads. The two boolean results are dropped.
\<close>

definition with_utf8 :: "string option \<Rightarrow> (string \<Rightarrow> 'a result) \<Rightarrow> 'a result" where
  "with_utf8 utf8 f = (case utf8 of None \<Rightarrow> Inl Null_deref | Some m \<Rightarrow> f m)"

definition DebugEvaluateHandler :: "rapidjson \<Rightarrow> string option \<Rightarrow> debug_state \<Rightarrow> debug_state result" where
  "DebugEvaluateHandler J utf8 d = with_utf8 utf8 (\<lambda>m. res_bind (GetEvaluateResult J m d) (\<lambda>(_, d'). Inr d'))"

definition DebugSetBreakpointHandler :: "rapidjson \<Rightarrow> string option \<Rightarrow> debug_state \<Rightarrow> debug_state result" where
  "DebugSetBreakpointHandler J utf8 d = with_utf8 utf8 (\<lambda>m. res_bind (SetBreakpointResult J m d) (\<lambda>(_, d'). Inr d'))"

definition DebugContinueHandler :: "rapidjson \<Rightarrow> string option \<Rightarrow> debug_state \<Rightarrow> debug_state result" where
  "DebugContinueHandler J utf8 d = with_utf8 utf8 (\<lambda>m. ContinueResult J m d)"

definition DebugClearBreakpointHandler :: "rapidjson \<Rightarrow> string option \<Rightarrow> debug_state \<Rightarrow> debug_state result" where
  "DebugClearBreakpointHandler J utf8 d = with_utf8 utf8 (\<lambda>m. ClearBreakpointResult J m d)"

definition DebugListBreakpointHandler :: "rapidjson \<Rightarrow> string option \<Rightarrow> debug_state \<Rightarrow> debug_state result" where
  "DebugListBreakpointHandler J utf8 d = with_utf8 utf8 (\<lambda>m. ListBreakpointResult J m d)"

section \<open>The contract of a message handler\<close>

text \<open>
  Every handler stores an answer for each message it survives, and raises the flag and notifies
  exactly for the messages it counts as the response. Whoever waits for the response can rely on it.
\<close>

locale message_handler =
  fixes handle :: "string option \<Rightarrow> debug_state \<Rightarrow> debug_state result"
    and result_of :: "debug_state \<Rightarrow> string"
    and wakes :: "string \<Rightarrow> bool"
    and answer :: "string \<Rightarrow> string"
  assumes handle_Inr:
    "handle u d = Inr d' \<Longrightarrow> \<exists>m. u = Some m \<and> result_of d' = answer m
       \<and> data_ready d' = (data_ready d \<or> wakes m)
       \<and> notifications d' = notifications d + (if wakes m then 1 else 0)"
begin

fun handle_all :: "string list \<Rightarrow> debug_state \<Rightarrow> debug_state result" where
  "handle_all [] d = Inr d"
| "handle_all (m # ms) d = res_bind (handle (Some m) d) (handle_all ms)"

lemma handle_message:
  "handle (Some m) d = Inr d' \<Longrightarrow> result_of d' = answer m \<and> data_ready d' = (data_ready d \<or> wakes m)
     \<and> notifications d' = notifications d + (if wakes m then 1 else 0)"
  using handle_Inr by blast

lemma handle_all_ready:
  "handle_all ms d = Inr d' \<Longrightarrow>
     data_ready d' = (data_ready d \<or> (\<exists>m \<in> set ms. wakes m))
     \<and> notifications d' = notifications d + length (filter wakes ms)"
proof (induction ms arbitrary: d)
  case Nil
  then show ?case by simp
next
  case (Cons m ms)
  then obtain d1 where d1: "handle (Some m) d = Inr d1" "handle_all ms d1 = Inr d'"
    by (auto simp: res_bind_eq_Inr_iff)
  then show ?case using Cons.IH [OF d1(2)] handle_message [OF d1(1)] by auto
qed

lemma handle_all_answer: "handle_all (ms @ [m]) d = Inr d' \<Longrightarrow> result_of d' = answer m"
  by (induction ms arbitrary: d) (auto simp: res_bind_eq_Inr_iff dest: handle_message)

end

definition is_response :: "rapidjson \<Rightarrow> string \<Rightarrow> bool" where
  "is_response J m = (case rj_parse J (c_str m) of Some doc \<Rightarrow> is_object doc | None \<Rightarrow> False)"

definition evaluate_wakes :: "rapidjson \<Rightarrow> string \<Rightarrow> bool" where
  "evaluate_wakes J m \<longleftrightarrow>
     strstr (c_str m) (command_text ''evaluate'') \<and> \<not> strstr (c_str m) text_member \<and> is_response J m"

definition set_breakpoint_wakes :: "rapidjson \<Rightarrow> string \<Rightarrow> bool" where
  "set_breakpoint_wakes J m \<longleftrightarrow>
     strstr (c_str m) (command_text ''setbreakpoint'') \<and> \<not> strstr (c_str m) type_member \<and> is_response J m"

definition continue_wakes :: "rapidjson \<Rightarrow> string \<Rightarrow> bool" where
  "continue_wakes J m \<longleftrightarrow> \<not> strstr (c_str m) (command_text ''continue'') \<and> is_response J m"

definition clear_wakes :: "rapidjson \<Rightarrow> string \<Rightarrow> bool" where
  "clear_wakes J m \<longleftrightarrow>
     strstr (c_str m) (command_text ''clearbreakpoint'') \<and> \<not> strstr (c_str m) error_member \<and> is_response J m"

definition list_wakes :: "rapidjson \<Rightarrow> string \<Rightarrow> bool" where
  "list_wakes J m \<longleftrightarrow>
     strstr (c_str m) (command_text ''listbreakpoints'') \<and> \<not> strstr (c_str m) error_member \<and> is_response J m"

text \<open>The position a set-breakpoint response names.\<close>

definition breakpoint_position :: "json \<Rightarrow> (int \<times> int) result" where
  "breakpoint_position doc =
     res_bind (json_member doc ''body'') (\<lambda>b.
     res_bind (json_member b ''line'') (\<lambda>line.
     res_bind (json_member b ''column'') (\<lambda>column.
     res_bind (json_int line) (\<lambda>l.
     res_bind (json_int column) (\<lambda>c. Inr (l, c))))))"

definition set_breakpoint_answer :: "rapidjson \<Rightarrow> string \<Rightarrow> string" where
  "set_breakpoint_answer J m =
     (if set_breakpoint_wakes J m
      then case rj_parse J (c_str m) of
             Some doc \<Rightarrow> (case breakpoint_position doc of Inr (l, c) \<Rightarrow> breakpoint_text l c | Inl e \<Rightarrow> [])
           | None \<Rightarrow> []
      else c_str m)"

lemmas debug_updates = set_ready_def log_parse_failure_def log_message_def with_utf8_def is_response_def Let_def

lemma SetBreakpointResult_eq:
  "SetBreakpointResult J m d =
     (if set_breakpoint_wakes J m
      then case rj_parse J (c_str m) of
             Some doc \<Rightarrow>
               res_bind (breakpoint_position doc) (\<lambda>(l, c).
                 if breakpoint_buf_size \<le> length (breakpoint_text l c) then Inl Buffer_overrun
                 else Inr (True, set_ready ((log_message ''124SetBreakpointResultMESSAGE: '' (c_str m) d)
                        \<lparr>set_breakpoint_result := breakpoint_text l c\<rparr>)))
           | None \<Rightarrow> Inl Assertion_failed
      else if strstr (c_str m) (command_text ''setbreakpoint'') \<and> \<not> strstr (c_str m) type_member
      then (case rj_parse J (c_str m) of
              None \<Rightarrow> Inr (False, log_parse_failure (d\<lparr>set_breakpoint_result := c_str m\<rparr>))
            | Some doc \<Rightarrow> Inl Assertion_failed)
      else Inr (False, d\<lparr>set_breakpoint_result := c_str m\<rparr>))"
proof -
  have "res_bind (res_bind (json_member doc ''body'') (\<lambda>b. json_member b ''line'')) (\<lambda>line.
        res_bind (res_bind (json_member doc ''body'') (\<lambda>b. json_member b ''column'')) (\<lambda>column.
        res_bind (json_int line) (\<lambda>l. res_bind (json_int column) (\<lambda>c. f l c))))
      = res_bind (breakpoint_position doc) (\<lambda>(l, c). f l c)" for doc and f :: "int \<Rightarrow> int \<Rightarrow> (bool \<times> debug_state) result"
    unfolding breakpoint_position_def by (cases "json_member doc ''body''") (simp_all add: res_bind_assoc)
  then show ?thesis
    by (auto simp: SetBreakpointResult_def set_breakpoint_wakes_def is_response_def Let_def split: option.splits)
qed

interpretation evaluate: message_handler "DebugEvaluateHandler J" evaluate_result "evaluate_wakes J" c_str
  by unfold_locales (auto simp: DebugEvaluateHandler_def GetEvaluateResult_def evaluate_wakes_def debug_updates
      guard_def split: option.splits if_splits)

interpretation set_breakpoint: message_handler "DebugSetBreakpointHandler J" set_breakpoint_result
  "set_breakpoint_wakes J" "set_breakpoint_answer J"
  by unfold_locales (auto simp: DebugSetBreakpointHandler_def SetBreakpointResult_eq set_breakpoint_answer_def
      set_ready_def log_parse_failure_def log_message_def with_utf8_def res_bind_eq_Inr_iff
      split: option.splits if_splits)

interpretation continue: message_handler "DebugContinueHandler J" continue_result "continue_wakes J" c_str
  by unfold_locales (auto simp: DebugContinueHandler_def ContinueResult_def continue_wakes_def debug_updates
      guard_def split: option.splits if_splits)

interpretation clear_breakpoint: message_handler "DebugClearBreakpointHandler J" clear_breakpoint_result "clear_wakes J" c_str
  by unfold_locales (auto simp: DebugClearBreakpointHandler_def ClearBreakpointResult_def clear_wakes_def debug_updates
      guard_def split: option.splits if_splits)

interpretation list_breakpoints: message_handler "DebugListBreakpointHandler J" list_breakpoint_result "list_wakes J" c_str
  by unfold_locales (auto simp: DebugListBreakpointHandler_def ListBreakpointResult_def list_wakes_def debug_updates
      guard_def split: option.splits if_splits)

section \<open>Requests\<close>

datatype request = ContinueReq | EvaluateReq | SetBreakpointReq | ClearBreakpointReq | ListBreakpointsReq

definition handler_of :: "rapidjson \<Rightarrow> request \<Rightarrow> string option \<Rightarrow> debug_state \<Rightarrow> debug_state result" where
  "handler_of J r =
     (case r of
        ContinueReq \<Rightarrow> DebugContinueHandler J
      | EvaluateReq \<Rightarrow> DebugEvaluateHandler J
      | SetBreakpointReq \<Rightarrow> DebugSetBreakpointHandler J
      | ClearBreakpointReq \<Rightarrow> DebugClearBreakpointHandler J
      | ListBreakpointsReq \<Rightarrow> DebugListBreakpointHandler J)"

definition result_of :: "request \<Rightarrow> debug_state \<Rightarrow> string" where
  "result_of r =
     (case r of
        ContinueReq \<Rightarrow> continue_result
      | EvaluateReq \<Rightarrow> evaluate_result
      | SetBreakpointReq \<Rightarrow> set_breakpoint_result
      | ClearBreakpointReq \<Rightarrow> clear_breakpoint_result
      | ListBreakpointsReq \<Rightarrow> list_breakpoint_result)"

definition wakes :: "rapidjson \<Rightarrow> request \<Rightarrow> string \<Rightarrow> bool" where
  "wakes J r =
     (case r of
        ContinueReq \<Rightarrow> continue_wakes J
      | EvaluateReq \<Rightarrow> evaluate_wakes J
      | SetBreakpointReq \<Rightarrow> set_breakpoint_wakes J
      | ClearBreakpointReq \<Rightarrow> clear_wakes J
      | ListBreakpointsReq \<Rightarrow> list_wakes J)"

definition answer_of :: "rapidjson \<Rightarrow> request \<Rightarrow> string \<Rightarrow> string" where
  "answer_of J r = (if r = SetBreakpointReq then set_breakpoint_answer J else c_str)"

interpretation request: message_handler "handler_of J r" "result_of r" "wakes J r" "answer_of J r"
  by (cases r; simp add: handler_of_def result_of_def wakes_def answer_of_def;
      rule continue.message_handler_axioms evaluate.message_handler_axioms set_breakpoint.message_handler_axioms
        clear_breakpoint.message_handler_axioms list_breakpoints.message_handler_axioms)

text \<open>
  The statements of a request, in the order of the code: the lock, the reset of the flag, the
  registration of the handler, the command, the wait and the returned text.
\<close>

datatype instr =
    Lock
  | ClearReady
  | SetMessageHandler request
  | SendCommand string
  | WaitReady
  | ReturnResult request

definition SendContinueRequest :: "string \<Rightarrow> instr list" where
  "SendContinueRequest command =
     [Lock, ClearReady, SetMessageHandler ContinueReq, SendCommand command, WaitReady, ReturnResult ContinueReq]"

definition SendEvaluateRequest :: "string \<Rightarrow> instr list" where
  "SendEvaluateRequest command =
     [Lock, ClearReady, SetMessageHandler EvaluateReq, SendCommand command, WaitReady, ReturnResult EvaluateReq]"

definition SendSetBreakpointRequest :: "string \<Rightarrow> instr list" where
  "SendSetBreakpointRequest command =
     [Lock, ClearReady, SetMessageHandler SetBreakpointReq, SendCommand command, WaitReady, ReturnResult SetBreakpointReq]"

definition SendClearBreakpointRequest :: "string \<Rightarrow> instr list" where
  "SendClearBreakpointRequest command =
     [Lock, ClearReady, SetMessageHandler ClearBreakpointReq, SendCommand command, WaitReady, ReturnResult ClearBreakpointReq]"

definition SendListBreakpointsRequest :: "string \<Rightarrow> instr list" where
  "SendListBreakpointsRequest command =
     [Lock, ClearReady, SetMessageHandler ListBreakpointsReq, SendCommand command, WaitReady, ReturnResult ListBreakpointsReq]"

definition SendLookupRequest :: "string \<Rightarrow> string" where
  "SendLookupRequest request = []"

definition SendBacktraceRequest :: "string \<Rightarrow> string" where
  "SendBacktraceRequest request = []"

definition SendFrameRequest :: "string \<Rightarrow> string" where
  "SendFrameRequest request = []"

definition SendSourceRequest :: "string \<Rightarrow> string" where
  "SendSourceRequest request = []"

definition program_of :: "request \<Rightarrow> string \<Rightarrow> instr list" where
  "program_of r =
     (case r of
        ContinueReq \<Rightarrow> SendContinueRequest
      | EvaluateReq \<Rightarrow> SendEvaluateRequest
      | SetBreakpointReq \<Rightarrow> SendSetBreakpointRequest
      | ClearBreakpointReq \<Rightarrow> SendClearBreakpointRequest
      | ListBreakpointsReq \<Rightarrow> SendListBreakpointsRequest)"

lemma program_of_eq:
  "program_of r c = [Lock, ClearReady, SetMessageHandler r, SendCommand c, WaitReady, ReturnResult r]"
  by (cases r) (simp_all add: program_of_def SendContinueRequest_def SendEvaluateRequest_def
    SendSetBreakpointRequest_def SendClearBreakpointRequest_def SendListBreakpointsRequest_def)

section \<open>The threads\<close>

text \<open>
  A thread runs a program; inside \<open>cv.wait\<close> it has found the flag false and still holds the mutex
  (\<open>Committed\<close>), is blocked with the mutex released, or is awake and needs the mutex again. The V8
  thread dispatches messages to the installed handler and finishes updates; neither takes the mutex.
  The requests are those of one worker: \<open>Debug::SetMessageHandler\<close> is per isolate, while the mutex, the
  flag and the result strings are globals of the process, which requests to another worker's isolate share. A
  finished thread has the text that its \<open>c_str\<close> pointer leads to at the return; the pointer is into a
  global string, so a later message can still change what the caller reads through it.
\<close>

datatype thread =
    Running "instr list"
  | Committed "instr list"
  | Blocked "instr list"
  | Woken "instr list"
  | Finished string

record dsys =
  dbg :: debug_state
  mutex :: "nat option"
  handler :: "request option"
  commands :: "16 word list list"
  threads :: "nat \<Rightarrow> thread"
  crashed :: "fault option"

fun wake :: "thread \<Rightarrow> thread" where
  "wake (Blocked p) = Woken p"
| "wake th = th"

definition notify_all :: "dsys \<Rightarrow> dsys" where
  "notify_all s = s\<lparr>threads := wake \<circ> threads s\<rparr>"

definition kBufferSize :: nat where
  "kBufferSize = 1000"

definition send_command :: "string \<Rightarrow> dsys \<Rightarrow> dsys result" where
  "send_command c s =
     res_bind (AsciiToUtf16 c (replicate kBufferSize 0)) (\<lambda>(buf, n). Inr (s\<lparr>commands := commands s @ [take n buf]\<rparr>))"

text \<open>A message runs the installed handler; the handler's notification wakes every blocked thread.\<close>

definition dispatch_message :: "rapidjson \<Rightarrow> string option \<Rightarrow> dsys \<Rightarrow> dsys" where
  "dispatch_message J u s =
     (case handler s of
        None \<Rightarrow> s
      | Some r \<Rightarrow>
          (case handler_of J r u (dbg s) of
             Inl e \<Rightarrow> s\<lparr>crashed := Some e\<rparr>
           | Inr d \<Rightarrow>
               let s' = s\<lparr>dbg := d\<rparr>
               in if notifications d = notifications (dbg s) then s' else notify_all s'))"

text \<open>The end of \<open>SendUpdate\<close> and \<open>SendDelete\<close>.\<close>

definition update_done :: "dsys \<Rightarrow> dsys" where
  "update_done s = notify_all (s\<lparr>dbg := set_ready (dbg s)\<rparr>)"

datatype label = Step nat | Message "string option" | UpdateDone | Spurious nat

inductive dstep :: "rapidjson \<Rightarrow> label \<Rightarrow> dsys \<Rightarrow> dsys \<Rightarrow> bool" for J where
  lock: "crashed s = None \<Longrightarrow> threads s t = Running (Lock # p) \<Longrightarrow> mutex s = None \<Longrightarrow>
    dstep J (Step t) s (s\<lparr>mutex := Some t, threads := (threads s)(t := Running p)\<rparr>)"
| clear: "crashed s = None \<Longrightarrow> threads s t = Running (ClearReady # p) \<Longrightarrow>
    dstep J (Step t) s (s\<lparr>dbg := (dbg s)\<lparr>data_ready := False\<rparr>, threads := (threads s)(t := Running p)\<rparr>)"
| install: "crashed s = None \<Longrightarrow> threads s t = Running (SetMessageHandler r # p) \<Longrightarrow>
    dstep J (Step t) s (s\<lparr>handler := Some r, threads := (threads s)(t := Running p)\<rparr>)"
| send: "crashed s = None \<Longrightarrow> threads s t = Running (SendCommand c # p) \<Longrightarrow> send_command c s = Inr s' \<Longrightarrow>
    dstep J (Step t) s (s'\<lparr>threads := (threads s)(t := Running p)\<rparr>)"
| send_fault: "crashed s = None \<Longrightarrow> threads s t = Running (SendCommand c # p) \<Longrightarrow> send_command c s = Inl e \<Longrightarrow>
    dstep J (Step t) s (s\<lparr>crashed := Some e\<rparr>)"
| ready: "crashed s = None \<Longrightarrow> threads s t = Running (WaitReady # p) \<Longrightarrow> data_ready (dbg s) \<Longrightarrow>
    dstep J (Step t) s (s\<lparr>threads := (threads s)(t := Running p)\<rparr>)"
| not_ready: "crashed s = None \<Longrightarrow> threads s t = Running (WaitReady # p) \<Longrightarrow> \<not> data_ready (dbg s) \<Longrightarrow>
    dstep J (Step t) s (s\<lparr>threads := (threads s)(t := Committed p)\<rparr>)"
| block: "crashed s = None \<Longrightarrow> threads s t = Committed p \<Longrightarrow>
    dstep J (Step t) s (s\<lparr>mutex := None, threads := (threads s)(t := Blocked p)\<rparr>)"
| relock: "crashed s = None \<Longrightarrow> threads s t = Woken p \<Longrightarrow> mutex s = None \<Longrightarrow>
    dstep J (Step t) s (s\<lparr>mutex := Some t, threads := (threads s)(t := Running (WaitReady # p))\<rparr>)"
| return: "crashed s = None \<Longrightarrow> threads s t = Running [ReturnResult r] \<Longrightarrow>
    dstep J (Step t) s (s\<lparr>mutex := None, threads := (threads s)(t := Finished (result_of r (dbg s)))\<rparr>)"
| spurious: "crashed s = None \<Longrightarrow> threads s t = Blocked p \<Longrightarrow>
    dstep J (Spurious t) s (s\<lparr>threads := (threads s)(t := Woken p)\<rparr>)"
| message: "crashed s = None \<Longrightarrow> dstep J (Message u) s (dispatch_message J u s)"
| update: "crashed s = None \<Longrightarrow> dstep J UpdateDone s (update_done s)"

inductive_cases dstepE: "dstep J l s s'"

text \<open>Every thread starts with the program of one request; a run is a sequence of labelled steps.\<close>

definition dinit :: "(nat \<Rightarrow> request \<times> string) \<Rightarrow> dsys" where
  "dinit req = \<lparr>dbg = debug_state_init, mutex = None, handler = None, commands = [],
     threads = (\<lambda>t. Running (program_of (fst (req t)) (snd (req t)))), crashed = None\<rparr>"

inductive druns :: "rapidjson \<Rightarrow> dsys \<Rightarrow> label list \<Rightarrow> dsys \<Rightarrow> bool" for J where
  druns_Nil: "druns J s [] s"
| druns_snoc: "druns J s ls s1 \<Longrightarrow> dstep J l s1 s2 \<Longrightarrow> druns J s (ls @ [l]) s2"

text \<open>The same steps as a function: a label determines the step.\<close>

definition exec_thread :: "nat \<Rightarrow> dsys \<Rightarrow> dsys option" where
  "exec_thread t s =
     (let continue_with = (\<lambda>th s'. Some (s'\<lparr>threads := (threads s)(t := th)\<rparr>))
      in case threads s t of
           Running (Lock # p) \<Rightarrow>
             if mutex s = None then continue_with (Running p) (s\<lparr>mutex := Some t\<rparr>) else None
         | Running (ClearReady # p) \<Rightarrow> continue_with (Running p) (s\<lparr>dbg := (dbg s)\<lparr>data_ready := False\<rparr>\<rparr>)
         | Running (SetMessageHandler r # p) \<Rightarrow> continue_with (Running p) (s\<lparr>handler := Some r\<rparr>)
         | Running (SendCommand c # p) \<Rightarrow>
             (case send_command c s of
                Inr s' \<Rightarrow> continue_with (Running p) s'
              | Inl e \<Rightarrow> Some (s\<lparr>crashed := Some e\<rparr>))
         | Running (WaitReady # p) \<Rightarrow>
             if data_ready (dbg s) then continue_with (Running p) s else continue_with (Committed p) s
         | Running [ReturnResult r] \<Rightarrow> continue_with (Finished (result_of r (dbg s))) (s\<lparr>mutex := None\<rparr>)
         | Committed p \<Rightarrow> continue_with (Blocked p) (s\<lparr>mutex := None\<rparr>)
         | Woken p \<Rightarrow>
             if mutex s = None then continue_with (Running (WaitReady # p)) (s\<lparr>mutex := Some t\<rparr>) else None
         | _ \<Rightarrow> None)"

definition exec :: "rapidjson \<Rightarrow> label \<Rightarrow> dsys \<Rightarrow> dsys option" where
  "exec J l s =
     (if crashed s \<noteq> None then None
      else case l of
             Step t \<Rightarrow> exec_thread t s
           | Message u \<Rightarrow> Some (dispatch_message J u s)
           | UpdateDone \<Rightarrow> Some (update_done s)
           | Spurious t \<Rightarrow>
               (case threads s t of Blocked p \<Rightarrow> Some (s\<lparr>threads := (threads s)(t := Woken p)\<rparr>) | _ \<Rightarrow> None))"

fun exec_all :: "rapidjson \<Rightarrow> label list \<Rightarrow> dsys \<Rightarrow> dsys option" where
  "exec_all J [] s = Some s"
| "exec_all J (l # ls) s = (case exec J l s of None \<Rightarrow> None | Some s' \<Rightarrow> exec_all J ls s')"

lemma exec_thread_dstep:
  assumes c: "crashed s = None" and e: "exec_thread t s = Some s'"
  shows "dstep J (Step t) s s'"
proof (cases "threads s t")
  case (Running q)
  show ?thesis
  proof (cases q)
    case Nil
    then show ?thesis using e Running by (simp add: exec_thread_def Let_def)
  next
    case (Cons i p)
    show ?thesis
      using e c Running Cons
      by (cases i; cases p)
        (auto simp: exec_thread_def Let_def split: if_splits sum.splits
          intro: dstep.intros)
  qed
qed (use e c in \<open>auto simp: exec_thread_def Let_def split: if_splits intro: dstep.intros\<close>)

lemma exec_iff_dstep: "exec J l s = Some s' \<longleftrightarrow> dstep J l s s'"
proof
  assume "exec J l s = Some s'"
  then show "dstep J l s s'"
    by (cases l) (auto simp: exec_def exec_thread_dstep split: if_splits thread.splits intro: dstep.intros)
next
  assume "dstep J l s s'"
  then show "exec J l s = Some s'"
    by (cases rule: dstep.cases) (simp_all add: exec_def exec_thread_def Let_def)
qed

lemma druns_append: "druns J s1 ks s2 \<Longrightarrow> druns J s ls s1 \<Longrightarrow> druns J s (ls @ ks) s2"
  by (induction rule: druns.induct) (auto simp flip: append_assoc intro: druns.intros)

lemma druns_Cons: "dstep J l s s1 \<Longrightarrow> druns J s1 ls s2 \<Longrightarrow> druns J s (l # ls) s2"
  using druns_append [of J s1 ls s2 s "[l]"] druns_snoc [OF druns_Nil, of J l s s1] by simp

lemma druns_ConsD:
  assumes "druns J s (l # ls) s2"
  shows "\<exists>s1. dstep J l s s1 \<and> druns J s1 ls s2"
  using assms
proof (induction s "l # ls" s2 arbitrary: ls rule: druns.induct)
  case (druns_snoc s ks s1 k s2)
  show ?case
  proof (cases ks)
    case Nil
    then have "s1 = s" "k = l" "ls = []" using druns_snoc(1,4) by (auto elim: druns.cases)
    then show ?thesis using druns_snoc(3) druns_Nil by blast
  next
    case (Cons a ks')
    then have "ls = ks' @ [k]" "a = l" using druns_snoc(4) by auto
    then show ?thesis using druns_snoc(2) [of ks'] druns_snoc(3) Cons druns.druns_snoc by blast
  qed
qed

lemma exec_all_druns: "exec_all J ls s = Some s' \<Longrightarrow> druns J s ls s'"
  by (induction ls arbitrary: s)
    (auto simp: exec_iff_dstep split: option.splits intro: druns_Nil druns_Cons)

section \<open>The mutex protects the requests\<close>

fun holds :: "thread \<Rightarrow> bool" where
  "holds (Running (Lock # p)) = False"
| "holds (Running p) = True"
| "holds (Committed p) = True"
| "holds th = False"

fun thread_ok :: "request \<Rightarrow> string \<Rightarrow> thread \<Rightarrow> bool" where
  "thread_ok r c (Running p) =
     (p \<in> set [program_of r c, tl (program_of r c), drop 2 (program_of r c), drop 3 (program_of r c),
               drop 4 (program_of r c), drop 5 (program_of r c)])"
| "thread_ok r c (Committed p) = (p = [ReturnResult r])"
| "thread_ok r c (Blocked p) = (p = [ReturnResult r])"
| "thread_ok r c (Woken p) = (p = [ReturnResult r])"
| "thread_ok r c (Finished v) = True"

definition dinv :: "(nat \<Rightarrow> request \<times> string) \<Rightarrow> dsys \<Rightarrow> bool" where
  "dinv req s \<longleftrightarrow>
     (\<forall>t. holds (threads s t) \<longleftrightarrow> mutex s = Some t)
   \<and> (\<forall>t. thread_ok (fst (req t)) (snd (req t)) (threads s t))"

lemma wake_keeps [simp]: "holds (wake th) = holds th" "thread_ok r c (wake th) = thread_ok r c th"
  by (cases th; simp)+

lemma dinv_init: "dinv req (dinit req)"
  by (simp add: dinv_def dinit_def program_of_eq)

lemma dinv_thread: "dinv req s \<Longrightarrow> thread_ok (fst (req t)) (snd (req t)) (threads s t)"
  by (simp add: dinv_def)

text \<open>A step of a thread that changes nothing but its own state and the mutex.\<close>

lemma dinv_move:
  assumes "dinv req s" "threads s t = th" "holds th \<or> mutex s = None"
    and "thread_ok (fst (req t)) (snd (req t)) th'"
    and "mutex s' = (if holds th' then Some t else None)" "threads s' = (threads s)(t := th')"
  shows "dinv req s'"
proof -
  have "mutex s = Some t \<or> mutex s = None" using assms(1-3) by (auto simp: dinv_def)
  then have "holds (threads s' u) \<longleftrightarrow> mutex s' = Some u" for u
    using assms(1,5,6) by (cases "u = t") (auto simp: dinv_def)
  then show ?thesis using assms(1,4,6) by (simp add: dinv_def)
qed

lemma dispatch_message_frame:
  "mutex (dispatch_message J u s) = mutex s"
  "threads (dispatch_message J u s) t = threads s t \<or> threads (dispatch_message J u s) t = wake (threads s t)"
  "handler (dispatch_message J u s) = handler s"
  by (auto simp: dispatch_message_def notify_all_def Let_def split: option.splits sum.splits)

lemma dinv_wake:
  assumes "dinv req s" "mutex s' = mutex s" "\<And>t. threads s' t = threads s t \<or> threads s' t = wake (threads s t)"
  shows "dinv req s'"
proof -
  have "holds (threads s' t) = holds (threads s t)
      \<and> thread_ok (fst (req t)) (snd (req t)) (threads s' t) = thread_ok (fst (req t)) (snd (req t)) (threads s t)" for t
    using assms(3) [of t] by auto
  then show ?thesis using assms(1,2) by (simp add: dinv_def)
qed

lemma send_command_frame:
  "send_command c s = Inr s' \<Longrightarrow>
     s' = s\<lparr>commands := commands s @ [map utf16_unit (c_str c)]\<rparr> \<and> length (c_str c) < kBufferSize"
  by (auto simp: send_command_def AsciiToUtf16_def AsciiToUtf16_loop_eq split: if_splits)

text \<open>A running thread past its lock owns the mutex, and what follows the statement is a rest of its program.\<close>

lemma dinv_running:
  assumes "dinv req s" "threads s t = Running (i # p)"
  shows "i \<noteq> Lock \<Longrightarrow> mutex s = Some t"
    and "(\<And>r. i \<noteq> ReturnResult r) \<Longrightarrow> thread_ok (fst (req t)) (snd (req t)) (Running p) \<and> holds (Running p)"
    and "i = WaitReady \<Longrightarrow> p = [ReturnResult (fst (req t))]"
proof -
  have "holds (Running (i # p)) \<longleftrightarrow> mutex s = Some t" using assms by (metis dinv_def)
  then show "i \<noteq> Lock \<Longrightarrow> mutex s = Some t" by (cases i) auto
  show "(\<And>r. i \<noteq> ReturnResult r) \<Longrightarrow> thread_ok (fst (req t)) (snd (req t)) (Running p) \<and> holds (Running p)"
    "i = WaitReady \<Longrightarrow> p = [ReturnResult (fst (req t))]"
    using dinv_thread [OF assms(1), of t] assms(2) by (auto simp: program_of_eq)
qed

lemma dinv_step:
  assumes "dstep J l s s'" "dinv req s"
  shows "dinv req s'"
  using assms(1)
proof (cases rule: dstep.cases)
  case (message u)
  then show ?thesis using dinv_wake [OF assms(2)] dispatch_message_frame by blast
next
  case update
  then show ?thesis using dinv_wake [OF assms(2), of s'] by (simp add: update_done_def notify_all_def)
next
  case (send_fault t c p e)
  then show ?thesis using assms(2) by (simp add: dinv_def)
next
  case (spurious t p)
  then show ?thesis using dinv_wake [OF assms(2), of s'] by auto
next
  case (send t c p s1)
  then show ?thesis using dinv_running [OF assms(2) send(4)] send_command_frame [OF send(5)]
    by (intro dinv_move [OF assms(2) send(4), of "Running p"]) auto
next
  case (relock t p)
  then show ?thesis using dinv_thread [OF assms(2), of t]
    by (intro dinv_move [OF assms(2) relock(4)]) (auto simp: program_of_eq)
next
  case (block t p)
  then show ?thesis using dinv_thread [OF assms(2), of t]
    by (intro dinv_move [OF assms(2) block(4)]) auto
next
  case (not_ready t p)
  then show ?thesis using dinv_running [OF assms(2) not_ready(4)]
    by (intro dinv_move [OF assms(2) not_ready(4), of "Committed p"]) auto
next
  case (return t r)
  then show ?thesis by (intro dinv_move [OF assms(2) return(4)]) auto
qed (use dinv_running [OF assms(2)] in \<open>auto intro!: dinv_move [OF assms(2)]\<close>)

lemma dinv_druns: "druns J s ls s' \<Longrightarrow> dinv req s \<Longrightarrow> dinv req s'"
  by (induction rule: druns.induct) (auto intro: dinv_step)

text \<open>
  C13. In every interleaving of any number of requests, messages and updates, at most one thread is
  between its lock and its wait or return, and it is the owner of the mutex; every thread is at a
  statement of its own request.
\<close>

theorem request_mutual_exclusion:
  assumes "druns J (dinit req) ls s"
  shows "(\<forall>t u. holds (threads s t) \<longrightarrow> holds (threads s u) \<longrightarrow> t = u)
    \<and> (\<forall>t. holds (threads s t) \<longleftrightarrow> mutex s = Some t)
    \<and> (\<forall>t. thread_ok (fst (req t)) (snd (req t)) (threads s t))"
  using dinv_druns [OF assms dinv_init] by (auto simp: dinv_def)

theorem request_mutual_exclusion_witness:
  "\<exists>s. druns ref_json (dinit (\<lambda>t. (EvaluateReq, ''x''))) [Step 0, UpdateDone] s
     \<and> (\<forall>t. holds (threads s t) \<longleftrightarrow> mutex s = Some t) \<and> mutex s = Some 0"
proof -
  have "\<exists>s. exec_all ref_json [Step 0, UpdateDone] (dinit (\<lambda>t. (EvaluateReq, ''x''))) = Some s \<and> mutex s = Some 0"
    by (simp add: exec_def exec_thread_def dinit_def program_of_eq update_done_def notify_all_def Let_def)
  then obtain s where "druns ref_json (dinit (\<lambda>t. (EvaluateReq, ''x''))) [Step 0, UpdateDone] s" "mutex s = Some 0"
    using exec_all_druns by blast
  then show ?thesis using request_mutual_exclusion by blast
qed

section \<open>Responses\<close>

text \<open>Apart from the set-breakpoint handler, a handler survives every response it waits for.\<close>

lemma handler_of_response:
  assumes "wakes J r m" "r \<noteq> SetBreakpointReq"
  shows "\<exists>d'. handler_of J r (Some m) d = Inr d' \<and> result_of r d' = c_str m \<and> data_ready d'
    \<and> notifications d' \<noteq> notifications d"
proof -
  have "\<exists>d'. handler_of J r (Some m) d = Inr d'"
    using assms
    by (cases r) (auto simp: wakes_def handler_of_def continue_wakes_def evaluate_wakes_def clear_wakes_def list_wakes_def
      DebugContinueHandler_def ContinueResult_def DebugEvaluateHandler_def GetEvaluateResult_def
      DebugClearBreakpointHandler_def ClearBreakpointResult_def DebugListBreakpointHandler_def ListBreakpointResult_def
      with_utf8_def is_response_def Let_def split: option.splits)
  then obtain d' where d': "handler_of J r (Some m) d = Inr d'" by blast
  then show ?thesis using request.handle_message [OF d'] assms by (auto simp: answer_of_def)
qed

text \<open>The state in which a request waits, its command sent and the mutex released.\<close>

lemma request_blocks:
  assumes c: "length (c_str c) < kBufferSize" and req: "req t = (r, c)"
  shows "\<exists>s. druns J (dinit req) [Step t, Step t, Step t, Step t, Step t] s \<and> threads s t = Committed [ReturnResult r]
    \<and> handler s = Some r \<and> crashed s = None \<and> commands s = [map utf16_unit (c_str c)]
    \<and> dbg s = debug_state_init \<and> mutex s = Some t"
proof -
  have "send_command c s = Inr (s\<lparr>commands := commands s @ [map utf16_unit (c_str c)]\<rparr>)" for s
    using c by (simp add: send_command_def AsciiToUtf16_def AsciiToUtf16_loop_eq)
  then have "\<exists>s. exec_all J [Step t, Step t, Step t, Step t, Step t] (dinit req) = Some s \<and> threads s t = Committed [ReturnResult r]
    \<and> handler s = Some r \<and> crashed s = None \<and> commands s = [map utf16_unit (c_str c)]
    \<and> dbg s = debug_state_init \<and> mutex s = Some t"
    using req by (simp add: exec_def exec_thread_def dinit_def program_of_eq debug_state_init_def Let_def)
  then show ?thesis using exec_all_druns by blast
qed

text \<open>A blocked request that the response of its handler reaches returns that response.\<close>

lemma blocked_delivery:
  assumes s: "crashed s = None" "threads s t = Blocked [ReturnResult r]" "handler s = Some r" "mutex s = None"
    and m: "wakes J r m" "r \<noteq> SetBreakpointReq"
  shows "\<exists>s'. druns J s [Message (Some m), Step t, Step t, Step t] s' \<and> threads s' t = Finished (c_str m)
    \<and> mutex s' = None \<and> commands s' = commands s"
proof -
  obtain d' where d': "handler_of J r (Some m) (dbg s) = Inr d'" "result_of r d' = c_str m" "data_ready d'"
    "notifications d' \<noteq> notifications (dbg s)"
    using handler_of_response [OF m, of "dbg s"] by blast
  then have "\<exists>s'. exec_all J [Message (Some m), Step t, Step t, Step t] s = Some s' \<and> threads s' t = Finished (c_str m)
      \<and> mutex s' = None \<and> commands s' = commands s"
    using s by (simp add: exec_def exec_thread_def dispatch_message_def notify_all_def Let_def)
  then show ?thesis using exec_all_druns by blast
qed

text \<open>
  A request past the clearing of the flag, and the labels of a run in which no message and no update comes and
  no request of its own clears the flag.
\<close>

fun started :: "thread \<Rightarrow> bool" where
  "started (Running p) = (ClearReady \<notin> set p)"
| "started th = True"

definition continues :: "(nat \<Rightarrow> thread) \<Rightarrow> label \<Rightarrow> bool" where
  "continues ths l = (case l of Step u \<Rightarrow> started (ths u) | Spurious u \<Rightarrow> True | _ \<Rightarrow> False)"

text \<open>What a request goes through once it is woken: the mutex, the test of the flag, the return.\<close>

definition answered_stages :: "request \<Rightarrow> string \<Rightarrow> thread list" where
  "answered_stages r v =
     [Woken [ReturnResult r], Running [WaitReady, ReturnResult r], Running [ReturnResult r], Finished v]"

definition answered_inv ::
  "(nat \<Rightarrow> request \<times> string) \<Rightarrow> nat \<Rightarrow> request \<Rightarrow> string \<Rightarrow> (nat \<Rightarrow> thread) \<Rightarrow> nat \<Rightarrow> dsys \<Rightarrow> bool" where
  "answered_inv req t r v ths n s \<longleftrightarrow>
     crashed s = None \<and> data_ready (dbg s) \<and> result_of r (dbg s) = v \<and> dinv req s
   \<and> (\<forall>u. started (ths u) \<or> holds (threads s u) \<longrightarrow> started (threads s u))
   \<and> n \<le> 3 \<and> threads s t = answered_stages r v ! n"

lemma started_ok: "thread_ok r c (Running (i # p)) \<Longrightarrow> started (Running (i # p)) \<Longrightarrow> i \<noteq> Lock \<and> i \<noteq> ClearReady"
  by (auto simp: program_of_eq)

lemma stages_cases:
  assumes "n \<le> 3" "th = answered_stages r v ! n"
  obtains "n = 0" "th = Woken [ReturnResult r]" | "n = 1" "th = Running [WaitReady, ReturnResult r]"
    | "n = 2" "th = Running [ReturnResult r]" | "n = 3" "th = Finished v"
proof -
  have "n = 0 \<or> n = 1 \<or> n = 2 \<or> n = 3" using assms(1) by auto
  then show thesis using that assms(2) by (auto simp: answered_stages_def)
qed

lemma answered_step:
  assumes inv: "answered_inv req t r v ths n s" and step: "dstep J l s s'" and l: "continues ths l"
    and fits: "\<forall>u. length (c_str (snd (req u))) < kBufferSize"
  shows "answered_inv req t r v ths (n + (if l = Step t then 1 else 0)) s'"
proof -
  have d: "dinv req s'" using dinv_step [OF step] inv by (simp add: answered_inv_def)
  have ok: "thread_ok (fst (req u)) (snd (req u)) (threads s u)" for u
    using inv dinv_thread by (simp add: answered_inv_def)
  have n: "n \<le> 3" "threads s t = answered_stages r v ! n" using inv by (simp_all add: answered_inv_def)
  have run: "started (threads s u)" if "l = Step u" for u using l that inv by (auto simp: continues_def answered_inv_def)
  have own: "threads s' t = answered_stages r v ! (n + 1) \<and> n < 3" if t: "l = Step t"
    using step n inv t by (cases rule: stages_cases [OF n])
      (auto simp: answered_stages_def answered_inv_def numeral_eq_Suc elim!: dstep.cases)
  have nb: "threads s t \<noteq> Blocked p" for p by (cases rule: stages_cases [OF n]) simp_all
  have other: "threads s' t = threads s t" if lt: "l \<noteq> Step t"
    using step
  proof (cases rule: dstep.cases)
    case (spurious u p)
    then show ?thesis using nb by (cases "u = t") auto
  qed (use lt l in \<open>auto simp: continues_def\<close>)
  have dbg: "dbg s' = dbg s"
    using step
  proof (cases rule: dstep.cases)
    case (clear u p)
    then show ?thesis using run by fastforce
  next
    case (send u c p s1)
    then show ?thesis using send_command_frame [OF send(5)] by simp
  qed (use l in \<open>simp_all add: continues_def\<close>)
  have "crashed s' = None"
    using step
  proof (cases rule: dstep.cases)
    case (send u c p s1)
    then show ?thesis using send_command_frame [OF send(5)] by simp
  next
    case (send_fault u c p e)
    then have "c = snd (req u)" using ok [of u] by (auto simp: program_of_eq)
    then show ?thesis using send_fault(5) fits by (simp add: send_command_def AsciiToUtf16_def AsciiToUtf16_loop_eq)
  qed (use l in \<open>simp_all add: continues_def\<close>)
  moreover have "started (threads s' u)" if "started (ths u) \<or> holds (threads s' u)" for u
    using step
  proof (cases rule: dstep.cases)
    case (lock w p)
    then have "started (Running (Lock # p))" "thread_ok (fst (req w)) (snd (req w)) (Running (Lock # p))"
      using run [of w] ok [of w] by simp_all
    then show ?thesis using started_ok by blast
  next
    case (send w c p s1)
    then show ?thesis using run [of w] that inv by (auto simp: answered_inv_def)
  next
    case (relock w p)
    then show ?thesis using ok [of w] that inv by (auto simp: answered_inv_def)
  qed (use run that inv l in \<open>auto simp: answered_inv_def continues_def split: if_splits\<close>)
  ultimately show ?thesis using inv d dbg own other n by (auto simp: answered_inv_def)
qed

lemma answered_runs:
  assumes fits: "\<forall>u. length (c_str (snd (req u))) < kBufferSize" and run: "druns J s ks s'"
    and inv: "answered_inv req t r v ths 0 s" and ks: "\<forall>l \<in> set ks. continues ths l"
  shows "answered_inv req t r v ths (count_list ks (Step t)) s'"
  using run inv ks
proof (induction rule: druns.induct)
  case (druns_Nil s)
  then show ?case by simp
next
  case (druns_snoc s ks s1 l s2)
  then show ?case using answered_step [OF _ druns_snoc(2) _ fits, of t r v ths "count_list ks (Step t)"]
    by (cases "l = Step t") simp_all
qed

text \<open>A thread that owns the mutex and is past the clearing of the flag has a step.\<close>

lemma owner_steps:
  assumes "crashed s = None" "dinv req s" "holds (threads s u)" "\<forall>u. length (c_str (snd (req u))) < kBufferSize"
  shows "\<exists>s'. dstep J (Step u) s s'"
proof -
  have ok: "thread_ok (fst (req u)) (snd (req u)) (threads s u)" using dinv_thread [OF assms(2)] .
  have "send_command (snd (req u)) s \<noteq> Inl e" for e
    using assms(4) by (simp add: send_command_def AsciiToUtf16_def AsciiToUtf16_loop_eq)
  then have "\<exists>s'. exec J (Step u) s = Some s'"
    using ok assms(1,3) by (cases "threads s u")
      (auto simp: program_of_eq exec_def exec_thread_def Let_def split: sum.splits)
  then show ?thesis by (simp add: exec_iff_dstep)
qed

lemma answered_progress:
  assumes inv: "answered_inv req t r v ths n s" and n: "n < 3"
    and fits: "\<forall>u. length (c_str (snd (req u))) < kBufferSize"
  shows "\<exists>u s'. dstep J (Step u) s s' \<and> (u = t \<or> mutex s = Some u \<and> started (threads s u))"
proof (cases "mutex s")
  case (Some u)
  then have "holds (threads s u)" "started (threads s u)" using inv by (auto simp: answered_inv_def dinv_def)
  then show ?thesis using owner_steps [of s req u J] inv fits Some by (auto simp: answered_inv_def)
next
  case None
  have "dinv req s" and st: "n \<le> 3" "threads s t = answered_stages r v ! n" using inv by (simp_all add: answered_inv_def)
  then have "\<not> holds (threads s t)" using None unfolding dinv_def by (metis option.distinct(1))
  then have "threads s t = Woken [ReturnResult r]" using n by (cases rule: stages_cases [OF st]) simp_all
  then show ?thesis using relock [OF _ _ None] inv by (metis answered_inv_def)
qed

text \<open>The commands of the requests that are past their sending.\<close>

fun sent :: "thread \<Rightarrow> bool" where
  "sent (Running p) = (\<forall>c. SendCommand c \<notin> set p)"
| "sent th = True"

lemma wake_sent [simp]: "sent (wake th) = sent th"
  by (cases th) simp_all

lemma sent_commands:
  assumes "druns J (dinit req) ls s" "sent (threads s t)"
  shows "map utf16_unit (c_str (snd (req t))) \<in> set (commands s)"
  using assms
proof (induction "dinit req" ls s rule: druns.induct)
  case druns_Nil
  then show ?case by (simp add: dinit_def program_of_eq)
next
  case (druns_snoc ls s1 l s2)
  have inv: "dinv req s1" using dinv_druns [OF druns_snoc(1) dinv_init] .
  have ok: "thread_ok (fst (req u)) (snd (req u)) (threads s1 u)" for u by (rule dinv_thread [OF inv])
  from druns_snoc(3) show ?case
  proof (cases rule: dstep.cases)
    case (send u c p s')
    then show ?thesis using druns_snoc(2,4) send_command_frame [OF send(5)] ok [of u]
      by (cases "u = t") (auto simp: program_of_eq)
  next
    case (message u)
    have "threads s2 t = threads s1 t \<or> threads s2 t = wake (threads s1 t)"
      using message dispatch_message_frame(2) by blast
    then have "sent (threads s1 t)" using druns_snoc(4) by auto
    moreover have "commands s2 = commands s1"
      using message by (auto simp: dispatch_message_def notify_all_def Let_def split: option.splits sum.splits)
    ultimately show ?thesis using druns_snoc(2) by simp
  next
    case (lock u p)
    then show ?thesis using druns_snoc(2,4) ok [of u] by (cases "u = t") (auto simp: program_of_eq)
  next
    case (not_ready u p)
    then show ?thesis using druns_snoc(2,4) ok [of u] by (cases "u = t") (auto simp: program_of_eq)
  qed (use druns_snoc(2,4) in \<open>auto simp: update_done_def notify_all_def split: if_splits\<close>)
qed

text \<open>
  C14. A continue, evaluate, clear or list request is answered in every interleaving: in any state that any
  run of requests, messages and updates reaches and in which the request is blocked with its own handler installed,
  its command has been sent, in UTF-16; and once a response it waits for is dispatched, then in every
  continuation without a further message or update, and in which no other request gets to clear the flag, its
  first three steps take it from the wake-up over the mutex and the test of the flag to the return of exactly
  the text of that response. Until it has returned, it or the owner of the mutex has a step. All commands fit
  the buffer, and no owner of the mutex is about to clear the flag when the response comes.
\<close>

theorem request_answered:
  assumes run: "druns J (dinit req) ls s" and fits: "\<forall>u. length (c_str (snd (req u))) < kBufferSize"
    and req: "req t = (r, c)" "r \<noteq> SetBreakpointReq"
    and blocked: "threads s t = Blocked [ReturnResult r]" "handler s = Some r"
    and quiet: "\<forall>u. holds (threads s u) \<longrightarrow> started (threads s u)"
    and response: "wakes J r m" "dstep J (Message (Some m)) s s1"
    and rest: "druns J s1 ks s2" "\<forall>l \<in> set ks. continues (threads s1) l"
  shows "map utf16_unit (c_str c) \<in> set (commands s)
    \<and> count_list ks (Step t) \<le> 3
    \<and> threads s2 t = [Woken [ReturnResult r], Running [WaitReady, ReturnResult r], Running [ReturnResult r],
                      Finished (c_str m)] ! count_list ks (Step t)
    \<and> (count_list ks (Step t) < 3 \<longrightarrow>
         (\<exists>u s3. dstep J (Step u) s2 s3 \<and> (u = t \<or> mutex s2 = Some u \<and> started (threads s2 u))))"
proof -
  have dinv: "dinv req s" using dinv_druns [OF run dinv_init] .
  have s1: "s1 = dispatch_message J (Some m) s" "crashed s = None" using response(2) by (auto elim: dstep.cases)
  obtain d' where d': "handler_of J r (Some m) (dbg s) = Inr d'" "result_of r d' = c_str m" "data_ready d'"
    "notifications d' \<noteq> notifications (dbg s)"
    using handler_of_response [OF response(1) req(2), of "dbg s"] by blast
  then have s1': "s1 = notify_all (s\<lparr>dbg := d'\<rparr>)" by (simp add: s1(1) dispatch_message_def blocked(2))
  have wake: "started (wake th) = started th" for th by (cases th) simp_all
  have "started (threads s1 u)" if "holds (threads s1 u)" for u
    using that quiet by (simp add: s1' notify_all_def wake)
  then have "answered_inv req t r (c_str m) (threads s1) 0 s1"
    using dinv_step [OF response(2) dinv] d'(2,3) s1(2) blocked(1)
    by (auto simp: answered_inv_def answered_stages_def) (auto simp: s1' notify_all_def)
  note inv = answered_runs [OF fits rest(1) this rest(2)]
  have "map utf16_unit (c_str c) \<in> set (commands s)" using sent_commands [OF run, of t] blocked(1) req(1) by simp
  then show ?thesis using inv answered_progress [OF inv _ fits, of J] by (simp add: answered_inv_def answered_stages_def)
qed

text \<open>A response in the form V8 sends it, and a parser that reads it.\<close>

definition ref_response :: string where
  "ref_response = ''{'' @ command_text ''evaluate'' @ ''}''"

definition ref_debug_json :: rapidjson where
  "ref_debug_json = ref_json\<lparr>rj_parse := (\<lambda>t. Some (JObj []))\<rparr>"

lemma strstr_evalI: "h = a @ n @ b \<Longrightarrow> strstr h n"
  by (simp add: strstr_iff) blast

lemma ref_response_wakes: "wakes ref_debug_json EvaluateReq ref_response" "c_str ref_response = ref_response"
proof -
  show c: "c_str ref_response = ref_response"
    by (rule c_str_id) (simp add: ref_response_def command_text_def dq_def NUL_def)
  have "strstr ref_response (command_text ''evaluate'')"
    by (rule strstr_evalI [of _ "''{''" _ "''}''"]) (simp add: ref_response_def)
  moreover have "\<not> strstr ref_response text_member"
    by (simp add: strstr_def ref_response_def command_text_def text_member_def dq_def)
  ultimately show "wakes ref_debug_json EvaluateReq ref_response"
    by (simp add: wakes_def evaluate_wakes_def c is_response_def ref_debug_json_def is_object_def)
qed

theorem request_answered_witness:
  "\<exists>s s1 s2. druns ref_debug_json (dinit (\<lambda>t. (EvaluateReq, ''x''))) (replicate 6 (Step 0)) s
    \<and> dstep ref_debug_json (Message (Some ref_response)) s s1
    \<and> druns ref_debug_json s1 [Step 0, Step 0, Step 0] s2 \<and> threads s2 0 = Finished ref_response
    \<and> map utf16_unit (c_str ''x'') \<in> set (commands s)"
proof -
  let ?req = "\<lambda>t::nat. (EvaluateReq, ''x'')" and ?J = ref_debug_json
  have fits: "length (c_str ''x'') < kBufferSize" by (simp add: c_eval kBufferSize_def)
  obtain s0 where s0: "druns ?J (dinit ?req) [Step 0, Step 0, Step 0, Step 0, Step 0] s0" "threads s0 0 = Committed [ReturnResult EvaluateReq]"
    "handler s0 = Some EvaluateReq" "crashed s0 = None" "mutex s0 = Some 0"
    using request_blocks [of "''x''" ?req 0 EvaluateReq ?J] fits by blast
  let ?s = "s0\<lparr>mutex := None, threads := (threads s0)(0 := Blocked [ReturnResult EvaluateReq])\<rparr>"
  have s: "druns ?J (dinit ?req) ([Step 0, Step 0, Step 0, Step 0, Step 0] @ [Step 0]) ?s"
    by (rule druns_snoc [OF s0(1) block [OF s0(4,2)]])
  obtain s2 where "druns ?J ?s [Message (Some ref_response), Step 0, Step 0, Step 0] s2"
    using blocked_delivery [of ?s 0 EvaluateReq ?J ref_response] s0 ref_response_wakes by auto
  then obtain s1 where s1: "dstep ?J (Message (Some ref_response)) ?s s1" "druns ?J s1 [Step 0, Step 0, Step 0] s2"
    using druns_ConsD by blast
  have quiet: "\<forall>u. holds (threads ?s u) \<longrightarrow> started (threads ?s u)"
    using dinv_druns [OF s dinv_init] by (simp add: dinv_def)
  have ks: "\<forall>l \<in> set [Step 0, Step 0, Step 0]. continues (threads s1) l"
    using s1(1) unfolding exec_iff_dstep [symmetric]
    by (auto simp: exec_def continues_def dispatch_message_def notify_all_def Let_def split: option.splits sum.splits if_splits)
  have h: "\<forall>u. length (c_str (snd (?req u))) < kBufferSize" "?req 0 = (EvaluateReq, ''x'')" "EvaluateReq \<noteq> SetBreakpointReq"
    "threads ?s 0 = Blocked [ReturnResult EvaluateReq]" "handler ?s = Some EvaluateReq" using fits s0(3) by simp_all
  have "threads s2 0 = Finished ref_response" "map utf16_unit (c_str ''x'') \<in> set (commands ?s)"
    using request_answered [OF s h quiet ref_response_wakes(1) s1 ks] by (simp_all add: ref_response_wakes(2) numeral_eq_Suc)
  moreover have "replicate 6 (Step 0) = [Step 0, Step 0, Step 0, Step 0, Step 0] @ [Step 0]" by (simp add: numeral_eq_Suc)
  ultimately show ?thesis using s s1 by (intro exI [of _ ?s] exI [of _ s1] exI [of _ s2]) (simp only: simp_thms)
qed

text \<open>
  Every message handler keeps one contract: a message it survives is stored as the answer of its
  request (the text, or the position for a breakpoint), and the flag and the condition variable are
  touched exactly when the message passes the handler's tests.
\<close>

theorem message_handler_contract:
  assumes "handler_of J r u d = Inr d'"
  shows "\<exists>m. u = Some m \<and> result_of r d' = answer_of J r m
    \<and> data_ready d' = (data_ready d \<or> wakes J r m)
    \<and> notifications d' = notifications d + (if wakes J r m then 1 else 0)"
  by (rule request.handle_Inr [OF assms])

theorem message_handler_contract_witness:
  "\<exists>d'. handler_of ref_debug_json EvaluateReq (Some ref_response) debug_state_init = Inr d' \<and> data_ready d'
     \<and> result_of EvaluateReq d' = ref_response"
proof -
  obtain d' where d': "handler_of ref_debug_json EvaluateReq (Some ref_response) debug_state_init = Inr d'"
    using handler_of_response [OF ref_response_wakes(1)] by blast
  then show ?thesis
    using message_handler_contract [OF d'] ref_response_wakes by (auto simp: answer_of_def)
qed

section \<open>What the handlers miss\<close>

text \<open>
  A message with a \<open>"type":"\<close> member never completes a set-breakpoint request, and a message with
  \<open>"command":"continue"\<close> never completes a continue request: the text is stored, but the flag stays
  down and nobody is notified.
\<close>

theorem responses_ignored:
  "(strstr (c_str m) type_member \<longrightarrow> SetBreakpointResult J m d = Inr (False, d\<lparr>set_breakpoint_result := c_str m\<rparr>))
   \<and> (strstr (c_str m) (command_text ''continue'') \<longrightarrow> ContinueResult J m d = Inr (d\<lparr>continue_result := c_str m\<rparr>))"
  by (simp add: SetBreakpointResult_def ContinueResult_def Let_def)

theorem responses_ignored_witness:
  "ContinueResult ref_json (command_text ''continue'') debug_state_init
     = Inr (debug_state_init\<lparr>continue_result := command_text ''continue''\<rparr>)"
proof -
  have c: "c_str (command_text ''continue'') = command_text ''continue''"
    by (rule c_str_id) (simp add: command_text_def dq_def NUL_def)
  have "strstr (c_str (command_text ''continue'')) (command_text ''continue'')"
    unfolding c by (rule strstr_evalI [of _ "[]" _ "[]"]) simp
  then show ?thesis
    using responses_ignored [of "command_text ''continue''" ref_json debug_state_init] unfolding c by blast
qed

text \<open>
  A set-breakpoint response that passes the tests and names a line and a column is printed as
  \<open>line:column\<close> if that has at most nine characters, and overruns the buffer of ten otherwise.
\<close>

theorem SetBreakpointResult_position:
  assumes "set_breakpoint_wakes J m" "rj_parse J (c_str m) = Some doc" "breakpoint_position doc = Inr (l, c)"
  shows "SetBreakpointResult J m d =
    (if length (dec_of_int l) + length (dec_of_int c) \<le> 8
     then Inr (True, set_ready ((log_message ''124SetBreakpointResultMESSAGE: '' (c_str m) d)
        \<lparr>set_breakpoint_result := dec_of_int l @ '':'' @ dec_of_int c\<rparr>))
     else Inl Buffer_overrun)"
  using assms by (auto simp: SetBreakpointResult_eq breakpoint_buf_size_def breakpoint_text_def)

definition position_doc :: "int \<Rightarrow> int \<Rightarrow> json" where
  "position_doc l c = JObj [(''body'', JObj [(''line'', JInt l), (''column'', JInt c)])]"

theorem SetBreakpointResult_position_witness:
  "SetBreakpointResult (ref_json\<lparr>rj_parse := (\<lambda>t. Some (position_doc 12345 6789))\<rparr>) (command_text ''setbreakpoint'') debug_state_init
     = Inl Buffer_overrun"
proof -
  let ?J = "ref_json\<lparr>rj_parse := (\<lambda>t. Some (position_doc 12345 6789))\<rparr>" and ?m = "command_text ''setbreakpoint''"
  have c: "c_str ?m = ?m" by (rule c_str_id) (simp add: command_text_def dq_def NUL_def)
  have "strstr ?m ?m" by (rule strstr_evalI [of _ "[]" _ "[]"]) simp
  moreover have "\<not> strstr ?m type_member" by (simp add: strstr_def command_text_def type_member_def dq_def)
  ultimately have "set_breakpoint_wakes ?J ?m"
    by (simp add: set_breakpoint_wakes_def c is_response_def position_doc_def is_object_def)
  moreover have "breakpoint_position (position_doc 12345 6789) = Inr (12345, 6789)"
    by (simp add: breakpoint_position_def position_doc_def json_member_def json_int_def)
  moreover have "\<not> length (dec_of_int 12345) + length (dec_of_int 6789) \<le> 8"
    using length_dec_of_nat_le_iff [of 4 12345] length_dec_of_nat_le_iff [of 3 6789] by (simp add: dec_of_int_def)
  ultimately show ?thesis
    using SetBreakpointResult_position [of ?J ?m "position_doc 12345 6789" 12345 6789 debug_state_init] by simp
qed

text \<open>
  While nothing but set-breakpoint requests are made and every message has the type member, the flag
  stays down and no request gets past its wait.
\<close>

definition breakpoint_label :: "label \<Rightarrow> bool" where
  "breakpoint_label l =
     (case l of
        Message (Some m) \<Rightarrow> strstr (c_str m) type_member
      | UpdateDone \<Rightarrow> False
      | _ \<Rightarrow> True)"

fun waiting :: "thread \<Rightarrow> bool" where
  "waiting (Running p) = (WaitReady \<in> set p)"
| "waiting (Finished v) = False"
| "waiting th = True"

definition stuck_inv :: "dsys \<Rightarrow> bool" where
  "stuck_inv s \<longleftrightarrow> \<not> data_ready (dbg s) \<and> handler s \<in> {None, Some SetBreakpointReq} \<and> (\<forall>t. waiting (threads s t))"

lemma wake_waiting [simp]: "waiting (wake th) = waiting th"
  by (cases th) auto

lemma stuck_message:
  assumes "stuck_inv s" "breakpoint_label (Message u)"
  shows "stuck_inv (dispatch_message J u s)"
proof -
  have "\<not> data_ready (dbg (dispatch_message J u s))"
  proof (cases "handler s")
    case (Some r)
    then have r: "r = SetBreakpointReq" using assms(1) by (auto simp: stuck_inv_def)
    show ?thesis
    proof (cases "handler_of J r u (dbg s)")
      case (Inr d)
      then obtain m where m: "u = Some m" "data_ready d = (data_ready (dbg s) \<or> wakes J r m)"
        using request.handle_Inr by blast
      have "\<not> wakes J r m" using assms(2) m(1) r by (simp add: breakpoint_label_def wakes_def set_breakpoint_wakes_def)
      then show ?thesis
        using m assms(1) Some Inr by (simp add: dispatch_message_def notify_all_def Let_def stuck_inv_def)
    qed (use assms(1) Some in \<open>simp add: dispatch_message_def stuck_inv_def\<close>)
  qed (use assms(1) in \<open>simp add: dispatch_message_def stuck_inv_def\<close>)
  moreover have "waiting (threads (dispatch_message J u s) t)" for t
    using dispatch_message_frame(2) [of J u s t] assms(1) by (auto simp: stuck_inv_def)
  ultimately show ?thesis using assms(1) by (simp add: stuck_inv_def dispatch_message_frame(3))
qed

lemma stuck_step:
  assumes "dstep J l s s'" "breakpoint_label l" "stuck_inv s" "dinv req s" "\<forall>t. fst (req t) = SetBreakpointReq"
  shows "stuck_inv s'"
  using assms(1)
proof (cases rule: dstep.cases)
  case (message u)
  then show ?thesis using stuck_message assms(2,3) by simp
next
  case (send t c p s1)
  then show ?thesis using assms(3) send_command_frame [OF send(5)] by (auto simp: stuck_inv_def dest!: spec [of _ t])
next
  case (install t r p)
  moreover have "r = SetBreakpointReq"
    using dinv_thread [OF assms(4), of t] assms(5) install by (auto simp: program_of_eq)
  ultimately show ?thesis using assms(3) by (auto simp: stuck_inv_def dest!: spec [of _ t])
next
  case (return t r)
  then have "waiting (Running [ReturnResult r])" using assms(3) by (metis stuck_inv_def)
  then show ?thesis by simp
next
  case (lock t p)
  then have "waiting (Running (Lock # p))" using assms(3) by (metis stuck_inv_def)
  then show ?thesis using lock assms(3) by (auto simp: stuck_inv_def)
next
  case (clear t p)
  then have "waiting (Running (ClearReady # p))" using assms(3) by (metis stuck_inv_def)
  then show ?thesis using clear assms(3) by (auto simp: stuck_inv_def)
qed (use assms(2,3) in \<open>auto simp: stuck_inv_def breakpoint_label_def\<close>)

text \<open>
  As long as only set-breakpoint requests are made, no update finishes and every message has a
  \<open>"type":"\<close> member, as every response of V8 has, no set-breakpoint request ever returns, in any
  interleaving.
\<close>

theorem set_breakpoint_never_returns:
  assumes "druns J (dinit req) ls s" "\<forall>t. fst (req t) = SetBreakpointReq" "\<forall>l \<in> set ls. breakpoint_label l"
  shows "\<forall>t v. threads s t \<noteq> Finished v"
proof -
  have "stuck_inv s"
    using assms(1,3)
  proof (induction "dinit req" ls s rule: druns.induct)
    case druns_Nil
    then show ?case by (simp add: stuck_inv_def dinit_def debug_state_init_def program_of_eq)
  next
    case (druns_snoc ls s1 l s2)
    then show ?case using stuck_step [OF druns_snoc(3)] dinv_druns [OF druns_snoc(1) dinv_init] assms(2) by simp
  qed
  then show ?thesis by (metis stuck_inv_def waiting.simps(2))
qed

theorem set_breakpoint_never_returns_witness:
  "\<exists>s. druns ref_json (dinit (\<lambda>t. (SetBreakpointReq, ''x''))) [Step 0, Message (Some type_member)] s
    \<and> (\<forall>t v. threads s t \<noteq> Finished v)"
proof -
  have "\<exists>s. exec_all ref_json [Step 0, Message (Some type_member)] (dinit (\<lambda>t. (SetBreakpointReq, ''x''))) = Some s"
    by (simp add: exec_def exec_thread_def dinit_def program_of_eq dispatch_message_def Let_def)
  then obtain s where s: "druns ref_json (dinit (\<lambda>t. (SetBreakpointReq, ''x''))) [Step 0, Message (Some type_member)] s"
    using exec_all_druns by blast
  have "c_str type_member = type_member" by (rule c_str_id) (simp add: type_member_def dq_def NUL_def)
  then have "strstr (c_str type_member) type_member" using strstr_evalI [of type_member "[]" type_member "[]"] by simp
  then show ?thesis using set_breakpoint_never_returns [OF s] s by (auto simp: breakpoint_label_def)
qed

section \<open>Wake-ups\<close>

text \<open>
  The flag is raised without the mutex, so a response can arrive between the test of the flag and
  the release of the mutex: then the request is blocked although its response is stored and the flag
  is up, it has no step of its own, and only another message, another update or a spurious wake-up
  can free it.
\<close>

theorem lost_wakeup:
  assumes "length (c_str c) < kBufferSize" "req t = (r, c)" "wakes J r m" "r \<noteq> SetBreakpointReq"
  shows "\<exists>ls s. druns J (dinit req) ls s \<and> threads s t = Blocked [ReturnResult r] \<and> data_ready (dbg s)
    \<and> result_of r (dbg s) = c_str m \<and> (\<forall>s'. \<not> dstep J (Step t) s s')"
proof -
  obtain s where s: "druns J (dinit req) [Step t, Step t, Step t, Step t, Step t] s"
    "threads s t = Committed [ReturnResult r]" "handler s = Some r" "crashed s = None"
    using request_blocks [of c req t r J] assms(1,2) by blast
  obtain d' where d': "handler_of J r (Some m) (dbg s) = Inr d'" "result_of r d' = c_str m" "data_ready d'"
    "notifications d' \<noteq> notifications (dbg s)"
    using handler_of_response [OF assms(3,4), of "dbg s"] by blast
  let ?s = "notify_all (s\<lparr>dbg := d'\<rparr>)"
  let ?b = "?s\<lparr>mutex := None, threads := (threads ?s)(t := Blocked [ReturnResult r])\<rparr>"
  have "exec_all J [Message (Some m), Step t] s = Some ?b"
    using s d' by (simp add: exec_def exec_thread_def dispatch_message_def notify_all_def Let_def)
  then have "druns J (dinit req) ([Step t, Step t, Step t, Step t, Step t] @ [Message (Some m), Step t]) ?b"
    using exec_all_druns druns_append s(1) by blast
  moreover have "\<not> dstep J (Step t) ?b s'" for s'
    unfolding exec_iff_dstep [symmetric] by (simp add: exec_def exec_thread_def Let_def)
  moreover have "threads ?b t = Blocked [ReturnResult r]" "data_ready (dbg ?b)" "result_of r (dbg ?b) = c_str m"
    using d' by (simp_all add: notify_all_def)
  ultimately show ?thesis by blast
qed

theorem lost_wakeup_witness:
  "\<exists>ls s. druns ref_debug_json (dinit (\<lambda>t. (EvaluateReq, ''x''))) ls s \<and> threads s 0 = Blocked [ReturnResult EvaluateReq]
    \<and> data_ready (dbg s) \<and> result_of EvaluateReq (dbg s) = ref_response
    \<and> (\<forall>s'. \<not> dstep ref_debug_json (Step 0) s s')"
proof -
  have "length (c_str ''x'') < kBufferSize" by (simp add: c_eval kBufferSize_def)
  then show ?thesis
    using lost_wakeup [of "''x''" "\<lambda>t. (EvaluateReq, ''x'')" 0 EvaluateReq ref_debug_json ref_response]
      ref_response_wakes by simp
qed

text \<open>
  A finished update raises the same flag: a request that is blocked when an update finishes returns
  whatever its result variable held before, here the empty text, without any response.
\<close>

theorem update_completes_request:
  assumes "length (c_str c) < kBufferSize" "req t = (r, c)"
  shows "\<exists>s. druns J (dinit req) (replicate 6 (Step t) @ UpdateDone # replicate 3 (Step t)) s
    \<and> threads s t = Finished []"
proof -
  obtain s where s: "druns J (dinit req) [Step t, Step t, Step t, Step t, Step t] s"
    "threads s t = Committed [ReturnResult r]" "crashed s = None" "dbg s = debug_state_init"
    using request_blocks [of c req t r J] assms by blast
  have "\<exists>s'. exec_all J [Step t, UpdateDone, Step t, Step t, Step t] s = Some s'
      \<and> threads s' t = Finished (result_of r (set_ready debug_state_init))"
    using s by (simp add: exec_def exec_thread_def update_done_def notify_all_def set_ready_def Let_def)
  moreover have "result_of r (set_ready debug_state_init) = []"
    by (cases r) (simp_all add: result_of_def set_ready_def debug_state_init_def)
  ultimately obtain s' where s': "druns J s [Step t, UpdateDone, Step t, Step t, Step t] s'" "threads s' t = Finished []"
    using exec_all_druns by fastforce
  then have "druns J (dinit req) ([Step t, Step t, Step t, Step t, Step t] @ [Step t, UpdateDone, Step t, Step t, Step t]) s'"
    using druns_append s(1) by blast
  then show ?thesis using s'(2) by (auto simp: numeral_eq_Suc)
qed

theorem update_completes_request_witness:
  "\<exists>s. druns ref_json (dinit (\<lambda>t. (SetBreakpointReq, ''x''))) (replicate 6 (Step 0) @ UpdateDone # replicate 3 (Step 0)) s
    \<and> threads s 0 = Finished []"
  using update_completes_request [of "''x''" "\<lambda>t. (SetBreakpointReq, ''x'')" 0 SetBreakpointReq ref_json]
  by (simp add: c_eval kBufferSize_def)

end
