(* ===== verification/Isolate.thy ===== *)
theory Isolate
  imports Timer N1qlBinding QueueBinding HttpBinding Mail Debugger Preprocess Deployment
begin

text \<open>
  A worker's isolate: the engine that runs a handler, the state the C++ side keeps, and the calls a
  running handler makes back into it. The engine is V8, so what a script does is a parameter; every
  call it makes to a function or an object that the worker installed is dispatched to the definition
  of that callback.
\<close>

section \<open>Handlers as interactions\<close>

text \<open>
  A call of JavaScript code is a finite interaction: it asks for host calls, continues with each reply
  and ends with the new state of its heap and the exception, if one was thrown.
\<close>

datatype 'v host_call =
    Log "'v list"
  | RegisterTimer "'v list"
  | Mail "'v list"
  | GetProperty host_object "'v name"
  | SetProperty host_object "'v name" 'v
  | DeleteProperty host_object "'v name"

datatype 'v host_reply = Undefined | Unhandled | Value 'v | HostValue host_object | Flag bool | Exception

datatype ('h, 'v) js =
    Ends 'h "try_catch option"
  | Calls "'v host_call" "'v host_reply \<Rightarrow> ('h, 'v) js"

text \<open>An argument of a call: a value, where an empty handle is \<open>None\<close>, or an installed object.\<close>

datatype 'v argument = Arg "'v option" | ArgObject host_object

record ('h, 'v) engine =
  js_compile :: "'h \<Rightarrow> string \<Rightarrow> try_catch + ('h, 'v) js"
  js_global :: "'h \<Rightarrow> string \<Rightarrow> 'v option"
  js_is_function :: "'v \<Rightarrow> bool"
  js_call :: "'h \<Rightarrow> 'v \<Rightarrow> 'v argument list \<Rightarrow> ('h, 'v) js"
  js_parse_exception :: "string \<Rightarrow> try_catch"
  js_debug_messages :: "'h \<Rightarrow> string option list"
  js_new_context :: 'h
  js_terminate :: "'h \<Rightarrow> 'h"

text \<open>
  \<open>V8::TerminateExecution\<close> leaves a request in the isolate, which the engine honours where JavaScript runs
  the next time: \<open>js_terminate\<close>. A request that arrives while code runs ends that code with an exception,
  which is one of the interactions the code can have.
\<close>

text \<open>
  The libraries together: the engine and its values, rapidjson, libcouchbase, hiredis and libcurl, the
  files the process can read, the bytes of a \<open>std::string\<close> object and the byte order of the host.
\<close>

record ('h, 'v, 's, 'r, 'm) libs =
  lib_engine :: "('h, 'v) engine"
  lib_v8 :: "'v v8"
  lib_json :: rapidjson
  lib_lcb :: "'s lcb"
  lib_redis :: "'r hiredis"
  lib_curl :: "'m curl"
  lib_files :: "string \<rightharpoonup> string"
  lib_string_bytes :: "string \<Rightarrow> string"
  lib_little_endian :: bool

section \<open>The state\<close>

text \<open>
  The members of \<open>Worker\<close>, with the context's heap, the objects bound in it and slot 1 of the isolate.
  A pointer member that the constructor may leave alone starts indeterminate; an unset persistent
  handle is \<open>None\<close>.
\<close>

record ('h, 'v) Worker =
  context_heap :: 'h
  context_globals :: globals
  isolate_data1 :: "string pointer"
  on_update :: "'v option"
  on_delete :: "'v option"
  on_http_get :: "'v option"
  on_http_post :: "'v option"
  cb_instance :: string
  script_to_execute :: string
  table_index :: int
  app_name :: string
  start_debug_flag :: bool
  last_exception :: string
  bucket_handle :: "Bucket pointer"
  n1ql_handle :: "N1QL pointer"
  queue_handle :: "Queue pointer"
  http_response_handle :: HTTPResponse

text \<open>
  What the worker shares with the outside: the cluster, the redis server, the mail service, the clock,
  the output streams, the debugger's globals with the installed message handler, and the two globals
  of the cluster's address.
\<close>

record ('s, 'r, 'm) world =
  cluster :: 's
  redis :: 'r
  mail :: 'm
  clock :: int
  stdout :: string
  stderr :: string
  debugger :: debug_state
  debug_handler :: "request option"
  cb_cluster_endpoint :: string
  cb_cluster_bucket :: string

type_synonym ('h, 'v, 's, 'r, 'm) state = "('h, 'v) Worker \<times> ('s, 'r, 'm) world"

section \<open>Host calls\<close>

text \<open>The reply to a property callback's outcome: an interceptor that set nothing is passed over.\<close>

fun reply_of :: "'v outcome \<Rightarrow> 'v host_reply" where
  "reply_of NotSet = Unhandled"
| "reply_of (Returned x) = Value x"
| "reply_of Threw = Exception"

fun flag_reply_of :: "bool outcome \<Rightarrow> 'v host_reply" where
  "flag_reply_of NotSet = Unhandled"
| "flag_reply_of (Returned b) = Flag b"
| "flag_reply_of Threw = Exception"

fun object_reply_of :: "host_object outcome \<Rightarrow> 'v host_reply" where
  "object_reply_of NotSet = Unhandled"
| "object_reply_of (Returned obj) = HostValue obj"
| "object_reply_of Threw = Exception"

definition get_property ::
  "('h, 'v, 's, 'r, 'm) libs \<Rightarrow> host_object \<Rightarrow> 'v name \<Rightarrow> ('h, 'v, 's, 'r, 'm) state
     \<Rightarrow> ('v host_reply \<times> ('h, 'v, 's, 'r, 'm) state) result" where
  "get_property L obj n = (\<lambda>(w, x).
     case obj_handlers obj of
       BucketHandlers \<Rightarrow>
         res_bind (BucketGet (lib_v8 L) (lib_lcb L) n obj (cluster x)) (\<lambda>(oc, s). Inr (reply_of oc, w, x\<lparr>cluster := s\<rparr>))
     | N1QLHandlers \<Rightarrow>
         res_bind (N1QLEnumGetCall (lib_v8 L) (lib_lcb L) n obj (cluster x)) (\<lambda>(oc, s). Inr (reply_of oc, w, x\<lparr>cluster := s\<rparr>))
     | QueueHandlers \<Rightarrow>
         res_bind (QueueGetCall (lib_v8 L) (lib_redis L) (lib_string_bytes L) n obj (redis x))
           (\<lambda>(oc, r). Inr (reply_of oc, w, x\<lparr>redis := r\<rparr>))
     | HTTPResponseHandlers \<Rightarrow> res_bind (HTTPResponseGet (lib_v8 L) n obj) (\<lambda>oc. Inr (object_reply_of oc, w, x))
     | HTTPBodyHandlers \<Rightarrow> Inr (Unhandled, w, x))"

definition set_property ::
  "('h, 'v, 's, 'r, 'm) libs \<Rightarrow> host_object \<Rightarrow> 'v name \<Rightarrow> 'v \<Rightarrow> ('h, 'v, 's, 'r, 'm) state
     \<Rightarrow> ('v host_reply \<times> ('h, 'v, 's, 'r, 'm) state) result" where
  "set_property L obj n v = (\<lambda>(w, x).
     case obj_handlers obj of
       BucketHandlers \<Rightarrow>
         res_bind (BucketSet (lib_v8 L) (lib_lcb L) (lib_little_endian L) n v obj (cluster x))
           (\<lambda>(oc, s). Inr (reply_of oc, w, x\<lparr>cluster := s\<rparr>))
     | HTTPBodyHandlers \<Rightarrow>
         res_bind (HTTPBodySet (lib_v8 L) n v obj (http_response_handle w))
           (\<lambda>(oc, hr). Inr (reply_of oc, w\<lparr>http_response_handle := hr\<rparr>, x))
     | _ \<Rightarrow> Inr (Unhandled, w, x))"

definition delete_property ::
  "('h, 'v, 's, 'r, 'm) libs \<Rightarrow> host_object \<Rightarrow> 'v name \<Rightarrow> ('h, 'v, 's, 'r, 'm) state
     \<Rightarrow> ('v host_reply \<times> ('h, 'v, 's, 'r, 'm) state) result" where
  "delete_property L obj n = (\<lambda>(w, x).
     case obj_handlers obj of
       BucketHandlers \<Rightarrow>
         res_bind (BucketDelete (lib_v8 L) (lib_lcb L) n obj (cluster x))
           (\<lambda>(oc, s). Inr (flag_reply_of oc, w, x\<lparr>cluster := s\<rparr>))
     | _ \<Rightarrow> Inr (Unhandled, w, x))"

definition host_dispatch ::
  "('h, 'v, 's, 'r, 'm) libs \<Rightarrow> 'v host_call \<Rightarrow> ('h, 'v, 's, 'r, 'm) state
     \<Rightarrow> ('v host_reply \<times> ('h, 'v, 's, 'r, 'm) state) result" where
  "host_dispatch L call = (\<lambda>(w, x).
     case call of
       Log args \<Rightarrow> res_bind (Print (lib_v8 L) args (stdout x)) (\<lambda>out. Inr (Undefined, w, x\<lparr>stdout := out\<rparr>))
     | RegisterTimer args \<Rightarrow>
         res_bind (RegisterCallback (lib_v8 L) (lib_json L) (lib_lcb L) (clock x) (isolate_data1 w) args (cluster x, stdout x))
           (\<lambda>(s, out). Inr (Undefined, w, x\<lparr>cluster := s, stdout := out\<rparr>))
     | Mail args \<Rightarrow>
         res_bind (SendMail (lib_v8 L) (lib_curl L) (app_name w) args (mail x, stderr x))
           (\<lambda>(m, err). Inr (Undefined, w, x\<lparr>mail := m, stderr := err\<rparr>))
     | GetProperty obj n \<Rightarrow> get_property L obj n (w, x)
     | SetProperty obj n v \<Rightarrow> set_property L obj n v (w, x)
     | DeleteProperty obj n \<Rightarrow> delete_property L obj n (w, x))"

text \<open>Running JavaScript code to its end.\<close>

primrec run_js ::
  "('h, 'v, 's, 'r, 'm) libs \<Rightarrow> ('h, 'v) js \<Rightarrow> ('h, 'v, 's, 'r, 'm) state
     \<Rightarrow> (try_catch option \<times> ('h, 'v, 's, 'r, 'm) state) result" where
  "run_js L (Ends h e) = (\<lambda>(w, x). Inr (e, w\<lparr>context_heap := h\<rparr>, x))"
| "run_js L (Calls c k) = (\<lambda>st. res_bind (host_dispatch L c st) (\<lambda>(r, st'). run_js L (k r) st'))"

text \<open>
  \<open>Function::Call\<close>: the function must not be an empty handle, and no argument may be one.
\<close>

definition call_function ::
  "('h, 'v, 's, 'r, 'm) libs \<Rightarrow> 'v option \<Rightarrow> 'v argument list \<Rightarrow> ('h, 'v, 's, 'r, 'm) state
     \<Rightarrow> (try_catch option \<times> ('h, 'v, 's, 'r, 'm) state) result" where
  "call_function L f args = (\<lambda>(w, x).
     case f of
       None \<Rightarrow> Inl Null_deref
     | Some fn \<Rightarrow>
         res_bind (guard (Arg None \<notin> set args) Library_contract) (\<lambda>_.
           run_js L (js_call (lib_engine L) (context_heap w) fn args) (w, x)))"

section \<open>What a handler cannot change\<close>

text \<open>
  A host call changes no member of the worker but the HTTP response, keeps the response well formed,
  and leaves the clock and the debugger alone.
\<close>

definition host_frame :: "('h, 'v, 's, 'r, 'm) state \<Rightarrow> ('h, 'v, 's, 'r, 'm) state \<Rightarrow> bool" where
  "host_frame st st' \<longleftrightarrow>
     fst st' = (fst st)\<lparr>context_heap := context_heap (fst st'), http_response_handle := http_response_handle (fst st')\<rparr>
   \<and> (HTTPResponse_wf (http_response_handle (fst st)) \<longrightarrow> HTTPResponse_wf (http_response_handle (fst st')))
   \<and> clock (snd st') = clock (snd st) \<and> debugger (snd st') = debugger (snd st)
   \<and> debug_handler (snd st') = debug_handler (snd st)"

lemma host_frame_refl [simp, intro]: "host_frame st st"
  by (simp add: host_frame_def)

lemma host_frame_world:
  "clock x' = clock x \<Longrightarrow> debugger x' = debugger x \<Longrightarrow> debug_handler x' = debug_handler x \<Longrightarrow> host_frame (w, x) (w, x')"
  by (simp add: host_frame_def)

lemma host_frame_trans: "host_frame a b \<Longrightarrow> host_frame b c \<Longrightarrow> host_frame a c"
proof -
  assume ab: "host_frame a b" and bc: "host_frame b c"
  obtain h hr where b: "fst b = (fst a)\<lparr>context_heap := h, http_response_handle := hr\<rparr>"
    using ab by (auto simp: host_frame_def)
  obtain h' hr' where c: "fst c = (fst b)\<lparr>context_heap := h', http_response_handle := hr'\<rparr>"
    using bc by (auto simp: host_frame_def)
  have "fst c = (fst a)\<lparr>context_heap := context_heap (fst c), http_response_handle := http_response_handle (fst c)\<rparr>"
    by (simp add: c b)
  then show ?thesis using ab bc by (simp add: host_frame_def)
qed

lemma host_frameD:
  assumes "host_frame (w, x) (w', x')"
  shows "on_update w' = on_update w" "on_delete w' = on_delete w" "on_http_get w' = on_http_get w"
    "on_http_post w' = on_http_post w" "isolate_data1 w' = isolate_data1 w" "cb_instance w' = cb_instance w"
    "context_globals w' = context_globals w" "last_exception w' = last_exception w" "app_name w' = app_name w"
    "start_debug_flag w' = start_debug_flag w" "bucket_handle w' = bucket_handle w" "n1ql_handle w' = n1ql_handle w"
    "queue_handle w' = queue_handle w" "script_to_execute w' = script_to_execute w"
    "HTTPResponse_wf (http_response_handle w) \<Longrightarrow> HTTPResponse_wf (http_response_handle w')"
    "debugger x' = debugger x" "debug_handler x' = debug_handler x" "clock x' = clock x"
proof -
  have "w' = w\<lparr>context_heap := context_heap w', http_response_handle := http_response_handle w'\<rparr>"
    using assms by (simp add: host_frame_def)
  then obtain h hr where w': "w' = w\<lparr>context_heap := h, http_response_handle := hr\<rparr>" by blast
  show "on_update w' = on_update w" "on_delete w' = on_delete w" "on_http_get w' = on_http_get w"
    "on_http_post w' = on_http_post w" "isolate_data1 w' = isolate_data1 w" "cb_instance w' = cb_instance w"
    "context_globals w' = context_globals w" "last_exception w' = last_exception w" "app_name w' = app_name w"
    "start_debug_flag w' = start_debug_flag w" "bucket_handle w' = bucket_handle w" "n1ql_handle w' = n1ql_handle w"
    "queue_handle w' = queue_handle w" "script_to_execute w' = script_to_execute w"
    by (simp_all add: w')
  show "HTTPResponse_wf (http_response_handle w) \<Longrightarrow> HTTPResponse_wf (http_response_handle w')"
    "debugger x' = debugger x" "debug_handler x' = debug_handler x" "clock x' = clock x"
    using assms by (simp_all add: host_frame_def)
qed

lemma set_property_frame:
  "set_property L obj n v (w, x) = Inr (r, st') \<Longrightarrow> host_frame (w, x) st'"
  by (auto simp: set_property_def res_bind_eq_Inr_iff host_frame_def dest: HTTPBodySet_wf
    split: handler_kind.splits)

lemma host_dispatch_frame:
  assumes "host_dispatch L c (w, x) = Inr (r, st')"
  shows "host_frame (w, x) st'"
proof (cases c)
  case (SetProperty obj n v)
  then show ?thesis using assms set_property_frame by (simp add: host_dispatch_def)
next
  case (GetProperty obj n)
  then show ?thesis
    using assms by (auto simp: host_dispatch_def get_property_def res_bind_eq_Inr_iff intro: host_frame_world
      split: handler_kind.splits)
next
  case (DeleteProperty obj n)
  then show ?thesis
    using assms by (auto simp: host_dispatch_def delete_property_def res_bind_eq_Inr_iff intro: host_frame_world
      split: handler_kind.splits)
qed (use assms in \<open>auto simp: host_dispatch_def res_bind_eq_Inr_iff intro: host_frame_world\<close>)

lemma run_js_frame: "run_js L p st = Inr (e, st') \<Longrightarrow> host_frame st st'"
proof (induction p arbitrary: st)
  case (Ends h e')
  then show ?case
    by (cases st) (auto simp: host_frame_def)
next
  case (Calls c k)
  obtain w x where st: "st = (w, x)" by (cases st)
  from Calls.prems obtain r st1 where 1: "host_dispatch L c (w, x) = Inr (r, st1)" "run_js L (k r) st1 = Inr (e, st')"
    by (auto simp: st res_bind_eq_Inr_iff)
  show ?case
    using host_dispatch_frame [OF 1(1)] Calls.IH [OF rangeI 1(2)] st host_frame_trans by blast
qed

lemma call_function_frame: "call_function L f args st = Inr (e, st') \<Longrightarrow> host_frame st st'"
  by (auto simp: call_function_def res_bind_eq_Inr_iff dest: run_js_frame split: option.splits prod.splits)

end
