(* ===== verification/Worker.thy ===== *)
theory Worker
  imports Isolate
begin

text \<open>
  The class \<open>Worker\<close> of worker.cc and the C functions of binding.h: the constructor, the load of a
  handler, the delivery of updates, deletes, HTTP requests and timers, and the calls that end a worker.
  The lemmas here show what the constructor leaves, and which return code each load gives with what it
  leaves behind; the theory Delivery has the lemmas about deliveries and sequences of calls.
\<close>

section \<open>Return codes\<close>

datatype RETURN_CODE =
    SUCCESS
  | FAILED_TO_COMPILE_JS
  | NO_HANDLERS_DEFINED
  | FAILED_INIT_BUCKET_HANDLE
  | FAILED_INIT_N1QL_HANDLE
  | FAILED_INIT_QUEUE_HANDLE
  | RAPIDJSON_FAILED_PARSE
  | ON_UPDATE_CALL_FAIL
  | ON_DELETE_CALL_FAIL

fun code_of :: "RETURN_CODE \<Rightarrow> int" where
  "code_of SUCCESS = 0"
| "code_of FAILED_TO_COMPILE_JS = 1"
| "code_of NO_HANDLERS_DEFINED = 2"
| "code_of FAILED_INIT_BUCKET_HANDLE = 3"
| "code_of FAILED_INIT_N1QL_HANDLE = 4"
| "code_of FAILED_INIT_QUEUE_HANDLE = 5"
| "code_of RAPIDJSON_FAILED_PARSE = 6"
| "code_of ON_UPDATE_CALL_FAIL = 7"
| "code_of ON_DELETE_CALL_FAIL = 8"

text \<open>The codes are ordered as their numbers.\<close>

lemma code_of_inject: "code_of c = code_of c' \<Longrightarrow> c = c'"
  by (cases c; cases c') simp_all

instantiation RETURN_CODE :: linorder
begin

definition less_eq_RETURN_CODE :: "RETURN_CODE \<Rightarrow> RETURN_CODE \<Rightarrow> bool" where
  "less_eq_RETURN_CODE c c' = (code_of c \<le> code_of c')"

definition less_RETURN_CODE :: "RETURN_CODE \<Rightarrow> RETURN_CODE \<Rightarrow> bool" where
  "less_RETURN_CODE c c' = (code_of c < code_of c')"

instance
  by standard (auto simp: less_eq_RETURN_CODE_def less_RETURN_CODE_def dest: code_of_inject)

end

lemma code_le_NO_HANDLERS:
  "c \<le> NO_HANDLERS_DEFINED \<longleftrightarrow> c \<in> {SUCCESS, FAILED_TO_COMPILE_JS, NO_HANDLERS_DEFINED}"
  by (cases c) (simp_all add: less_eq_RETURN_CODE_def)

section \<open>The constructor\<close>

definition vector_at :: "'a list \<Rightarrow> nat \<Rightarrow> 'a result" where
  "vector_at xs i = (if i < length xs then Inr (xs ! i) else Inl Buffer_overrun)"

text \<open>
  One bucket handle per entry, each replacing the one before. A \<open>Bucket\<close> keeps a pointer to the worker
  and reaches the handle of the metadata bucket through it, so \<open>worker_cb\<close> is the connection string
  that the constructor gives to \<open>cb_instance\<close> at its end.
\<close>

fun bucket_loop ::
  "string \<Rightarrow> string \<Rightarrow> (string, string list) std_map \<Rightarrow> ('h, 'v) Worker \<Rightarrow> ('h, 'v) Worker result" where
  "bucket_loop worker_cb endpoint [] w = Inr w"
| "bucket_loop worker_cb endpoint ((al, info) # buckets) w =
     res_bind (vector_at info 0) (\<lambda>bname.
       bucket_loop worker_cb endpoint buckets
         (w\<lparr>bucket_handle := Ptr (Bucket_new worker_cb (c_str bname) (c_str endpoint) (c_str al))\<rparr>))"

fun queue_loop ::
  "'r hiredis \<Rightarrow> (string, string list) std_map \<Rightarrow> ('h, 'v) Worker \<times> ('s, 'r, 'm) world
     \<Rightarrow> (('h, 'v) Worker \<times> ('s, 'r, 'm) world) result" where
  "queue_loop R [] st = Inr st"
| "queue_loop R ((provider, info) # queues) (w, x) =
     res_bind (vector_at info 1) (\<lambda>endpoint.
     res_bind (vector_at info 2) (\<lambda>al.
     res_bind (vector_at info 3) (\<lambda>qname.
     res_bind (Queue_new R (c_str provider) (c_str endpoint) (c_str al) (c_str qname) (redis x)) (\<lambda>(q, r).
       queue_loop R queues (w\<lparr>queue_handle := Ptr q\<rparr>, x\<lparr>redis := r\<rparr>)))))"

fun component_loop ::
  "'r hiredis \<Rightarrow> string \<Rightarrow> (string, (string, string list) std_map) std_map
     \<Rightarrow> ('h, 'v) Worker \<times> ('s, 'r, 'm) world \<Rightarrow> (('h, 'v) Worker \<times> ('s, 'r, 'm) world) result" where
  "component_loop R worker_cb [] st = Inr st"
| "component_loop R worker_cb ((first, second) # rest) (w, x) =
     res_bind (if first = ''buckets'' then bucket_loop worker_cb (cb_cluster_endpoint x) second w else Inr w) (\<lambda>w1.
       let w2 = w1\<lparr>n1ql_handle := Ptr (N1QL_new (c_str (cb_cluster_bucket x)) (c_str (cb_cluster_endpoint x)) ''_n1ql'')\<rparr>
       in res_bind (if first = ''queue'' then queue_loop R second (w2, x) else Inr (w2, x)) (\<lambda>st'.
            component_loop R worker_cb rest st'))"

definition metadata_connstr :: "deployment_config \<Rightarrow> string" where
  "metadata_connstr result = ''couchbase://'' @ source_endpoint result @ ''/'' @ c_str (metadata_bucket result)"

text \<open>The members before the constructor's body; the isolate's slots are null when it is created.\<close>

definition Worker_raw :: "'h \<Rightarrow> int \<Rightarrow> string \<Rightarrow> ('h, 'v) Worker" where
  "Worker_raw h tindex app =
     \<lparr>context_heap = h, context_globals = Map.empty, isolate_data1 = Null, on_update = None, on_delete = None,
      on_http_get = None, on_http_post = None, cb_instance = [], script_to_execute = [], table_index = tindex,
      app_name = c_str app, start_debug_flag = False, last_exception = [], bucket_handle = Indeterminate,
      n1ql_handle = Indeterminate, queue_handle = Indeterminate, http_response_handle = HTTPResponse_new\<rparr>"

definition Worker_new ::
  "('h, 'v, 's, 'r, 'm) libs \<Rightarrow> int \<Rightarrow> string \<Rightarrow> ('s, 'r, 'm) world \<Rightarrow> ('h, 'v, 's, 'r, 'm) state result" where
  "Worker_new L tindex app x =
     res_bind (ParseDeployment (lib_json L) (lib_files L) app) (\<lambda>result.
       let x1 = x\<lparr>cb_cluster_endpoint := source_endpoint result, cb_cluster_bucket := source_bucket result\<rparr>;
           w = Worker_raw (js_new_context (lib_engine L)) tindex app
       in res_bind (component_loop (lib_redis L) (metadata_connstr result) (component_configs result) (w, x1)) (\<lambda>(w1, x2).
            Inr (w1\<lparr>http_response_handle := HTTPResponse_new, cb_instance := metadata_connstr result\<rparr>, x2)))"

section \<open>Loading a handler\<close>

definition ExecuteScript ::
  "('h, 'v, 's, 'r, 'm) libs \<Rightarrow> string \<Rightarrow> ('h, 'v, 's, 'r, 'm) state \<Rightarrow> (bool \<times> ('h, 'v, 's, 'r, 'm) state) result" where
  "ExecuteScript L script = (\<lambda>(w, x).
     case js_compile (lib_engine L) (context_heap w) script of
       Inl tc \<Rightarrow> Inr (False, w\<lparr>last_exception := ExceptionString tc\<rparr>, x)
     | Inr js \<Rightarrow>
         res_bind (run_js L js (w, x)) (\<lambda>(e, w', x').
           case e of
             Some tc \<Rightarrow> Inr (False, w'\<lparr>last_exception := ExceptionString tc\<rparr>, x')
           | None \<Rightarrow> Inr (True, w', x')))"

text \<open>A global that is there and is a function.\<close>

definition global_function :: "('h, 'v) engine \<Rightarrow> 'h \<Rightarrow> string \<Rightarrow> 'v option" where
  "global_function en h name =
     (case js_global en h name of Some f \<Rightarrow> if js_is_function en f then Some f else None | None \<Rightarrow> None)"

text \<open>
  The three blocks at the end of the load: \<open>if (handle)\<close> reads the pointer, the failure is reported on
  the standard error with its own code.
\<close>

definition init_bucket ::
  "('h, 'v, 's, 'r, 'm) state \<Rightarrow> (RETURN_CODE option \<times> ('h, 'v, 's, 'r, 'm) state) result" where
  "init_bucket = (\<lambda>(w, x).
     case bucket_handle w of
       Indeterminate \<Rightarrow> Inl Uninitialised_read
     | Null \<Rightarrow> Inr (None, w, x)
     | Ptr b \<Rightarrow>
         res_bind (Bucket_Initialize b (context_globals w)) (\<lambda>(ok, b', g).
           let w' = w\<lparr>bucket_handle := Ptr b', context_globals := g\<rparr>
           in if \<not> ok then Inr (Some FAILED_INIT_BUCKET_HANDLE, w',
                                x\<lparr>stderr := stderr x @ ''Error initializing bucket handler'' @ newline\<rparr>)
              else Inr (None, w', x)))"

definition init_n1ql ::
  "('h, 'v, 's, 'r, 'm) state \<Rightarrow> (RETURN_CODE option \<times> ('h, 'v, 's, 'r, 'm) state) result" where
  "init_n1ql = (\<lambda>(w, x).
     case n1ql_handle w of
       Indeterminate \<Rightarrow> Inl Uninitialised_read
     | Null \<Rightarrow> Inl Null_deref
     | Ptr q \<Rightarrow>
         res_bind (N1QL_Initialize q (context_globals w)) (\<lambda>(ok, q', g).
           let w' = w\<lparr>n1ql_handle := Ptr q', context_globals := g\<rparr>
           in if \<not> ok then Inr (Some FAILED_INIT_N1QL_HANDLE, w',
                                x\<lparr>stderr := stderr x @ ''Error initializing n1ql handler'' @ newline\<rparr>)
              else Inr (None, w', x)))"

definition init_queue ::
  "('h, 'v, 's, 'r, 'm) state \<Rightarrow> (RETURN_CODE option \<times> ('h, 'v, 's, 'r, 'm) state) result" where
  "init_queue = (\<lambda>(w, x).
     case queue_handle w of
       Indeterminate \<Rightarrow> Inl Uninitialised_read
     | Null \<Rightarrow> Inr (None, w, x)
     | Ptr q \<Rightarrow>
         res_bind (Queue_Initialize q (context_globals w)) (\<lambda>(ok, q', g).
           let w' = w\<lparr>queue_handle := Ptr q', context_globals := g\<rparr>
           in if \<not> ok then Inr (Some FAILED_INIT_QUEUE_HANDLE, w',
                                x\<lparr>stderr := stderr x @ ''Error initializing queue handler'' @ newline\<rparr>)
              else Inr (None, w', x)))"

text \<open>An early return ends the load with its code.\<close>

definition or_return ::
  "(RETURN_CODE option \<times> 'st) result \<Rightarrow> ('st \<Rightarrow> (RETURN_CODE \<times> 'st) result) \<Rightarrow> (RETURN_CODE \<times> 'st) result" where
  "or_return r k = res_bind r (\<lambda>(c, st). case c of Some code \<Rightarrow> Inr (code, st) | None \<Rightarrow> k st)"

definition WorkerLoad ::
  "('h, 'v, 's, 'r, 'm) libs \<Rightarrow> string \<Rightarrow> string \<Rightarrow> ('h, 'v, 's, 'r, 'm) state
     \<Rightarrow> (RETURN_CODE \<times> ('h, 'v, 's, 'r, 'm) state) result" where
  "WorkerLoad L name_s source_s = (\<lambda>(w, x).
     let script = script_of (lib_files L) source_s
     in res_bind (ExecuteScript L (c_str script) (w\<lparr>script_to_execute := script\<rparr>, x)) (\<lambda>(ok, w1, x1).
        if \<not> ok then Inr (FAILED_TO_COMPILE_JS, w1, x1)
        else
          let get = global_function (lib_engine L) (context_heap w1)
          in case (get ''OnUpdate'', get ''OnDelete'', get ''OnHTTPGet'', get ''OnHTTPPost'') of
               (Some u, Some d, Some g, Some p) \<Rightarrow>
                 let w2 = w1\<lparr>on_update := Some u, on_delete := Some d, on_http_get := Some g, on_http_post := Some p\<rparr>
                 in or_return (init_bucket (w2, x1)) (\<lambda>st3.
                    or_return (init_n1ql st3) (\<lambda>st4.
                    or_return (init_queue st4) (\<lambda>(w5, x5).
                      Inr (SUCCESS, w5\<lparr>isolate_data1 := Ptr (cb_instance w5)\<rparr>, x5))))
             | _ \<Rightarrow> Inr (NO_HANDLERS_DEFINED, w1, x1)))"

section \<open>Deliveries\<close>

text \<open>\<open>JSON::Parse\<close> of a C string: an empty handle and a pending exception where it is not JSON.\<close>

definition json_argument :: "('h, 'v, 's, 'r, 'm) libs \<Rightarrow> string \<Rightarrow> 'v argument \<times> try_catch option" where
  "json_argument L text =
     (case v8_parse (lib_v8 L) (c_str text) of
        Some v \<Rightarrow> (Arg (Some v), None)
      | None \<Rightarrow> (Arg None, Some (js_parse_exception (lib_engine L) (c_str text))))"

text \<open>A \<open>TryCatch\<close> holds the latest exception.\<close>

definition later_exception :: "try_catch option \<Rightarrow> try_catch option \<Rightarrow> try_catch option" where
  "later_exception e e' = (case e' of Some tc \<Rightarrow> Some tc | None \<Rightarrow> e)"

definition logged :: "string \<Rightarrow> string" where
  "logged e = ''Logged: '' @ c_str e @ newline"

definition SendHTTP ::
  "('h, 'v, 's, 'r, 'm) libs \<Rightarrow> (('h, 'v) Worker \<Rightarrow> 'v option) \<Rightarrow> string \<Rightarrow> ('h, 'v, 's, 'r, 'm) state
     \<Rightarrow> (cstring_ptr \<times> ('h, 'v, 's, 'r, 'm) state) result" where
  "SendHTTP L on_http http_req = (\<lambda>(w, x).
     let (arg0, caught) = json_argument L http_req;
         hr0 = (http_response_handle w)\<lparr>hr_body := []\<rparr>
     in res_bind (WrapHTTPResponseMap hr0) (\<lambda>(obj, hr1).
          let w1 = w\<lparr>http_response_handle := hr1\<rparr>;
              (w2, x2) = (case caught of
                            Some tc \<Rightarrow> let e = ExceptionString tc
                                       in (w1\<lparr>last_exception := e\<rparr>, x\<lparr>stdout := stdout x @ logged e\<rparr>)
                          | None \<Rightarrow> (w1, x))
          in res_bind (call_function L (on_http w2) [arg0, ArgObject obj] (w2, x2)) (\<lambda>(_, w3, x3).
               let (text, hr) = ConvertMapToJson (lib_json L) (http_response_handle w3)
               in Inr (text, w3\<lparr>http_response_handle := hr\<rparr>, x3))))"

definition SendHTTPGet ::
  "('h, 'v, 's, 'r, 'm) libs \<Rightarrow> string \<Rightarrow> ('h, 'v, 's, 'r, 'm) state
     \<Rightarrow> (cstring_ptr \<times> ('h, 'v, 's, 'r, 'm) state) result" where
  "SendHTTPGet L http_req st = SendHTTP L on_http_get http_req st"

definition SendHTTPPost ::
  "('h, 'v, 's, 'r, 'm) libs \<Rightarrow> string \<Rightarrow> ('h, 'v, 's, 'r, 'm) state
     \<Rightarrow> (cstring_ptr \<times> ('h, 'v, 's, 'r, 'm) state) result" where
  "SendHTTPPost L http_req st = SendHTTP L on_http_post http_req st"

text \<open>\<open>Debug::ProcessDebugMessages\<close> hands the queued messages to the installed handler.\<close>

fun process_debug_messages :: "rapidjson \<Rightarrow> request option \<Rightarrow> string option list \<Rightarrow> debug_state \<Rightarrow> debug_state result" where
  "process_debug_messages J h [] d = Inr d"
| "process_debug_messages J h (m # ms) d =
     (case h of
        None \<Rightarrow> Inr d
      | Some r \<Rightarrow> res_bind (handler_of J r m d) (process_debug_messages J h ms))"

text \<open>The end of a delivery: the debugger's messages if it is on, then the flag and the notification.\<close>

definition finish_delivery ::
  "('h, 'v, 's, 'r, 'm) libs \<Rightarrow> ('h, 'v, 's, 'r, 'm) state \<Rightarrow> ('h, 'v, 's, 'r, 'm) state result" where
  "finish_delivery L = (\<lambda>(w, x).
     res_bind (if start_debug_flag w
               then process_debug_messages (lib_json L) (debug_handler x) (js_debug_messages (lib_engine L) (context_heap w)) (debugger x)
               else Inr (debugger x)) (\<lambda>d.
       Inr (w, x\<lparr>debugger := set_ready d\<rparr>)))"

definition SendUpdate ::
  "('h, 'v, 's, 'r, 'm) libs \<Rightarrow> string \<Rightarrow> string \<Rightarrow> string \<Rightarrow> ('h, 'v, 's, 'r, 'm) state
     \<Rightarrow> (RETURN_CODE \<times> ('h, 'v, 's, 'r, 'm) state) result" where
  "SendUpdate L value meta doc_type = (\<lambda>(w, x).
     let (arg0, caught0) = (if c_str doc_type = ''json'' then json_argument L value
                            else (Arg (Some (v8_string (lib_v8 L) (c_str value))), None));
         (arg1, caught1) = json_argument L meta;
         caught = later_exception caught0 caught1;
         (w1, x1) = (case caught of
                       Some tc \<Rightarrow> let e = ExceptionString tc
                                  in (w\<lparr>last_exception := e\<rparr>, x\<lparr>stderr := stderr x @ logged e\<rparr>)
                     | None \<Rightarrow> (w, x))
     in res_bind (call_function L (on_update w1) [arg0, arg1] (w1, x1)) (\<lambda>(e, st2).
        res_bind (finish_delivery L st2) (\<lambda>(w3, x3).
          case later_exception caught e of
            Some tc \<Rightarrow> Inr (ON_UPDATE_CALL_FAIL, w3,
                            x3\<lparr>stdout := stdout x3 @ ''Exception message: '' @ ExceptionString tc @ newline\<rparr>)
          | None \<Rightarrow> Inr (SUCCESS, w3, x3))))"

definition SendDelete ::
  "('h, 'v, 's, 'r, 'm) libs \<Rightarrow> string \<Rightarrow> ('h, 'v, 's, 'r, 'm) state
     \<Rightarrow> (RETURN_CODE \<times> ('h, 'v, 's, 'r, 'm) state) result" where
  "SendDelete L msg = (\<lambda>(w, x).
     res_bind (call_function L (on_delete w) [Arg (Some (v8_string (lib_v8 L) (c_str msg)))] (w, x)) (\<lambda>(e, st2).
     res_bind (finish_delivery L st2) (\<lambda>(w3, x3).
       case e of
         Some tc \<Rightarrow> Inr (ON_DELETE_CALL_FAIL, w3, x3)
       | None \<Rightarrow> Inr (SUCCESS, w3, x3))))"

text \<open>
  One key of \<open>SendTimerCallback\<close>: \<open>None\<close> is the early return at a document that does not parse. The
  value found under the callback's name is cast to a function, which it has to be.
\<close>

definition fire_timer ::
  "('h, 'v, 's, 'r, 'm) libs \<Rightarrow> string \<Rightarrow> string \<Rightarrow> ('h, 'v, 's, 'r, 'm) state \<Rightarrow> ('h, 'v, 's, 'r, 'm) state result" where
  "fire_timer L callback_func doc_id = (\<lambda>(w, x).
     case global_function (lib_engine L) (context_heap w) (c_str callback_func) of
       None \<Rightarrow> Inl Library_contract
     | Some cb_func \<Rightarrow>
         res_bind (call_function L (Some cb_func) [Arg (Some (v8_string (lib_v8 L) (c_str doc_id)))] (w, x))
           (\<lambda>(_, st'). Inr st'))"

definition timer_key ::
  "('h, 'v, 's, 'r, 'm) libs \<Rightarrow> string \<Rightarrow> ('h, 'v, 's, 'r, 'm) state
     \<Rightarrow> ('h, 'v, 's, 'r, 'm) state option result" where
  "timer_key L key = (\<lambda>(w, x).
     let result = worker_get (lib_lcb L) (cluster x) (cb_instance w) key
     in case rj_parse (lib_json L) (c_str (res_value result)) of
          None \<Rightarrow> Inr None
        | Some doc \<Rightarrow>
            res_bind (timer_fields doc) (\<lambda>(callback_func, doc_id, start_timestamp).
            res_bind (fire_timer L callback_func doc_id (w, x)) (\<lambda>st. Inr (Some st))))"

fun timer_loop ::
  "('h, 'v, 's, 'r, 'm) libs \<Rightarrow> string list \<Rightarrow> ('h, 'v, 's, 'r, 'm) state \<Rightarrow> ('h, 'v, 's, 'r, 'm) state result" where
  "timer_loop L [] st = Inr st"
| "timer_loop L (key # keys) st =
     res_bind (timer_key L key st) (\<lambda>r. case r of None \<Rightarrow> Inr st | Some st' \<Rightarrow> timer_loop L keys st')"

definition SendTimerCallback ::
  "('h, 'v, 's, 'r, 'm) libs \<Rightarrow> string \<Rightarrow> ('h, 'v, 's, 'r, 'm) state \<Rightarrow> ('h, 'v, 's, 'r, 'm) state result" where
  "SendTimerCallback L k st =
     (let keys = split (c_str k) (CHR '';'')
      in if 0 < length keys then timer_loop L keys st else Inr st)"

section \<open>The remaining members\<close>

definition WorkerLastException :: "('h, 'v) Worker \<Rightarrow> string" where
  "WorkerLastException w = c_str (last_exception w)"

definition StartV8Debugger :: "('h, 'v) Worker \<Rightarrow> ('h, 'v) Worker" where
  "StartV8Debugger w = w\<lparr>start_debug_flag := True\<rparr>"

definition StopV8Debugger :: "('h, 'v) Worker \<Rightarrow> ('h, 'v) Worker" where
  "StopV8Debugger w = w\<lparr>start_debug_flag := False\<rparr>"

definition WorkerTerminateExecution :: "('h, 'v, 's, 'r, 'm) libs \<Rightarrow> ('h, 'v) Worker \<Rightarrow> ('h, 'v) Worker" where
  "WorkerTerminateExecution L w = w\<lparr>context_heap := js_terminate (lib_engine L) (context_heap w)\<rparr>"

text \<open>
  The C functions of binding.h on a worker. A debugger request that waits goes on as a program of the
  theory Debugger, on its own thread; the ones that are not implemented return the empty text.
  \<open>worker_dispose\<close> disposes of the isolate and of nothing else: the members of the worker stay where they
  are, and a later call reaches a freed isolate if its member function touches it.
\<close>

datatype api_call =
    worker_load string string
  | worker_send_update string string string
  | worker_send_delete string
  | worker_send_http_get string
  | worker_send_http_post string
  | worker_send_timer_callback string
  | worker_last_exception
  | start_v8_debugger
  | stop_v8_debugger
  | worker_send_continue_request string
  | worker_send_evaluate_request string
  | worker_send_setbreakpoint_request string
  | worker_send_clearbreakpoint_request string
  | worker_send_listbreakpoints_request string
  | worker_send_lookup_request string
  | worker_send_backtrace_request string
  | worker_send_frame_request string
  | worker_send_source_request string
  | worker_dispose
  | worker_terminate_execution

datatype api_result = Code RETURN_CODE | Text cstring_ptr | Void | Waits "instr list"

text \<open>A worker whose isolate is there, and one whose isolate was disposed of.\<close>

datatype ('h, 'v) c_worker = Alive "('h, 'v) Worker" | Disposed "('h, 'v) Worker"

text \<open>
  The calls whose member function uses the isolate. A timer event without a key returns before it takes the
  isolate's lock; the last exception and the debugger's flag are members of the worker.
\<close>

fun touches_isolate :: "api_call \<Rightarrow> bool" where
  "touches_isolate (worker_send_timer_callback keys) \<longleftrightarrow> 0 < length (split (c_str keys) (CHR '';''))"
| "touches_isolate worker_last_exception \<longleftrightarrow> False"
| "touches_isolate start_v8_debugger \<longleftrightarrow> False"
| "touches_isolate stop_v8_debugger \<longleftrightarrow> False"
| "touches_isolate (worker_send_lookup_request r) \<longleftrightarrow> False"
| "touches_isolate (worker_send_backtrace_request r) \<longleftrightarrow> False"
| "touches_isolate (worker_send_frame_request r) \<longleftrightarrow> False"
| "touches_isolate (worker_send_source_request r) \<longleftrightarrow> False"
| "touches_isolate call \<longleftrightarrow> True"

text \<open>The member function behind a call, on the members of the worker.\<close>

definition member_call ::
  "('h, 'v, 's, 'r, 'm) libs \<Rightarrow> api_call \<Rightarrow> ('h, 'v, 's, 'r, 'm) state
     \<Rightarrow> (api_result \<times> ('h, 'v, 's, 'r, 'm) state) result" where
  "member_call L call = (\<lambda>(w, x).
     let code = (\<lambda>r. res_bind r (\<lambda>(c, st'). Inr (Code c, st')));
         text_ptr = (\<lambda>r. res_bind r (\<lambda>(t, st'). Inr (Text t, st')))
     in case call of
          worker_load name_s source_s \<Rightarrow> code (WorkerLoad L name_s source_s (w, x))
        | worker_send_update value meta doc_type \<Rightarrow> code (SendUpdate L value meta doc_type (w, x))
        | worker_send_delete msg \<Rightarrow> code (SendDelete L msg (w, x))
        | worker_send_http_get req \<Rightarrow> text_ptr (SendHTTPGet L req (w, x))
        | worker_send_http_post req \<Rightarrow> text_ptr (SendHTTPPost L req (w, x))
        | worker_send_timer_callback keys \<Rightarrow> res_bind (SendTimerCallback L keys (w, x)) (\<lambda>st'. Inr (Void, st'))
        | worker_last_exception \<Rightarrow> Inr (Text (Live (WorkerLastException w)), w, x)
        | start_v8_debugger \<Rightarrow> Inr (Void, StartV8Debugger w, x)
        | stop_v8_debugger \<Rightarrow> Inr (Void, StopV8Debugger w, x)
        | worker_send_continue_request r \<Rightarrow> Inr (Waits (SendContinueRequest r), w, x)
        | worker_send_evaluate_request r \<Rightarrow> Inr (Waits (SendEvaluateRequest r), w, x)
        | worker_send_setbreakpoint_request r \<Rightarrow> Inr (Waits (SendSetBreakpointRequest r), w, x)
        | worker_send_clearbreakpoint_request r \<Rightarrow> Inr (Waits (SendClearBreakpointRequest r), w, x)
        | worker_send_listbreakpoints_request r \<Rightarrow> Inr (Waits (SendListBreakpointsRequest r), w, x)
        | worker_send_lookup_request r \<Rightarrow> Inr (Text (Live (SendLookupRequest r)), w, x)
        | worker_send_backtrace_request r \<Rightarrow> Inr (Text (Live (SendBacktraceRequest r)), w, x)
        | worker_send_frame_request r \<Rightarrow> Inr (Text (Live (SendFrameRequest r)), w, x)
        | worker_send_source_request r \<Rightarrow> Inr (Text (Live (SendSourceRequest r)), w, x)
        | worker_dispose \<Rightarrow> Inr (Void, w, x)
        | worker_terminate_execution \<Rightarrow> Inr (Void, WorkerTerminateExecution L w, x))"

definition api_exec ::
  "('h, 'v, 's, 'r, 'm) libs \<Rightarrow> api_call \<Rightarrow> ('h, 'v) c_worker \<times> ('s, 'r, 'm) world
     \<Rightarrow> (api_result \<times> ('h, 'v) c_worker \<times> ('s, 'r, 'm) world) result" where
  "api_exec L call = (\<lambda>(c, x).
     case c of
       Alive w \<Rightarrow> res_bind (member_call L call (w, x)) (\<lambda>(r, w', x').
         Inr (r, if call = worker_dispose then Disposed w' else Alive w', x'))
     | Disposed w \<Rightarrow>
         if touches_isolate call then Inl Use_after_free
         else res_bind (member_call L call (w, x)) (\<lambda>(r, w', x'). Inr (r, Disposed w', x')))"

lemmas api_exec_defs = api_exec_def member_call_def

text \<open>\<open>worker_new\<close>, then any sequence of calls that come back.\<close>

inductive worker_reachable ::
  "('h, 'v, 's, 'r, 'm) libs \<Rightarrow> int \<Rightarrow> string \<Rightarrow> ('h, 'v) c_worker \<times> ('s, 'r, 'm) world \<Rightarrow> bool"
  for L tindex app where
  worker_new: "Worker_new L tindex app x = Inr (w, x') \<Longrightarrow> worker_reachable L tindex app (Alive w, x')"
| worker_call: "worker_reachable L tindex app st \<Longrightarrow> api_exec L call st = Inr (r, st') \<Longrightarrow> worker_reachable L tindex app st'"

section \<open>What the constructor leaves\<close>

lemma bucket_loop_shape:
  "bucket_loop cb ep bm w = Inr w' \<Longrightarrow>
     w' = w\<lparr>bucket_handle := (if bm = [] then bucket_handle w
              else Ptr (Bucket_new cb (c_str (snd (last bm) ! 0)) (c_str ep) (c_str (fst (last bm)))))\<rparr>"
proof (induction bm arbitrary: w)
  case Nil
  then show ?case by simp
next
  case (Cons b bm)
  obtain al info where b: "b = (al, info)" by (cases b)
  from Cons.prems obtain n where "vector_at info 0 = Inr n"
    and r: "bucket_loop cb ep bm (w\<lparr>bucket_handle := Ptr (Bucket_new cb (c_str n) (c_str ep) (c_str al))\<rparr>) = Inr w'"
    by (auto simp: b res_bind_eq_Inr_iff)
  then have "n = info ! 0" by (simp add: vector_at_def split: if_splits)
  then show ?case using Cons.IH [OF r] by (cases "bm = []") (auto simp: b)
qed

lemma Queue_new_fields:
  "Queue_new R p ep al qn r = Inr (q, r') \<Longrightarrow> Queue_wf q \<and> queue_alias q = c_str al \<and> queue_name q = c_str qn"
  by (auto simp: Queue_new_def Let_def res_bind_eq_Inr_iff Queue_wf_def split: if_splits)

lemma queue_loop_shape:
  assumes "queue_loop R qm (w, x) = Inr (w', x')"
  shows "\<exists>r h. w' = w\<lparr>queue_handle := h\<rparr> \<and> x' = x\<lparr>redis := r\<rparr>
    \<and> (qm = [] \<longrightarrow> h = queue_handle w)
    \<and> (qm \<noteq> [] \<longrightarrow> (\<exists>q. h = Ptr q \<and> Queue_wf q \<and> queue_alias q = c_str (snd (last qm) ! 2)
                        \<and> queue_name q = c_str (snd (last qm) ! 3)))"
  using assms
proof (induction qm arbitrary: w x)
  case Nil
  then show ?case by (auto intro!: exI [of _ "redis x"] exI [of _ "queue_handle w"])
next
  case (Cons b qm)
  obtain p info where b: "b = (p, info)" by (cases b)
  from Cons.prems obtain e a n q r1 where v: "vector_at info 2 = Inr a" "vector_at info 3 = Inr n"
    and q: "Queue_new R (c_str p) (c_str e) (c_str a) (c_str n) (redis x) = Inr (q, r1)"
    and r: "queue_loop R qm (w\<lparr>queue_handle := Ptr q\<rparr>, x\<lparr>redis := r1\<rparr>) = Inr (w', x')"
    by (auto simp: b res_bind_eq_Inr_iff)
  have an: "a = info ! 2" "n = info ! 3" using v by (auto simp: vector_at_def split: if_splits)
  from Cons.IH [OF r] obtain r' h where h: "w' = w\<lparr>queue_handle := h\<rparr>" "x' = x\<lparr>redis := r'\<rparr>"
    "qm = [] \<longrightarrow> h = Ptr q"
    "qm \<noteq> [] \<longrightarrow> (\<exists>q. h = Ptr q \<and> Queue_wf q \<and> queue_alias q = c_str (snd (last qm) ! 2) \<and> queue_name q = c_str (snd (last qm) ! 3))"
    by auto
  have "\<exists>q. h = Ptr q \<and> Queue_wf q \<and> queue_alias q = c_str (snd (last (b # qm)) ! 2) \<and> queue_name q = c_str (snd (last (b # qm)) ! 3)"
    using h(3,4) Queue_new_fields [OF q] by (cases "qm = []") (auto simp: b an)
  then show ?case using h(1,2) by blast
qed

lemma ParseDeployment_components:
  "ParseDeployment rj files app = Inr cfg \<Longrightarrow>
     \<exists>bm qm. component_configs cfg = [(''buckets'', bm), (''queue'', qm)] \<and> source_endpoint cfg = ''localhost''"
  unfolding ParseDeployment_def Let_def by (auto simp: res_bind_eq_Inr_iff split: option.split_asm)

lemma Worker_new_shape:
  assumes cfg: "ParseDeployment (lib_json L) (lib_files L) app = Inr cfg"
    and comps: "component_configs cfg = [(''buckets'', bm), (''queue'', qm)]"
    and new: "Worker_new L i app x = Inr (w, x')"
  shows "\<exists>r bh qh. x' = x\<lparr>cb_cluster_endpoint := source_endpoint cfg, cb_cluster_bucket := source_bucket cfg, redis := r\<rparr>
    \<and> w = (Worker_raw (js_new_context (lib_engine L)) i app)\<lparr>bucket_handle := bh,
        n1ql_handle := Ptr (N1QL_new (c_str (source_bucket cfg)) (c_str (source_endpoint cfg)) ''_n1ql''),
        queue_handle := qh, cb_instance := metadata_connstr cfg\<rparr>
    \<and> bh = (if bm = [] then Indeterminate
            else Ptr (Bucket_new (metadata_connstr cfg) (c_str (snd (last bm) ! 0)) (c_str (source_endpoint cfg)) (c_str (fst (last bm)))))
    \<and> (qm = [] \<longrightarrow> qh = Indeterminate)
    \<and> (qm \<noteq> [] \<longrightarrow> (\<exists>q. qh = Ptr q \<and> Queue_wf q \<and> queue_alias q = c_str (snd (last qm) ! 2)
                        \<and> queue_name q = c_str (snd (last qm) ! 3)))"
proof -
  let ?w = "Worker_raw (js_new_context (lib_engine L)) i app :: ('a, 'b) Worker"
  let ?x = "x\<lparr>cb_cluster_endpoint := source_endpoint cfg, cb_cluster_bucket := source_bucket cfg\<rparr>"
  let ?n = "Ptr (N1QL_new (c_str (source_bucket cfg)) (c_str (source_endpoint cfg)) ''_n1ql'')"
  from new obtain w1 wq where b: "bucket_loop (metadata_connstr cfg) (source_endpoint cfg) bm ?w = Inr w1"
    and q: "queue_loop (lib_redis L) qm (w1\<lparr>n1ql_handle := ?n\<rparr>, ?x) = Inr (wq, x')"
    and w: "w = wq\<lparr>http_response_handle := HTTPResponse_new, cb_instance := metadata_connstr cfg\<rparr>"
    by (auto simp: Worker_new_def cfg comps Let_def res_bind_eq_Inr_iff)
  from queue_loop_shape [OF q] obtain r qh where
    qs: "wq = w1\<lparr>n1ql_handle := ?n, queue_handle := qh\<rparr>" "x' = ?x\<lparr>redis := r\<rparr>" "qm = [] \<longrightarrow> qh = queue_handle w1"
    "qm \<noteq> [] \<longrightarrow> (\<exists>q. qh = Ptr q \<and> Queue_wf q \<and> queue_alias q = c_str (snd (last qm) ! 2)
                        \<and> queue_name q = c_str (snd (last qm) ! 3))"
    by auto
  note bs = bucket_loop_shape [OF b]
  show ?thesis
    using qs(3,4) unfolding w qs(1,2) bs
    by (intro exI [of _ r] exI [of _ "bucket_handle w1"] exI [of _ qh]) (simp add: bs Worker_raw_def)
qed

lemma assign_all_map:
  fixes kvs :: "(string \<times> string list) list"
  shows "map_invar (std_map.assign_all kvs [])" "map_of (std_map.assign_all kvs []) = map_of (rev kvs)"
    "fst ` set (std_map.assign_all kvs []) = fst ` set kvs"
proof -
  show inv: "map_invar (std_map.assign_all kvs [])" by (rule std_map.invar_assign_all) simp
  show look: "map_of (std_map.assign_all kvs []) = map_of (rev kvs)"
    using std_map.lookup_assign_all [of "[]" kvs] by simp
  show "fst ` set (std_map.assign_all kvs []) = fst ` set kvs"
    using std_map.entries_keys [OF inv] by (simp add: look dom_map_of_conv_image_fst)
qed

text \<open>The bucket that the constructor keeps: the one under the greatest alias.\<close>

lemma last_bucket:
  fixes bs :: "(string \<times> string) list"
  defines "bkv \<equiv> map (\<lambda>b. (c_str (snd b), [c_str (fst b), c_str (snd b)])) bs"
  defines "bm \<equiv> std_map.assign_all bkv []"
  assumes "bs \<noteq> []"
  shows "bm \<noteq> []" "c_str (fst (last bm)) = Max ((\<lambda>b. c_str (snd b)) ` set bs)"
    "map_of (rev bkv) (c_str (fst (last bm))) = Some (snd (last bm))"
proof -
  note bmI = assign_all_map [of bkv, folded bm_def]
  show ne: "bm \<noteq> []" using bmI(3) assms(3) by (auto simp: bkv_def)
  have "fst (last bm) \<in> fst ` set bkv" using ne bmI(3) by (metis image_eqI last_in_set)
  then have c: "c_str (fst (last bm)) = fst (last bm)" by (auto simp: bkv_def)
  show "c_str (fst (last bm)) = Max ((\<lambda>b. c_str (snd b)) ` set bs)"
    using map_invar_last(1) [OF bmI(1) ne] unfolding bmI(3) c by (simp add: bkv_def image_image)
  show "map_of (rev bkv) (c_str (fst (last bm))) = Some (snd (last bm))"
    using map_invar_last(2) [OF bmI(1) ne] unfolding bmI(2) c .
qed

lemma Worker_new_json:
  assumes json: "rj_parse (lib_json L) (c_str (case lib_files L (''./apps/'' @ c_str app) of Some c \<Rightarrow> c | None \<Rightarrow> []))
      = Some (deployment_json bs qs meta src)"
    and new: "Worker_new L i app x = Inr (w, x')"
  defines "bm \<equiv> std_map.assign_all (map (\<lambda>b. (c_str (snd b), [c_str (fst b), c_str (snd b)])) bs) []"
  defines "qm \<equiv> std_map.assign_all (map queue_info qs) []"
  shows "\<exists>bh qh n. w = (Worker_raw (js_new_context (lib_engine L)) i app)\<lparr>bucket_handle := bh,
        n1ql_handle := n, queue_handle := qh, cb_instance := ''couchbase://localhost/'' @ c_str meta\<rparr>
    \<and> bh = (if bm = [] then Indeterminate
        else Ptr (Bucket_new (''couchbase://localhost/'' @ c_str meta) (c_str (snd (last bm) ! 0)) (c_str ''localhost'') (c_str (fst (last bm)))))
    \<and> (qm = [] \<longrightarrow> qh = Indeterminate)
    \<and> (qm \<noteq> [] \<longrightarrow> (\<exists>q. qh = Ptr q \<and> Queue_wf q \<and> queue_alias q = c_str (snd (last qm) ! 2)
                        \<and> queue_name q = c_str (snd (last qm) ! 3)))"
proof -
  define cfg where "cfg = \<lparr>metadata_bucket = c_str meta, source_bucket = c_str src, source_endpoint = ''localhost'',
     component_configs = [(''buckets'', bm), (''queue'', qm)]\<rparr>"
  have parse: "ParseDeployment (lib_json L) (lib_files L) app = Inr cfg"
    using ParseDeployment_json [of "lib_json L" "lib_files L" app bs qs meta src, OF json]
    by (simp add: cfg_def bm_def qm_def)
  have comps: "component_configs cfg = [(''buckets'', bm), (''queue'', qm)]" by (simp add: cfg_def)
  have f: "source_endpoint cfg = ''localhost''" "metadata_connstr cfg = ''couchbase://localhost/'' @ c_str meta"
    by (simp_all add: cfg_def metadata_connstr_def)
  show ?thesis using Worker_new_shape [OF parse comps new] unfolding f by blast
qed

lemma last_queue:
  assumes "qs \<noteq> []"
  defines "qm \<equiv> std_map.assign_all (map queue_info qs) []"
  shows "qm \<noteq> []" "map_of (rev (map queue_info qs)) (Max (fst ` queue_info ` set qs)) = Some (snd (last qm))"
proof -
  note qmI = assign_all_map [of "map queue_info qs", folded qm_def]
  show ne: "qm \<noteq> []" using qmI(3) assms(1) by auto
  show "map_of (rev (map queue_info qs)) (Max (fst ` queue_info ` set qs)) = Some (snd (last qm))"
    using map_invar_last [OF qmI(1) ne] unfolding qmI(2,3) by simp
qed

section \<open>A reference engine\<close>

text \<open>
  An engine for the witnesses: the heap is the source text, a global is a function where its name occurs in
  the source, the empty source does not compile, and what a call does is given by \<open>body\<close>.
\<close>

definition ref_exception :: try_catch where
  "ref_exception = \<lparr>tc_exception = Some ''SyntaxError'', tc_message = None, tc_stack_trace = None\<rparr>"

definition ref_engine :: "(string \<Rightarrow> string \<Rightarrow> string argument list \<Rightarrow> (string, string) js) \<Rightarrow> (string, string) engine" where
  "ref_engine body =
     \<lparr>js_compile = (\<lambda>h src. if src = [] then Inl ref_exception else Inr (Ends src None)),
      js_global = (\<lambda>h n. Some (if strstr h n then n else ''undefined'')),
      js_is_function = (\<lambda>f. f \<noteq> ''undefined''),
      js_call = body, js_parse_exception = (\<lambda>t. ref_exception), js_debug_messages = (\<lambda>h. []), js_new_context = [],
      js_terminate = (\<lambda>h. [])\<rparr>"

definition ref_config :: json where
  "ref_config = deployment_json [(''default'', ''credit''), (''beer'', ''beers'')]
     [(''redis'', ''order_queue'', ''127.0.0.1:6379'', ''orders'')] ''eventing'' ''default''"

definition ref_libs ::
  "(string \<Rightarrow> string \<Rightarrow> string argument list \<Rightarrow> (string, string) js)
     \<Rightarrow> (string, string, ref_cluster_state, ref_redis_state, (string \<times> string) list) libs" where
  "ref_libs body =
     \<lparr>lib_engine = ref_engine body, lib_v8 = ref_v8,
      lib_json = ref_json\<lparr>rj_parse := (\<lambda>t. if t = ''cfg'' then Some ref_config else rj_parse ref_json t)\<rparr>,
      lib_lcb = ref_lcb, lib_redis = ref_redis, lib_curl = ref_curl, lib_files = [''./apps/app1'' \<mapsto> ''cfg''],
      lib_string_bytes = (\<lambda>s. char_of (2 * length s) # s @ [NUL]), lib_little_endian = True\<rparr>"

definition ref_world :: "(ref_cluster_state, ref_redis_state, (string \<times> string) list) world" where
  "ref_world = \<lparr>cluster = ref_empty, redis = (\<lambda>_. []), mail = [], clock = 1000, stdout = [], stderr = [],
     debugger = debug_state_init, debug_handler = None, cb_cluster_endpoint = [], cb_cluster_bucket = []\<rparr>"

definition ends_quietly :: "string \<Rightarrow> string \<Rightarrow> string argument list \<Rightarrow> (string, string) js" where
  "ends_quietly h f args = Ends h None"

lemmas ref_libs_simps = ref_libs_def ref_engine_def

lemma ref_libs_fields [simp]:
  "lib_engine (ref_libs body) = ref_engine body" "lib_v8 (ref_libs body) = ref_v8" "lib_lcb (ref_libs body) = ref_lcb"
  "lib_redis (ref_libs body) = ref_redis"
  by (simp_all add: ref_libs_def)

lemma ref_libs_config:
  "rj_parse (lib_json (ref_libs body)) (c_str (case lib_files (ref_libs body) (''./apps/'' @ c_str ''app1'') of Some c \<Rightarrow> c | None \<Rightarrow> []))
     = Some ref_config"
proof -
  have "''./apps/'' @ c_str ''app1'' = ''./apps/app1''" "c_str ''cfg'' = ''cfg''" by (simp_all add: c_eval)
  then show ?thesis by (simp add: ref_libs_def)
qed

lemma ref_ParseDeployment:
  "ParseDeployment (lib_json (ref_libs body)) (lib_files (ref_libs body)) ''app1'' = Inr
     \<lparr>metadata_bucket = ''eventing'', source_bucket = ''default'', source_endpoint = ''localhost'',
      component_configs = [(''buckets'', [(''beers'', [''beer'', ''beers'']), (''credit'', [''default'', ''credit''])]),
        (''queue'', [(''redis'', [''redis'', ''127.0.0.1:6379'', ''orders'', ''order_queue''])])]\<rparr>"
  using ParseDeployment_json [of "lib_json (ref_libs body)" "lib_files (ref_libs body)" "''app1''",
      OF ref_libs_config [unfolded ref_config_def]]
  by (simp add: std_map.assign_all_def c_eval)

lemma ref_Worker_new_any: "\<exists>w r. Worker_new (ref_libs body) i ''app1'' x = Inr (w, r)"
proof -
  have "stoi ''6379'' = Inr 6379" by (simp add: c_eval)
  then show ?thesis
    unfolding Worker_new_def ref_ParseDeployment
    by (simp add: vector_at_def Queue_new_def Let_def substr_to_def erase_to_def c_eval)
qed

lemma ref_Worker_new: "\<exists>w x. Worker_new (ref_libs body) 0 ''app1'' ref_world = Inr (w, x)"
  by (rule ref_Worker_new_any)

section \<open>The new worker\<close>

text \<open>
  C29. The constructor leaves a worker without handlers whose own handle is connected to the metadata
  bucket. Of the configured buckets it keeps the handle of the one with the greatest alias, with the
  name given last for that alias; of the queues it keeps the one with the greatest provider; where
  none is configured the pointer stays indeterminate.
\<close>

theorem Worker_new_correct:
  assumes json: "rj_parse (lib_json L) (c_str (case lib_files L (''./apps/'' @ c_str app) of Some c \<Rightarrow> c | None \<Rightarrow> []))
      = Some (deployment_json bs qs meta src)"
    and new: "Worker_new L i app x = Inr (w, x')"
  shows "cb_instance w = ''couchbase://localhost/'' @ c_str meta \<and> isolate_data1 w = Null
    \<and> on_update w = None \<and> on_delete w = None \<and> on_http_get w = None \<and> on_http_post w = None
    \<and> (bs = [] \<longleftrightarrow> bucket_handle w = Indeterminate) \<and> (qs = [] \<longleftrightarrow> queue_handle w = Indeterminate)
    \<and> (bs \<noteq> [] \<longrightarrow> (\<exists>b info. bucket_handle w = Ptr b \<and> bucket_alias b = Max ((\<lambda>b. c_str (snd b)) ` set bs)
         \<and> map_of (rev (map (\<lambda>b. (c_str (snd b), [c_str (fst b), c_str (snd b)])) bs)) (bucket_alias b) = Some info
         \<and> bucket_lcb_obj b = ''couchbase://localhost/'' @ c_str (info ! 0) \<and> bucket_worker_cb b = cb_instance w))
    \<and> (qs \<noteq> [] \<longrightarrow> (\<exists>q info. queue_handle w = Ptr q
         \<and> map_of (rev (map queue_info qs)) (Max (fst ` queue_info ` set qs)) = Some info
         \<and> queue_alias q = c_str (info ! 2) \<and> queue_name q = c_str (info ! 3)))"
proof -
  define bkv where "bkv = map (\<lambda>b. (c_str (snd b), [c_str (fst b), c_str (snd b)])) bs"
  define bm where "bm = std_map.assign_all bkv []"
  define qm where "qm = std_map.assign_all (map queue_info qs) []"
  obtain bh qh n where w: "w = (Worker_raw (js_new_context (lib_engine L)) i app)\<lparr>bucket_handle := bh,
        n1ql_handle := n, queue_handle := qh, cb_instance := ''couchbase://localhost/'' @ c_str meta\<rparr>"
    and bh: "bh = (if bm = [] then Indeterminate
        else Ptr (Bucket_new (''couchbase://localhost/'' @ c_str meta) (c_str (snd (last bm) ! 0)) (c_str ''localhost'') (c_str (fst (last bm)))))"
    and qh: "qm = [] \<longrightarrow> qh = Indeterminate"
      "qm \<noteq> [] \<longrightarrow> (\<exists>q. qh = Ptr q \<and> Queue_wf q \<and> queue_alias q = c_str (snd (last qm) ! 2)
                        \<and> queue_name q = c_str (snd (last qm) ! 3))"
    using Worker_new_json [OF json new, folded bkv_def, folded bm_def qm_def] by blast
  have bempty: "bm = [] \<longleftrightarrow> bs = []" and qempty: "qm = [] \<longleftrightarrow> qs = []"
    using assign_all_map(3) [of bkv] assign_all_map(3) [of "map queue_info qs"]
    by (auto simp: bkv_def bm_def qm_def)
  have c: "c_str ''localhost'' = ''localhost''" by (simp add: c_eval)
  have bucket: "\<exists>b info. bh = Ptr b \<and> bucket_alias b = Max ((\<lambda>b. c_str (snd b)) ` set bs)
         \<and> map_of (rev bkv) (bucket_alias b) = Some info
         \<and> bucket_lcb_obj b = ''couchbase://localhost/'' @ c_str (info ! 0) \<and> bucket_worker_cb b = ''couchbase://localhost/'' @ c_str meta"
    if "bs \<noteq> []"
  proof -
    note l = last_bucket [OF that, folded bkv_def, folded bm_def]
    let ?b = "Bucket_new (''couchbase://localhost/'' @ c_str meta) (c_str (snd (last bm) ! 0)) (c_str ''localhost'') (c_str (fst (last bm)))"
    have "bh = Ptr ?b" using l(1) by (simp add: bh)
    moreover have "bucket_alias ?b = c_str (fst (last bm))" "bucket_worker_cb ?b = ''couchbase://localhost/'' @ c_str meta"
      "bucket_lcb_obj ?b = ''couchbase://localhost/'' @ c_str (snd (last bm) ! 0)"
      by (simp_all add: Bucket_new_def c)
    ultimately show ?thesis using l(2,3) by metis
  qed
  have queue: "\<exists>q info. qh = Ptr q \<and> map_of (rev (map queue_info qs)) (Max (fst ` queue_info ` set qs)) = Some info
         \<and> queue_alias q = c_str (info ! 2) \<and> queue_name q = c_str (info ! 3)" if "qs \<noteq> []"
    using last_queue [OF that, folded qm_def] qh(2) by metis
  have "(bs = [] \<longleftrightarrow> bh = Indeterminate) \<and> (qs = [] \<longleftrightarrow> qh = Indeterminate)"
    using bh qh bempty qempty by auto
  then show ?thesis
    using bucket queue unfolding w bkv_def by (simp add: Worker_raw_def)
qed

theorem Worker_new_correct_witness:
  "\<exists>w x b q. Worker_new (ref_libs ends_quietly) 0 ''app1'' ref_world = Inr (w, x)
    \<and> cb_instance w = ''couchbase://localhost/eventing''
    \<and> bucket_handle w = Ptr b \<and> bucket_alias b = ''credit'' \<and> bucket_lcb_obj b = ''couchbase://localhost/default''
    \<and> queue_handle w = Ptr q \<and> queue_alias q = ''orders''"
proof -
  obtain w x where new: "Worker_new (ref_libs ends_quietly) 0 ''app1'' ref_world = Inr (w, x)"
    using ref_Worker_new by blast
  have mx: "Max ((\<lambda>b. c_str (snd b)) ` set [(''default'', ''credit''), (''beer'', ''beers'')]) = ''credit''"
    "Max (fst ` queue_info ` set [(''redis'', ''order_queue'', ''127.0.0.1:6379'', ''orders'')]) = ''redis''"
    by (simp_all add: c_eval max_def less_eq_list_code)
  note correct = Worker_new_correct [OF ref_libs_config [unfolded ref_config_def] new, unfolded mx]
  obtain b info where b: "bucket_handle w = Ptr b" "bucket_alias b = ''credit''"
    "map_of (rev (map (\<lambda>b. (c_str (snd b), [c_str (fst b), c_str (snd b)])) [(''default'', ''credit''), (''beer'', ''beers'')])) (bucket_alias b) = Some info"
    "bucket_lcb_obj b = ''couchbase://localhost/'' @ c_str (info ! 0)"
    using correct list.distinct(1) by blast
  have "info = [''default'', ''credit'']" using b(3) unfolding b(2) by (simp add: c_eval)
  then have lcb: "bucket_lcb_obj b = ''couchbase://localhost/default''" using b(4) by (simp add: c_eval)
  obtain q info where q: "queue_handle w = Ptr q" "queue_alias q = c_str (info ! 2)"
    "map_of (rev (map queue_info [(''redis'', ''order_queue'', ''127.0.0.1:6379'', ''orders'')])) ''redis'' = Some info"
    using correct list.distinct(1) by blast
  have "info = [''redis'', ''127.0.0.1:6379'', ''orders'', ''order_queue'']" using q(3) by (simp add: c_eval)
  then have "queue_alias q = ''orders''" using q(2) by (simp add: c_eval)
  moreover have "cb_instance w = ''couchbase://localhost/'' @ c_str ''eventing''" using correct by blast
  ultimately show ?thesis using new b(1,2) lcb q(1) by (auto simp: c_eval)
qed

section \<open>Loading\<close>

text \<open>A worker whose handles the constructor has set, with the objects they install.\<close>

definition handles_ready :: "('h, 'v) Worker \<Rightarrow> Bucket \<Rightarrow> N1QL \<Rightarrow> Queue \<Rightarrow> bool" where
  "handles_ready w b n q \<longleftrightarrow>
     bucket_handle w = Ptr b \<and> n1ql_handle w = Ptr n \<and> queue_handle w = Ptr q \<and> Bucket_wf b \<and> N1QL_wf n \<and> Queue_wf q"

definition installed :: "globals \<Rightarrow> Bucket \<Rightarrow> N1QL \<Rightarrow> Queue \<Rightarrow> globals" where
  "installed g b n q = g(bucket_alias b \<mapsto> bucket_object b, n1ql_alias n \<mapsto> n1ql_object n, queue_alias q \<mapsto> queue_object q)"

lemma ExecuteScript_frame:
  assumes "ExecuteScript L src (w, x) = Inr (ok, w', x')"
  shows "host_frame (w\<lparr>last_exception := last_exception w'\<rparr>, x) (w', x')"
    and "ok \<Longrightarrow> last_exception w' = last_exception w"
proof -
  consider tc where "js_compile (lib_engine L) (context_heap w) src = Inl tc" "ok = False"
      "w' = w\<lparr>last_exception := ExceptionString tc\<rparr>" "x' = x"
    | js e w1 where "run_js L js (w, x) = Inr (e, w1, x')" "ok = (e = None)"
      "w' = (case e of Some tc \<Rightarrow> w1\<lparr>last_exception := ExceptionString tc\<rparr> | None \<Rightarrow> w1)"
    using assms by (auto simp: ExecuteScript_def res_bind_eq_Inr_iff split: sum.splits option.splits)
  then have "host_frame (w\<lparr>last_exception := last_exception w'\<rparr>, x) (w', x') \<and> (ok \<longrightarrow> last_exception w' = last_exception w)"
  proof cases
    case 1
    then show ?thesis by (simp add: host_frame_def)
  next
    case 2
    then have f: "host_frame (w, x) (w1, x')" using run_js_frame by blast
    then obtain h hr where "w1 = w\<lparr>context_heap := h, http_response_handle := hr\<rparr>" by (auto simp: host_frame_def)
    then show ?thesis using f 2 by (cases e) (simp_all add: host_frame_def)
  qed
  then show "host_frame (w\<lparr>last_exception := last_exception w'\<rparr>, x) (w', x')"
    "ok \<Longrightarrow> last_exception w' = last_exception w" by blast+
qed

lemma init_bucket_eq:
  "bucket_handle w = Ptr b \<Longrightarrow> Bucket_wf b \<Longrightarrow>
     \<exists>b'. init_bucket (w, x) = Inr (None, w\<lparr>bucket_handle := Ptr b',
         context_globals := (context_globals w)(bucket_alias b \<mapsto> bucket_object b)\<rparr>, x)
       \<and> Bucket_wf b' \<and> bucket_worker_cb b' = bucket_worker_cb b"
  by (rule exI [of _ "b\<lparr>bucket_map_template := Some MakeBucketMapTemplate\<rparr>"]) (simp add: init_bucket_def Bucket_Initialize_eq Let_def Bucket_wf_def)

lemma init_n1ql_eq:
  "n1ql_handle w = Ptr n \<Longrightarrow> N1QL_wf n \<Longrightarrow>
     \<exists>n'. init_n1ql (w, x) = Inr (None, w\<lparr>n1ql_handle := Ptr n',
         context_globals := (context_globals w)(n1ql_alias n \<mapsto> n1ql_object n)\<rparr>, x) \<and> N1QL_wf n'"
  by (rule exI [of _ "n\<lparr>n1ql_map_template := Some MakeN1QLMapTemplate\<rparr>"]) (simp add: init_n1ql_def N1QL_Initialize_eq Let_def N1QL_wf_def)

lemma init_queue_eq:
  "queue_handle w = Ptr q \<Longrightarrow> Queue_wf q \<Longrightarrow>
     \<exists>q'. init_queue (w, x) = Inr (None, w\<lparr>queue_handle := Ptr q',
         context_globals := (context_globals w)(queue_alias q \<mapsto> queue_object q)\<rparr>, x) \<and> Queue_wf q'"
  by (rule exI [of _ "q\<lparr>queue_map_template := Some MakeQueueMapTemplate\<rparr>"]) (simp add: init_queue_def Queue_Initialize_eq Let_def Queue_wf_def)

lemma or_return_None [simp]: "or_return (Inr (None, st)) k = k st"
  by (simp add: or_return_def)

lemma or_return_Inl [simp]: "or_return (Inl e) k = Inl e"
  by (simp add: or_return_def)

text \<open>The load after the script has run and the four functions were found.\<close>

definition load_handles ::
  "('h, 'v, 's, 'r, 'm) state \<Rightarrow> (RETURN_CODE \<times> ('h, 'v, 's, 'r, 'm) state) result" where
  "load_handles st2 =
     or_return (init_bucket st2) (\<lambda>st3.
     or_return (init_n1ql st3) (\<lambda>st4.
     or_return (init_queue st4) (\<lambda>(w5, x5). Inr (SUCCESS, w5\<lparr>isolate_data1 := Ptr (cb_instance w5)\<rparr>, x5))))"

lemma load_handles_ready:
  assumes "handles_ready w b n q"
  shows "\<exists>b' n' q'. load_handles (w, x) = Inr (SUCCESS, w\<lparr>bucket_handle := Ptr b', n1ql_handle := Ptr n', queue_handle := Ptr q',
      context_globals := installed (context_globals w) b n q, isolate_data1 := Ptr (cb_instance w)\<rparr>, x)
    \<and> Bucket_wf b' \<and> bucket_worker_cb b' = bucket_worker_cb b \<and> N1QL_wf n' \<and> Queue_wf q'"
proof -
  have h: "bucket_handle w = Ptr b" "n1ql_handle w = Ptr n" "queue_handle w = Ptr q" "Bucket_wf b" "N1QL_wf n" "Queue_wf q"
    using assms by (simp_all add: handles_ready_def)
  obtain b' where b': "init_bucket (w, x) = Inr (None, w\<lparr>bucket_handle := Ptr b',
         context_globals := (context_globals w)(bucket_alias b \<mapsto> bucket_object b)\<rparr>, x)" "Bucket_wf b'"
    "bucket_worker_cb b' = bucket_worker_cb b"
    using init_bucket_eq [OF h(1,4)] by blast
  let ?w1 = "w\<lparr>bucket_handle := Ptr b', context_globals := (context_globals w)(bucket_alias b \<mapsto> bucket_object b)\<rparr>"
  obtain n' where n': "init_n1ql (?w1, x) = Inr (None, ?w1\<lparr>n1ql_handle := Ptr n',
         context_globals := (context_globals ?w1)(n1ql_alias n \<mapsto> n1ql_object n)\<rparr>, x)" "N1QL_wf n'"
    using init_n1ql_eq [of ?w1 n x] h(2,5) by auto
  let ?w2 = "?w1\<lparr>n1ql_handle := Ptr n', context_globals := (context_globals ?w1)(n1ql_alias n \<mapsto> n1ql_object n)\<rparr>"
  obtain q' where q': "init_queue (?w2, x) = Inr (None, ?w2\<lparr>queue_handle := Ptr q',
         context_globals := (context_globals ?w2)(queue_alias q \<mapsto> queue_object q)\<rparr>, x)" "Queue_wf q'"
    using init_queue_eq [of ?w2 q x] h(3,6) by auto
  show ?thesis
    unfolding load_handles_def b'(1) or_return_None n'(1) q'(1)
    using b'(2,3) n'(2) q'(2) by (intro exI [of _ b'] exI [of _ n'] exI [of _ q']) (simp add: installed_def)
qed

lemma WorkerLoad_eq:
  "WorkerLoad L name_s source_s (w, x) =
     (let script = script_of (lib_files L) source_s
      in res_bind (ExecuteScript L (c_str script) (w\<lparr>script_to_execute := script\<rparr>, x)) (\<lambda>(ok, w1, x1).
         if \<not> ok then Inr (FAILED_TO_COMPILE_JS, w1, x1)
         else
           let get = global_function (lib_engine L) (context_heap w1)
           in case (get ''OnUpdate'', get ''OnDelete'', get ''OnHTTPGet'', get ''OnHTTPPost'') of
                (Some u, Some d, Some g, Some p) \<Rightarrow>
                  load_handles (w1\<lparr>on_update := Some u, on_delete := Some d, on_http_get := Some g, on_http_post := Some p\<rparr>, x1)
              | _ \<Rightarrow> Inr (NO_HANDLERS_DEFINED, w1, x1)))"
  unfolding WorkerLoad_def load_handles_def Let_def prod.case ..

text \<open>
  C6. A load of a script that runs to its end and defines the four handlers as functions, on a worker
  whose three handles are set, returns SUCCESS: the four functions are kept, the aliases of the bucket,
  the query object and the queue are bound to their objects in this order and no other name changes,
  and the isolate's slot points to the worker's handle.
\<close>

theorem WorkerLoad_success:
  assumes script: "ExecuteScript L (c_str (script_of (lib_files L) src)) (w\<lparr>script_to_execute := script_of (lib_files L) src\<rparr>, x)
      = Inr (True, w1, x1)"
    and handlers: "global_function (lib_engine L) (context_heap w1) ''OnUpdate'' = Some u"
      "global_function (lib_engine L) (context_heap w1) ''OnDelete'' = Some d"
      "global_function (lib_engine L) (context_heap w1) ''OnHTTPGet'' = Some g"
      "global_function (lib_engine L) (context_heap w1) ''OnHTTPPost'' = Some p"
    and handles: "handles_ready w b n q"
  shows "\<exists>w'. WorkerLoad L name_s src (w, x) = Inr (SUCCESS, w', x1)
    \<and> on_update w' = Some u \<and> on_delete w' = Some d \<and> on_http_get w' = Some g \<and> on_http_post w' = Some p
    \<and> context_globals w' = installed (context_globals w) b n q \<and> isolate_data1 w' = Ptr (cb_instance w)
    \<and> script_to_execute w' = script_of (lib_files L) src \<and> context_heap w' = context_heap w1"
proof -
  note fr = host_frameD [OF ExecuteScript_frame(1) [OF script]]
  let ?w = "w1\<lparr>on_update := Some u, on_delete := Some d, on_http_get := Some g, on_http_post := Some p\<rparr>"
  have "handles_ready ?w b n q" using handles fr by (simp add: handles_ready_def)
  then obtain b' n' q' where "load_handles (?w, x1) = Inr (SUCCESS, ?w\<lparr>bucket_handle := Ptr b', n1ql_handle := Ptr n',
      queue_handle := Ptr q', context_globals := installed (context_globals ?w) b n q, isolate_data1 := Ptr (cb_instance ?w)\<rparr>, x1)"
    using load_handles_ready [of ?w b n q x1] by blast
  then show ?thesis
    using fr unfolding WorkerLoad_eq Let_def script by (simp add: handlers)
qed

text \<open>A worker as the constructor leaves it, and a source that defines the four handlers.\<close>

definition ref_bucket :: Bucket where
  "ref_bucket = Bucket_new ''couchbase://localhost/eventing'' ''default'' ''localhost'' ''credit''"

definition ref_n1ql :: N1QL where
  "ref_n1ql = N1QL_new ''default'' ''localhost'' ''_n1ql''"

definition ref_queue :: Queue where
  "ref_queue = \<lparr>queue_provider = ''redis'', queue_endpoint = ''6379'', queue_alias = ''orders'', queue_name = ''order_queue'',
     queue_map_template = None\<rparr>"

definition ref_worker :: "(string, string) Worker" where
  "ref_worker = (Worker_raw [] 0 ''app1'')\<lparr>bucket_handle := Ptr ref_bucket, n1ql_handle := Ptr ref_n1ql,
     queue_handle := Ptr ref_queue, cb_instance := ''couchbase://localhost/eventing''\<rparr>"

definition ref_source :: string where
  "ref_source = ''OnUpdate OnDelete OnHTTPGet OnHTTPPost expired''"

lemma ref_handles_ready: "handles_ready ref_worker ref_bucket ref_n1ql ref_queue"
  by (simp add: handles_ready_def ref_worker_def ref_bucket_def ref_n1ql_def ref_queue_def Queue_wf_def)

lemma ref_script: "script_of (lib_files (ref_libs body)) ref_source = ref_source" "c_str ref_source = ref_source"
  by (simp_all add: script_of_eq rewrite_enqueue_absent rewrite_n1ql_absent strstr_def n1ql_open_def LoadBuiltins_def
    ref_libs_def ref_source_def c_eval)

lemma ref_execute:
  "ExecuteScript (ref_libs body) (c_str ref_source) (w, x) = Inr (True, w\<lparr>context_heap := ref_source\<rparr>, x)"
  by (simp add: ExecuteScript_def ref_engine_def ref_script(2)) (simp add: ref_source_def)

lemma ref_functions:
  "f \<in> {''OnUpdate'', ''OnDelete'', ''OnHTTPGet'', ''OnHTTPPost'', ''expired''} \<Longrightarrow>
     global_function (ref_engine body) ref_source f = Some f"
  by (auto simp: global_function_def ref_engine_def ref_source_def strstr_def)

lemma ref_load:
  "\<exists>w'. WorkerLoad (ref_libs body) ''app1'' ref_source (ref_worker, ref_world) = Inr (SUCCESS, w', ref_world)
     \<and> context_heap w' = ref_source"
proof -
  let ?w = "ref_worker\<lparr>script_to_execute := ref_source, context_heap := ref_source, on_update := Some ''OnUpdate'',
    on_delete := Some ''OnDelete'', on_http_get := Some ''OnHTTPGet'', on_http_post := Some ''OnHTTPPost''\<rparr>"
  have "handles_ready ?w ref_bucket ref_n1ql ref_queue" using ref_handles_ready by (simp add: handles_ready_def)
  then obtain w' where "load_handles (?w, ref_world) = Inr (SUCCESS, w', ref_world)" "context_heap w' = context_heap ?w"
    using load_handles_ready [of ?w ref_bucket ref_n1ql ref_queue ref_world] by fastforce
  then show ?thesis
    using ref_functions [of "''OnUpdate''"] ref_functions [of "''OnDelete''"] ref_functions [of "''OnHTTPGet''"]
      ref_functions [of "''OnHTTPPost''"]
    by (simp add: WorkerLoad_eq ref_script(1) ref_execute Let_def)
qed

theorem WorkerLoad_success_witness:
  "\<exists>w'. WorkerLoad (ref_libs ends_quietly) ''app1'' ref_source (ref_worker, ref_world) = Inr (SUCCESS, w', ref_world)
    \<and> on_update w' = Some ''OnUpdate'' \<and> context_globals w' ''credit'' = Some (bucket_object ref_bucket)
    \<and> isolate_data1 w' = Ptr ''couchbase://localhost/eventing''"
proof -
  have ex: "ExecuteScript (ref_libs ends_quietly) (c_str (script_of (lib_files (ref_libs ends_quietly)) ref_source))
      (ref_worker\<lparr>script_to_execute := script_of (lib_files (ref_libs ends_quietly)) ref_source\<rparr>, ref_world)
      = Inr (True, ref_worker\<lparr>script_to_execute := ref_source, context_heap := ref_source\<rparr>, ref_world)"
    by (simp add: ref_script(1) ref_execute)
  have f: "global_function (lib_engine (ref_libs ends_quietly))
        (context_heap (ref_worker\<lparr>script_to_execute := ref_source, context_heap := ref_source\<rparr>)) h = Some h"
    if "h \<in> {''OnUpdate'', ''OnDelete'', ''OnHTTPGet'', ''OnHTTPPost''}" for h
    using that ref_functions [of h] by auto
  have "installed (context_globals ref_worker) ref_bucket ref_n1ql ref_queue ''credit'' = Some (bucket_object ref_bucket)"
    by (simp add: installed_def ref_bucket_def ref_n1ql_def ref_queue_def Bucket_new_def N1QL_new_def c_eval)
  moreover have "cb_instance ref_worker = ''couchbase://localhost/eventing''" by (simp add: ref_worker_def)
  ultimately show ?thesis
    using WorkerLoad_success [OF ex f f f f ref_handles_ready, of "''app1''"] by auto
qed

lemma WorkerLoad_compile_error:
  "js_compile (lib_engine L) (context_heap w) (c_str (script_of (lib_files L) src)) = Inl tc \<Longrightarrow>
     WorkerLoad L name_s src (w, x) =
       Inr (FAILED_TO_COMPILE_JS, w\<lparr>script_to_execute := script_of (lib_files L) src, last_exception := ExceptionString tc\<rparr>, x)"
  by (simp add: WorkerLoad_eq Let_def ExecuteScript_def)

lemma WorkerLoad_no_handlers:
  assumes script: "ExecuteScript L (c_str (script_of (lib_files L) src)) (w\<lparr>script_to_execute := script_of (lib_files L) src\<rparr>, x)
      = Inr (True, w1, x1)"
    and h: "\<exists>h \<in> {''OnUpdate'', ''OnDelete'', ''OnHTTPGet'', ''OnHTTPPost''}. global_function (lib_engine L) (context_heap w1) h = None"
  shows "WorkerLoad L name_s src (w, x) = Inr (NO_HANDLERS_DEFINED, w1, x1)
        \<and> on_update w1 = on_update w \<and> on_delete w1 = on_delete w \<and> on_http_get w1 = on_http_get w
        \<and> on_http_post w1 = on_http_post w \<and> context_globals w1 = context_globals w \<and> isolate_data1 w1 = isolate_data1 w"
proof -
  have "WorkerLoad L name_s src (w, x) = Inr (NO_HANDLERS_DEFINED, w1, x1)"
    using h unfolding WorkerLoad_eq Let_def script by (auto split: option.splits)
  then show ?thesis using host_frameD(1-5,7) [OF ExecuteScript_frame(1) [OF script]] by simp
qed

lemma WorkerLoad_no_bucket:
  assumes script: "ExecuteScript L (c_str (script_of (lib_files L) src)) (w\<lparr>script_to_execute := script_of (lib_files L) src\<rparr>, x)
      = Inr (True, w1, x1)"
    and h: "\<forall>h \<in> {''OnUpdate'', ''OnDelete'', ''OnHTTPGet'', ''OnHTTPPost''}. global_function (lib_engine L) (context_heap w1) h \<noteq> None"
    and b: "bucket_handle w = Indeterminate"
  shows "WorkerLoad L name_s src (w, x) = Inl Uninitialised_read"
proof -
  have "bucket_handle w1 = Indeterminate" using b host_frameD(11) [OF ExecuteScript_frame(1) [OF script]] by simp
  then show ?thesis
    using h unfolding WorkerLoad_eq Let_def script by (auto simp: load_handles_def init_bucket_def)
qed

text \<open>
  C40. A load whose script does not compile or throws returns FAILED_TO_COMPILE_JS with the exception's
  text as the last exception; one that leaves a handler undefined, or bound to something that is not a
  function, returns NO_HANDLERS_DEFINED and changes no handler and no binding; and one on a worker
  without a configured bucket reads an indeterminate pointer.
\<close>

theorem WorkerLoad_failures:
  fixes L :: "('h, 'v, 's, 'r, 'm) libs" and w :: "('h, 'v) Worker" and src :: string
  defines "script \<equiv> script_of (lib_files L) src"
  shows "(\<forall>tc. js_compile (lib_engine L) (context_heap w) (c_str script) = Inl tc \<longrightarrow>
        WorkerLoad L name_s src (w, x) =
          Inr (FAILED_TO_COMPILE_JS, w\<lparr>script_to_execute := script, last_exception := ExceptionString tc\<rparr>, x))
    \<and> (\<forall>w1 x1. ExecuteScript L (c_str script) (w\<lparr>script_to_execute := script\<rparr>, x) = Inr (True, w1, x1) \<longrightarrow>
        (\<exists>h \<in> {''OnUpdate'', ''OnDelete'', ''OnHTTPGet'', ''OnHTTPPost''}.
           global_function (lib_engine L) (context_heap w1) h = None) \<longrightarrow>
        WorkerLoad L name_s src (w, x) = Inr (NO_HANDLERS_DEFINED, w1, x1)
        \<and> on_update w1 = on_update w \<and> on_delete w1 = on_delete w \<and> on_http_get w1 = on_http_get w
        \<and> on_http_post w1 = on_http_post w \<and> context_globals w1 = context_globals w \<and> isolate_data1 w1 = isolate_data1 w)
    \<and> (\<forall>w1 x1. ExecuteScript L (c_str script) (w\<lparr>script_to_execute := script\<rparr>, x) = Inr (True, w1, x1) \<longrightarrow>
        (\<forall>h \<in> {''OnUpdate'', ''OnDelete'', ''OnHTTPGet'', ''OnHTTPPost''}.
           global_function (lib_engine L) (context_heap w1) h \<noteq> None) \<longrightarrow>
        bucket_handle w = Indeterminate \<longrightarrow> WorkerLoad L name_s src (w, x) = Inl Uninitialised_read)"
  unfolding script_def
  by (rule conjI [OF _ conjI]; intro allI impI;
      (rule WorkerLoad_compile_error | rule WorkerLoad_no_handlers | rule WorkerLoad_no_bucket); assumption)

theorem WorkerLoad_failures_witness:
  "WorkerLoad (ref_libs ends_quietly) ''app1'' [] (Worker_raw [] 0 ''app1'', ref_world) =
     Inr (FAILED_TO_COMPILE_JS, (Worker_raw [] 0 ''app1'')\<lparr>last_exception := ''SyntaxError'' @ newline\<rparr>, ref_world)"
proof -
  have script: "script_of (lib_files (ref_libs ends_quietly)) [] = []"
    by (simp add: script_of_eq rewrite_enqueue_absent rewrite_n1ql_absent strstr_def n1ql_open_def LoadBuiltins_def ref_libs_def)
  have "js_compile (lib_engine (ref_libs ends_quietly)) (context_heap (Worker_raw [] 0 ''app1'' :: (string, string) Worker)) (c_str []) = Inl ref_exception"
    by (simp add: ref_engine_def)
  then show ?thesis
    using WorkerLoad_failures [of "ref_libs ends_quietly" "Worker_raw [] 0 ''app1''" "[]" "''app1''" ref_world]
    unfolding script by (simp add: ExceptionString_def ToCString_def ref_exception_def Worker_raw_def c_eval)
qed

text \<open>After any successful load of a worker with its handles set, the three objects are installed.\<close>

lemma WorkerLoad_installs:
  assumes load: "WorkerLoad L name_s src (w, x) = Inr (SUCCESS, w', x')" and handles: "handles_ready w b n q"
  shows "context_globals w' = installed (context_globals w) b n q \<and> isolate_data1 w' = Ptr (cb_instance w')
    \<and> cb_instance w' = cb_instance w \<and> start_debug_flag w' = start_debug_flag w
    \<and> on_update w' = global_function (lib_engine L) (context_heap w') ''OnUpdate''"
proof -
  let ?s = "script_of (lib_files L) src"
  obtain ok w1 x1 where ex: "ExecuteScript L (c_str ?s) (w\<lparr>script_to_execute := ?s\<rparr>, x) = Inr (ok, w1, x1)"
    using load unfolding WorkerLoad_eq Let_def by (auto simp: res_bind_eq_Inr_iff)
  then obtain u d g p where
    l: "load_handles (w1\<lparr>on_update := Some u, on_delete := Some d, on_http_get := Some g, on_http_post := Some p\<rparr>, x1) = Inr (SUCCESS, w', x')"
      "global_function (lib_engine L) (context_heap w1) ''OnUpdate'' = Some u"
    using load unfolding WorkerLoad_eq Let_def by (auto split: if_splits option.splits)
  note fr = host_frameD [OF ExecuteScript_frame(1) [OF ex]]
  have "handles_ready (w1\<lparr>on_update := Some u, on_delete := Some d, on_http_get := Some g, on_http_post := Some p\<rparr>) b n q"
    using handles fr by (simp add: handles_ready_def)
  from load_handles_ready [OF this, of x1] l fr show ?thesis by auto
qed

end
