(* ===== verification/Delivery.thy ===== *)
theory Delivery
  imports Worker
begin

text \<open>
  What a worker does after it is built: the invariant that every sequence of calls keeps, what an
  update, a delete, an HTTP request and a timer event do on each of their branches.
\<close>

section \<open>The invariant of a worker\<close>

definition worker_inv :: "string \<Rightarrow> ('h, 'v) Worker \<Rightarrow> bool" where
  "worker_inv cb w \<longleftrightarrow>
     cb_instance w = cb \<and> HTTPResponse_wf (http_response_handle w)
   \<and> (case bucket_handle w of Indeterminate \<Rightarrow> True | Null \<Rightarrow> False | Ptr b \<Rightarrow> Bucket_wf b \<and> bucket_worker_cb b = cb)
   \<and> (case n1ql_handle w of Ptr n \<Rightarrow> N1QL_wf n | _ \<Rightarrow> False)
   \<and> (case queue_handle w of Indeterminate \<Rightarrow> True | Null \<Rightarrow> False | Ptr q \<Rightarrow> Queue_wf q)
   \<and> (isolate_data1 w = Null \<or> isolate_data1 w = Ptr cb
        \<and> on_update w \<noteq> None \<and> on_delete w \<noteq> None \<and> on_http_get w \<noteq> None \<and> on_http_post w \<noteq> None)
   \<and> (\<forall>obj \<in> ran (context_globals w). host_typed obj)"

lemma installed_typed:
  assumes "\<forall>obj \<in> ran g. host_typed obj"
  shows "\<forall>obj \<in> ran (installed g b n q). host_typed obj"
  using assms by (auto simp: installed_def ran_def bucket_object_def n1ql_object_def queue_object_def host_typed_def split: if_splits)

lemma worker_inv_frame:
  assumes "worker_inv cb w" "host_frame (w, x) (w', x')"
  shows "worker_inv cb w'"
  using assms(1) host_frameD [OF assms(2)] by (simp add: worker_inv_def)

lemma worker_inv_simps [simp]:
  "worker_inv cb (w\<lparr>last_exception := e\<rparr>) = worker_inv cb w"
  "worker_inv cb (w\<lparr>script_to_execute := e\<rparr>) = worker_inv cb w"
  "worker_inv cb (w\<lparr>start_debug_flag := f\<rparr>) = worker_inv cb w"
  "worker_inv cb (w\<lparr>context_heap := h\<rparr>) = worker_inv cb w"
  by (simp_all add: worker_inv_def)

lemma worker_inv_response: "worker_inv cb w \<Longrightarrow> HTTPResponse_wf hr \<Longrightarrow> worker_inv cb (w\<lparr>http_response_handle := hr\<rparr>)"
  by (simp add: worker_inv_def)

lemma worker_inv_new:
  assumes "Worker_new L i app x = Inr (w, x')"
  shows "worker_inv (cb_instance w) w"
proof -
  obtain cfg where cfg: "ParseDeployment (lib_json L) (lib_files L) app = Inr cfg"
    using assms by (auto simp: Worker_new_def res_bind_eq_Inr_iff)
  obtain bm qm where "component_configs cfg = [(''buckets'', bm), (''queue'', qm)]"
    using ParseDeployment_components [OF cfg] by blast
  from Worker_new_shape [OF cfg this assms] obtain bh qh where
    "w = (Worker_raw (js_new_context (lib_engine L)) i app)\<lparr>bucket_handle := bh,
        n1ql_handle := Ptr (N1QL_new (c_str (source_bucket cfg)) (c_str (source_endpoint cfg)) ''_n1ql''),
        queue_handle := qh, cb_instance := metadata_connstr cfg\<rparr>"
    "bh = Indeterminate \<or> (\<exists>n e a. bh = Ptr (Bucket_new (metadata_connstr cfg) n e a))"
    "qh = Indeterminate \<or> (\<exists>q. qh = Ptr q \<and> Queue_wf q)"
    by (elim exE conjE) (metis (full_types))
  then show ?thesis
    by (auto simp: worker_inv_def Worker_raw_def HTTPResponse_wf_def HTTPResponse_new_def Bucket_new_def Bucket_wf_def)
qed

text \<open>With the invariant, the last part of a load can only succeed.\<close>

lemma load_handles_inv:
  assumes inv: "worker_inv cb w" and on: "on_update w \<noteq> None" "on_delete w \<noteq> None" "on_http_get w \<noteq> None" "on_http_post w \<noteq> None"
    and load: "load_handles (w, x) = Inr (c, w', x')"
  shows "c = SUCCESS \<and> worker_inv cb w' \<and> isolate_data1 w' = Ptr cb"
proof -
  have "bucket_handle w \<noteq> Indeterminate"
    using load by (auto simp: load_handles_def init_bucket_def)
  then obtain b where b: "bucket_handle w = Ptr b" "Bucket_wf b" "bucket_worker_cb b = cb"
    using inv by (auto simp: worker_inv_def split: pointer.splits)
  obtain n where n: "n1ql_handle w = Ptr n" "N1QL_wf n" using inv by (auto simp: worker_inv_def split: pointer.splits)
  have "queue_handle w \<noteq> Indeterminate"
  proof
    assume q: "queue_handle w = Indeterminate"
    obtain b' where "init_bucket (w, x) = Inr (None, w\<lparr>bucket_handle := Ptr b',
         context_globals := (context_globals w)(bucket_alias b \<mapsto> bucket_object b)\<rparr>, x)"
      using init_bucket_eq [OF b(1,2)] by blast
    moreover obtain n' where "init_n1ql (w\<lparr>bucket_handle := Ptr b',
         context_globals := (context_globals w)(bucket_alias b \<mapsto> bucket_object b)\<rparr>, x) =
       Inr (None, w\<lparr>bucket_handle := Ptr b', n1ql_handle := Ptr n',
         context_globals := (context_globals w)(bucket_alias b \<mapsto> bucket_object b, n1ql_alias n \<mapsto> n1ql_object n)\<rparr>, x)"
      using init_n1ql_eq [of "w\<lparr>bucket_handle := Ptr b',
         context_globals := (context_globals w)(bucket_alias b \<mapsto> bucket_object b)\<rparr>" n x] n by auto
    ultimately show False using load q by (simp add: load_handles_def init_queue_def)
  qed
  then obtain q where q: "queue_handle w = Ptr q" "Queue_wf q" using inv by (auto simp: worker_inv_def split: pointer.splits)
  have "handles_ready w b n q" using b n q by (simp add: handles_ready_def)
  from load_handles_ready [OF this, of x] obtain b' n' q' where
    "load_handles (w, x) = Inr (SUCCESS, w\<lparr>bucket_handle := Ptr b', n1ql_handle := Ptr n', queue_handle := Ptr q',
      context_globals := installed (context_globals w) b n q, isolate_data1 := Ptr (cb_instance w)\<rparr>, x)"
    "Bucket_wf b'" "bucket_worker_cb b' = bucket_worker_cb b" "N1QL_wf n'" "Queue_wf q'"
    by blast
  then show ?thesis using load inv on b(3) installed_typed [of "context_globals w" b n q] by (auto simp: worker_inv_def)
qed

lemma WorkerLoad_inv:
  assumes inv: "worker_inv cb w" and load: "WorkerLoad L name_s src (w, x) = Inr (c, w', x')"
  shows "worker_inv cb w' \<and> c \<in> {SUCCESS, FAILED_TO_COMPILE_JS, NO_HANDLERS_DEFINED}
    \<and> (c = SUCCESS \<longrightarrow> isolate_data1 w' = Ptr cb) \<and> (c \<noteq> SUCCESS \<longrightarrow> isolate_data1 w' = isolate_data1 w)"
proof -
  let ?s = "script_of (lib_files L) src"
  obtain ok w1 x1 where ex: "ExecuteScript L (c_str ?s) (w\<lparr>script_to_execute := ?s\<rparr>, x) = Inr (ok, w1, x1)"
    and rest: "(if \<not> ok then Inr (FAILED_TO_COMPILE_JS, w1, x1)
      else case (global_function (lib_engine L) (context_heap w1) ''OnUpdate'', global_function (lib_engine L) (context_heap w1) ''OnDelete'',
                 global_function (lib_engine L) (context_heap w1) ''OnHTTPGet'', global_function (lib_engine L) (context_heap w1) ''OnHTTPPost'') of
             (Some u, Some d, Some g, Some p) \<Rightarrow>
               load_handles (w1\<lparr>on_update := Some u, on_delete := Some d, on_http_get := Some g, on_http_post := Some p\<rparr>, x1)
           | _ \<Rightarrow> Inr (NO_HANDLERS_DEFINED, w1, x1)) = Inr (c, w', x')"
    using load unfolding WorkerLoad_eq Let_def by (auto simp: res_bind_eq_Inr_iff)
  note fr = ExecuteScript_frame(1) [OF ex]
  have inv1: "worker_inv cb w1" using worker_inv_frame [OF _ fr] inv by simp
  have data: "isolate_data1 w1 = isolate_data1 w" using host_frameD(5) [OF fr] by simp
  show ?thesis
  proof (cases "c \<in> {FAILED_TO_COMPILE_JS, NO_HANDLERS_DEFINED} \<and> w' = w1")
    case True
    then show ?thesis using inv1 data by auto
  next
    case False
    then obtain u d g p where
      "load_handles (w1\<lparr>on_update := Some u, on_delete := Some d, on_http_get := Some g, on_http_post := Some p\<rparr>, x1) = Inr (c, w', x')"
      using rest by (auto split: if_splits option.splits)
    moreover have "worker_inv cb (w1\<lparr>on_update := Some u, on_delete := Some d, on_http_get := Some g, on_http_post := Some p\<rparr>)"
      using inv1 by (auto simp: worker_inv_def)
    ultimately have "c = SUCCESS \<and> worker_inv cb w' \<and> isolate_data1 w' = Ptr cb"
      by (intro load_handles_inv) simp_all
    then show ?thesis by simp
  qed
qed

lemma finish_delivery_worker: "finish_delivery L (w, x) = Inr (w', x') \<Longrightarrow> w' = w \<and> data_ready (debugger x')"
  by (auto simp: finish_delivery_def res_bind_eq_Inr_iff set_ready_def)

lemma SendDelete_inv:
  "worker_inv cb w \<Longrightarrow> SendDelete L msg (w, x) = Inr (c, w', x') \<Longrightarrow> worker_inv cb w'"
  by (auto simp: SendDelete_def res_bind_eq_Inr_iff split: option.splits
      dest!: call_function_frame finish_delivery_worker intro: worker_inv_frame)

text \<open>The state in which an update calls the handler.\<close>

definition update_arguments ::
  "('h, 'v, 's, 'r, 'm) libs \<Rightarrow> string \<Rightarrow> string \<Rightarrow> string \<Rightarrow> 'v argument list \<times> try_catch option" where
  "update_arguments L value meta doc_type =
     (let a0 = (if c_str doc_type = ''json'' then json_argument L value
                else (Arg (Some (v8_string (lib_v8 L) (c_str value))), None));
          a1 = json_argument L meta
      in ([fst a0, fst a1], later_exception (snd a0) (snd a1)))"

definition log_caught ::
  "try_catch option \<Rightarrow> ('h, 'v) Worker \<times> ('s, 'r, 'm) world \<Rightarrow> ('h, 'v) Worker \<times> ('s, 'r, 'm) world" where
  "log_caught caught = (\<lambda>(w, x).
     case caught of
       Some tc \<Rightarrow> (w\<lparr>last_exception := ExceptionString tc\<rparr>, x\<lparr>stderr := stderr x @ logged (ExceptionString tc)\<rparr>)
     | None \<Rightarrow> (w, x))"

lemma SendUpdate_eq:
  "SendUpdate L value meta doc_type (w, x) =
     (let (args, caught) = update_arguments L value meta doc_type
      in res_bind (call_function L (on_update w) args (log_caught caught (w, x))) (\<lambda>(e, st2).
         res_bind (finish_delivery L st2) (\<lambda>(w3, x3).
           case later_exception caught e of
             Some tc \<Rightarrow> Inr (ON_UPDATE_CALL_FAIL, w3,
                             x3\<lparr>stdout := stdout x3 @ ''Exception message: '' @ ExceptionString tc @ newline\<rparr>)
           | None \<Rightarrow> Inr (SUCCESS, w3, x3))))"
  by (simp add: SendUpdate_def update_arguments_def log_caught_def Let_def split: prod.splits option.splits)

lemma log_caught_inv: "log_caught caught (w, x) = (w1, x1) \<Longrightarrow> worker_inv cb w \<Longrightarrow> worker_inv cb w1"
  by (auto simp: log_caught_def split: option.splits)

lemma SendUpdate_inv:
  assumes inv: "worker_inv cb w" and r: "SendUpdate L value meta doc_type (w, x) = Inr (c, w', x')"
  shows "worker_inv cb w'"
proof -
  obtain args caught where a: "update_arguments L value meta doc_type = (args, caught)" by fastforce
  obtain w1 x1 where l: "log_caught caught (w, x) = (w1, x1)" by fastforce
  obtain e w2 x2 w3 x3 where "call_function L (on_update w) args (w1, x1) = Inr (e, w2, x2)"
    "finish_delivery L (w2, x2) = Inr (w3, x3)" "w' = w3"
    using r by (auto simp: SendUpdate_eq a l res_bind_eq_Inr_iff split: option.splits)
  then show ?thesis
    using worker_inv_frame [OF log_caught_inv [OF l inv] call_function_frame] finish_delivery_worker by blast
qed

definition log_http ::
  "try_catch option \<Rightarrow> ('h, 'v) Worker \<times> ('s, 'r, 'm) world \<Rightarrow> ('h, 'v) Worker \<times> ('s, 'r, 'm) world" where
  "log_http caught = (\<lambda>(w, x).
     case caught of
       Some tc \<Rightarrow> (w\<lparr>last_exception := ExceptionString tc\<rparr>, x\<lparr>stdout := stdout x @ logged (ExceptionString tc)\<rparr>)
     | None \<Rightarrow> (w, x))"

definition cleared_response :: "HTTPResponse \<Rightarrow> HTTPResponse" where
  "cleared_response hr = hr\<lparr>hr_body := [], hr_template := Some MakeHTTPResponseMapTemplate\<rparr>"

lemma SendHTTP_eq:
  assumes "HTTPResponse_wf (http_response_handle w)"
    and "log_http (snd (json_argument L req)) (w\<lparr>http_response_handle := cleared_response (http_response_handle w)\<rparr>, x) = (w2, x2)"
  shows "SendHTTP L on_http req (w, x) =
     res_bind (call_function L (on_http w2) [fst (json_argument L req), ArgObject response_object] (w2, x2)) (\<lambda>(_, w3, x3).
       Inr (Dangling (c_str (rj_write (lib_json L) (body_events (hr_body (http_response_handle w3))))),
            w3\<lparr>http_response_handle := (http_response_handle w3)\<lparr>hr_response := []\<rparr>\<rparr>, x3))"
proof -
  obtain arg caught where j: "json_argument L req = (arg, caught)" by fastforce
  have "HTTPResponse_wf ((http_response_handle w)\<lparr>hr_body := []\<rparr>)" using assms(1) by (simp add: HTTPResponse_wf_def)
  from WrapHTTPResponseMap_eq [OF this]
  have wrap: "WrapHTTPResponseMap ((http_response_handle w)\<lparr>hr_body := []\<rparr>)
      = Inr (response_object, cleared_response (http_response_handle w))"
    by (simp add: cleared_response_def)
  show ?thesis
    using assms(2) by (cases caught) (auto simp: SendHTTP_def j Let_def wrap log_http_def ConvertMapToJson_def)
qed

lemma SendHTTP_inv:
  assumes inv: "worker_inv cb w" and r: "SendHTTP L on_http req (w, x) = Inr (t, w', x')"
  shows "worker_inv cb w'"
proof -
  let ?w1 = "w\<lparr>http_response_handle := cleared_response (http_response_handle w)\<rparr>"
  have wf: "HTTPResponse_wf (http_response_handle w)" using inv by (simp add: worker_inv_def)
  obtain w2 x2 where l: "log_http (snd (json_argument L req)) (?w1, x) = (w2, x2)" by fastforce
  have "worker_inv cb ?w1" by (rule worker_inv_response [OF inv]) (simp add: HTTPResponse_wf_def cleared_response_def)
  then have w2: "worker_inv cb w2" using l by (auto simp: log_http_def split: option.splits)
  obtain e w3 x3 where c: "call_function L (on_http w2) [fst (json_argument L req), ArgObject response_object] (w2, x2) = Inr (e, w3, x3)"
    and w': "w' = w3\<lparr>http_response_handle := (http_response_handle w3)\<lparr>hr_response := []\<rparr>\<rparr>"
    using r unfolding SendHTTP_eq [OF wf l] by (auto simp: res_bind_eq_Inr_iff)
  have "worker_inv cb w3" using worker_inv_frame [OF w2 call_function_frame [OF c]] .
  then show ?thesis unfolding w' by (intro worker_inv_response) (auto simp: worker_inv_def HTTPResponse_wf_def)
qed

lemma timer_key_frame: "timer_key L key st = Inr (Some st') \<Longrightarrow> host_frame st st'"
  by (auto simp: timer_key_def fire_timer_def Let_def res_bind_eq_Inr_iff split: prod.splits option.splits
      dest: call_function_frame)

lemma timer_loop_frame: "timer_loop L keys st = Inr st' \<Longrightarrow> host_frame st st'"
proof (induction keys arbitrary: st)
  case Nil
  then show ?case by simp
next
  case (Cons k keys)
  then show ?case
    by (fastforce simp: res_bind_eq_Inr_iff split: option.splits dest: timer_key_frame intro: host_frame_trans)
qed

lemma SendTimerCallback_frame: "SendTimerCallback L k st = Inr st' \<Longrightarrow> host_frame st st'"
  by (auto simp: SendTimerCallback_def Let_def dest: timer_loop_frame split: if_splits)

lemma member_call_inv:
  assumes inv: "worker_inv cb w" and r: "member_call L call (w, x) = Inr (res, w', x')"
  shows "worker_inv cb w'"
proof (cases call)
  case (worker_load name_s src)
  then show ?thesis using r WorkerLoad_inv [OF inv] by (fastforce simp: member_call_def Let_def res_bind_eq_Inr_iff)
next
  case (worker_send_update v m t)
  then show ?thesis using r SendUpdate_inv [OF inv] by (fastforce simp: member_call_def Let_def res_bind_eq_Inr_iff)
next
  case (worker_send_delete m)
  then show ?thesis using r SendDelete_inv [OF inv] by (fastforce simp: member_call_def Let_def res_bind_eq_Inr_iff)
next
  case (worker_send_http_get q)
  then show ?thesis using r SendHTTP_inv [OF inv] by (fastforce simp: member_call_def SendHTTPGet_def Let_def res_bind_eq_Inr_iff)
next
  case (worker_send_http_post q)
  then show ?thesis using r SendHTTP_inv [OF inv] by (fastforce simp: member_call_def SendHTTPPost_def Let_def res_bind_eq_Inr_iff)
next
  case (worker_send_timer_callback k)
  then show ?thesis using r worker_inv_frame [OF inv SendTimerCallback_frame]
    by (fastforce simp: member_call_def Let_def res_bind_eq_Inr_iff)
qed (use inv r in \<open>auto simp: member_call_def Let_def StartV8Debugger_def StopV8Debugger_def WorkerTerminateExecution_def\<close>)

text \<open>The members of a worker, whether its isolate is there or not.\<close>

fun members :: "('h, 'v) c_worker \<Rightarrow> ('h, 'v) Worker" where
  "members (Alive w) = w"
| "members (Disposed w) = w"

lemma api_exec_inv:
  assumes "worker_inv cb (members c)" "api_exec L call (c, x) = Inr (res, c', x')"
  shows "worker_inv cb (members c')"
  using assms member_call_inv [OF assms(1), of L call x]
  by (cases c) (auto simp: api_exec_def res_bind_eq_Inr_iff split: if_splits)

text \<open>A call on a disposed worker that does not touch the isolate returns, and the world is not changed.\<close>

lemma member_call_quiet:
  "\<not> touches_isolate call \<Longrightarrow> \<exists>r w'. member_call L call (w, x) = Inr (r, w', x)"
  by (cases call) (auto simp: member_call_def SendTimerCallback_def)

lemma api_exec_disposed:
  "if touches_isolate call then api_exec L call (Disposed w, x) = Inl Use_after_free
   else \<exists>r w'. api_exec L call (Disposed w, x) = Inr (r, Disposed w', x)"
  using member_call_quiet [of call L w x] by (auto simp: api_exec_def)

lemma worker_reachable_inv:
  assumes "worker_reachable L i app (c, x)"
  shows "worker_inv (cb_instance (members c)) (members c)"
  using assms
proof (induction "(c, x)" arbitrary: c x rule: worker_reachable.induct)
  case (worker_new x w x')
  then show ?case using worker_inv_new by fastforce
next
  case (worker_call st call r c' x')
  obtain c0 x0 where st: "st = (c0, x0)" by (cases st)
  have "worker_inv (cb_instance (members c0)) (members c')"
    using api_exec_inv [OF worker_call(2) [OF st], of L call x0 r c' x'] worker_call(3) st by simp
  then show ?case by (simp add: worker_inv_def)
qed

text \<open>
  C5. Every call on a worker that comes back keeps the worker's invariant, from the constructor on:
  its own handle stays the one of the metadata bucket, the handles keep their cached templates, the
  isolate's slot is null or points to that handle, and where it does all four handlers are set, and every
  object bound in the context has the internal fields its callbacks read. The members keep it after the
  disposal too, which frees the isolate only: then exactly the calls whose member function touches the
  isolate go through a dangling pointer, a second disposal among them, and the others return as before.
\<close>

theorem worker_invariant:
  assumes "worker_reachable L i app st"
  shows "case st of
      (Alive w, x) \<Rightarrow> worker_inv (cb_instance w) w
    | (Disposed w, x) \<Rightarrow> worker_inv (cb_instance w) w
        \<and> (\<forall>call. if touches_isolate call then api_exec L call (Disposed w, x) = Inl Use_after_free
                   else \<exists>r w'. api_exec L call (Disposed w, x) = Inr (r, Disposed w', x))"
proof -
  obtain c x where st: "st = (c, x)" by (cases st)
  have "worker_inv (cb_instance (members c)) (members c)" using worker_reachable_inv assms st by blast
  then show ?thesis using api_exec_disposed [of _ L] unfolding st by (cases c) simp_all
qed

theorem worker_invariant_witness:
  "\<exists>w x. worker_reachable (ref_libs ends_quietly) 0 ''app1'' (Alive w, x) \<and> worker_inv (cb_instance w) w
    \<and> worker_reachable (ref_libs ends_quietly) 0 ''app1'' (Disposed w, x)
    \<and> api_exec (ref_libs ends_quietly) worker_dispose (Disposed w, x) = Inl Use_after_free
    \<and> (\<exists>r w'. api_exec (ref_libs ends_quietly) worker_last_exception (Disposed w, x) = Inr (r, Disposed w', x))"
proof -
  obtain w x where "Worker_new (ref_libs ends_quietly) 0 ''app1'' ref_world = Inr (w, x)" using ref_Worker_new by blast
  then have r: "worker_reachable (ref_libs ends_quietly) 0 ''app1'' (Alive w, x)" by (rule worker_new)
  have "api_exec (ref_libs ends_quietly) worker_dispose (Alive w, x) = Inr (Void, Disposed w, x)" by (simp add: api_exec_defs)
  then have d: "worker_reachable (ref_libs ends_quietly) 0 ''app1'' (Disposed w, x)" by (rule worker_call [OF r])
  have "\<forall>call. if touches_isolate call then api_exec (ref_libs ends_quietly) call (Disposed w, x) = Inl Use_after_free
      else \<exists>r w'. api_exec (ref_libs ends_quietly) call (Disposed w, x) = Inr (r, Disposed w', x)"
    using worker_invariant [OF d] by simp
  from this [rule_format, of worker_dispose] this [rule_format, of worker_last_exception]
  show ?thesis using worker_invariant [OF r] r d by auto
qed

text \<open>
  On a worker reached by calls, a load returns a code up to NO_HANDLERS_DEFINED, that is SUCCESS,
  FAILED_TO_COMPILE_JS or NO_HANDLERS_DEFINED, and timers can be registered afterwards exactly if it succeeded or an earlier
  load did.
\<close>

theorem WorkerLoad_codes:
  assumes "worker_reachable L i app (Alive w, x)" "WorkerLoad L name_s src (w, x) = Inr (c, w', x')"
  shows "c \<le> NO_HANDLERS_DEFINED
    \<and> (isolate_data1 w' \<noteq> Null \<longleftrightarrow> c = SUCCESS \<or> isolate_data1 w \<noteq> Null)
    \<and> (c = SUCCESS \<longrightarrow> isolate_data1 w' = Ptr (cb_instance w))"
proof -
  have inv: "worker_inv (cb_instance w) w" using worker_reachable_inv [OF assms(1)] by simp
  then show ?thesis using WorkerLoad_inv [OF inv assms(2)] by (auto simp: code_le_NO_HANDLERS)
qed

theorem WorkerLoad_codes_witness:
  "\<exists>w x w' x'. worker_reachable (ref_libs ends_quietly) 0 ''app1'' (Alive w, x)
    \<and> WorkerLoad (ref_libs ends_quietly) ''app1'' [] (w, x) = Inr (FAILED_TO_COMPILE_JS, w', x')
    \<and> (isolate_data1 w' \<noteq> Null \<longleftrightarrow> isolate_data1 w \<noteq> Null)"
proof -
  obtain w x where "Worker_new (ref_libs ends_quietly) 0 ''app1'' ref_world = Inr (w, x)" using ref_Worker_new by blast
  then have r: "worker_reachable (ref_libs ends_quietly) 0 ''app1'' (Alive w, x)" by (rule worker_new)
  have "script_of (lib_files (ref_libs ends_quietly)) [] = []"
    by (simp add: script_of_eq rewrite_enqueue_absent rewrite_n1ql_absent strstr_def n1ql_open_def LoadBuiltins_def ref_libs_def)
  then have "js_compile (lib_engine (ref_libs ends_quietly)) (context_heap w)
      (c_str (script_of (lib_files (ref_libs ends_quietly)) [])) = Inl ref_exception"
    by (simp add: ref_engine_def)
  from WorkerLoad_compile_error [OF this, of "''app1''" x] obtain w' where
    l: "WorkerLoad (ref_libs ends_quietly) ''app1'' [] (w, x) = Inr (FAILED_TO_COMPILE_JS, w', x)" by blast
  show ?thesis using WorkerLoad_codes [OF r l] r l by auto
qed

section \<open>Updates and deletes\<close>

lemma SendUpdate_calls:
  assumes f: "on_update w = Some f"
    and meta: "v8_parse (lib_v8 L) (c_str meta) = Some m"
    and val: "if c_str doc_type = ''json'' then v8_parse (lib_v8 L) (c_str value) = Some v
                else v = v8_string (lib_v8 L) (c_str value)"
    and run: "run_js L (js_call (lib_engine L) (context_heap w) f [Arg (Some v), Arg (Some m)]) (w, x) = Inr (e, w', x')"
    and off: "\<not> start_debug_flag w"
  shows "SendUpdate L value meta doc_type (w, x) =
    Inr (case e of
           None \<Rightarrow> (SUCCESS, w', x'\<lparr>debugger := set_ready (debugger x')\<rparr>)
         | Some tc \<Rightarrow> (ON_UPDATE_CALL_FAIL, w', x'\<lparr>debugger := set_ready (debugger x'),
             stdout := stdout x' @ ''Exception message: '' @ ExceptionString tc @ newline\<rparr>))"
proof -
  have args: "update_arguments L value meta doc_type = ([Arg (Some v), Arg (Some m)], None)"
    using meta val by (auto simp: update_arguments_def json_argument_def later_exception_def Let_def split: if_splits)
  have call: "call_function L (on_update w) [Arg (Some v), Arg (Some m)] (w, x) = Inr (e, w', x')"
    using f run by (simp add: call_function_def)
  have "\<not> start_debug_flag w'" using host_frameD(10) [OF run_js_frame [OF run]] off by simp
  then show ?thesis
    by (simp add: SendUpdate_eq args log_caught_def call finish_delivery_def later_exception_def split: option.splits)
qed

text \<open>
  C10. An update whose metadata is JSON, and whose value is JSON where the type says so, calls the
  update handler once with the two values; with the debugger off the return code is SUCCESS exactly if
  the handler did not throw, the exception is printed otherwise, and the waiting debugger request is
  notified either way.
\<close>

theorem SendUpdate_correct:
  assumes f: "on_update w = Some f"
    and meta: "v8_parse (lib_v8 L) (c_str meta) = Some m"
    and val: "if c_str doc_type = ''json'' then v8_parse (lib_v8 L) (c_str value) = Some v
                else v = v8_string (lib_v8 L) (c_str value)"
    and run: "run_js L (js_call (lib_engine L) (context_heap w) f [Arg (Some v), Arg (Some m)]) (w, x) = Inr (e, w', x')"
    and off: "\<not> start_debug_flag w"
  shows "SendUpdate L value meta doc_type (w, x) =
    Inr (case e of
           None \<Rightarrow> (SUCCESS, w', x'\<lparr>debugger := set_ready (debugger x')\<rparr>)
         | Some tc \<Rightarrow> (ON_UPDATE_CALL_FAIL, w', x'\<lparr>debugger := set_ready (debugger x'),
             stdout := stdout x' @ ''Exception message: '' @ ExceptionString tc @ newline\<rparr>))"
  by (rule SendUpdate_calls [OF assms])

theorem SendUpdate_correct_witness:
  "SendUpdate (ref_libs ends_quietly) ''{}'' ''{}'' ''json'' (ref_worker\<lparr>on_update := Some ''OnUpdate''\<rparr>, ref_world) =
     Inr (SUCCESS, ref_worker\<lparr>on_update := Some ''OnUpdate''\<rparr>, ref_world\<lparr>debugger := set_ready debug_state_init\<rparr>)"
proof -
  let ?w = "ref_worker\<lparr>on_update := Some ''OnUpdate''\<rparr>" and ?L = "ref_libs ends_quietly"
  have 1: "on_update ?w = Some ''OnUpdate''" "\<not> start_debug_flag ?w" by (simp_all add: ref_worker_def Worker_raw_def)
  have 2: "v8_parse (lib_v8 ?L) (c_str ''{}'') = Some ''{}''" by (simp add: ref_v8_def c_eval)
  have 3: "run_js ?L (js_call (lib_engine ?L) (context_heap ?w) ''OnUpdate'' [Arg (Some ''{}''), Arg (Some ''{}'')]) (?w, ref_world)
      = Inr (None, ?w, ref_world)"
    by (simp add: ref_engine_def ends_quietly_def)
  have 4: "if c_str ''json'' = ''json'' then v8_parse (lib_v8 ?L) (c_str ''{}'') = Some ''{}''
      else ''{}'' = v8_string (lib_v8 ?L) (c_str ''{}'')" using 2 by (simp add: c_eval)
  show ?thesis
    using SendUpdate_correct [OF 1(1) 2 4 3 1(2)] by (simp add: ref_world_def)
qed

text \<open>
  An update whose metadata is not JSON, or whose value is not although its type says so, is never
  handed to the handler: the parse error is recorded, but the call that follows passes an empty handle
  and is outside V8's contract.
\<close>

theorem SendUpdate_not_json:
  assumes "on_update w = Some f"
    and "v8_parse (lib_v8 L) (c_str meta) = None
       \<or> c_str doc_type = ''json'' \<and> v8_parse (lib_v8 L) (c_str value) = None"
  shows "SendUpdate L value meta doc_type (w, x) = Inl Library_contract"
proof -
  obtain args caught where a: "update_arguments L value meta doc_type = (args, caught)" by fastforce
  have "Arg None \<in> set args"
    using a assms(2) by (auto simp: update_arguments_def json_argument_def Let_def split: option.splits if_splits)
  moreover obtain w1 x1 where "log_caught caught (w, x) = (w1, x1)" by fastforce
  ultimately show ?thesis using assms(1) by (simp add: SendUpdate_eq a call_function_def)
qed

theorem SendUpdate_not_json_witness:
  "SendUpdate (ref_libs ends_quietly) ''{}'' [] ''json'' (ref_worker\<lparr>on_update := Some ''OnUpdate''\<rparr>, ref_world) = Inl Library_contract"
  by (rule SendUpdate_not_json) (auto simp: ref_v8_def)

section \<open>Timers\<close>

text \<open>The callbacks of a list of timers, one after the other.\<close>

fun fire_all ::
  "('h, 'v, 's, 'r, 'm) libs \<Rightarrow> (string \<times> string) list \<Rightarrow> ('h, 'v, 's, 'r, 'm) state \<Rightarrow> ('h, 'v, 's, 'r, 'm) state result" where
  "fire_all L [] st = Inr st"
| "fire_all L ((callback, doc_id) # ts) st = res_bind (fire_timer L callback doc_id st) (fire_all L ts)"

lemma timer_key_doc:
  assumes "kv (lib_lcb L) (cluster x) (cb_instance w) key = Some val" "timer_blob (lib_json L) val callback doc_id ts"
  shows "timer_key L key (w, x) = res_bind (fire_timer L callback doc_id (w, x)) (\<lambda>st. Inr (Some st))"
  using worker_get_kv [of "lib_lcb L" "cluster x" "cb_instance w" key] assms
  by (simp add: timer_key_def timer_blob_def split: option.splits)

lemma fire_timer_frame: "fire_timer L callback doc_id st = Inr st' \<Longrightarrow> host_frame st st'"
  by (auto simp: fire_timer_def res_bind_eq_Inr_iff split: prod.splits option.splits dest: call_function_frame)

text \<open>A callback that leaves the timer table alone, whatever else it does.\<close>

definition keeps_timers :: "('h, 'v, 's, 'r, 'm) libs \<Rightarrow> string \<Rightarrow> registration list \<Rightarrow> registration \<Rightarrow> bool" where
  "keeps_timers L cb rs r \<longleftrightarrow>
     (\<forall>st st'. refines_timers (lib_json L) (lib_lcb L) cb rs (cluster (snd st)) \<longrightarrow>
        fire_timer L (reg_callback r) (reg_doc r) st = Inr st' \<longrightarrow>
        refines_timers (lib_json L) (lib_lcb L) cb rs (cluster (snd st')))"

text \<open>The loop over the ids of registered timers fires their callbacks, if the callbacks keep the table.\<close>

lemma timer_loop_fires:
  assumes table: "refines_timers (lib_json L) (lib_lcb L) cb rs (cluster (snd st))" "cb_instance (fst st) = cb"
    and distinct: "distinct (map reg_doc rs)" and sub: "set ts \<subseteq> set rs"
    and keeps: "\<forall>r \<in> set ts. keeps_timers L cb rs r"
  shows "timer_loop L (map reg_doc ts) st = fire_all L (map (\<lambda>r. (reg_callback r, reg_doc r)) ts) st"
  using table sub keeps
proof (induction ts arbitrary: st)
  case Nil
  then show ?case by simp
next
  case (Cons r ts)
  obtain w x where st: "st = (w, x)" by (cases st)
  have "r \<in> set rs" using Cons.prems(3) by simp
  then obtain pre post where rs: "rs = pre @ r # post" by (meson split_list)
  then have "reg_doc r \<notin> reg_doc ` set post" using distinct by auto
  then obtain val where val: "kv (lib_lcb L) (cluster x) cb (reg_doc r) = Some val"
    "timer_blob (lib_json L) val (reg_callback r) (reg_doc r) (iso_text (due r))"
    using refines_timers_doc [of "lib_json L" "lib_lcb L" cb pre r post "cluster x"] Cons.prems(1) rs st by auto
  have key: "timer_key L (reg_doc r) st = res_bind (fire_timer L (reg_callback r) (reg_doc r) st) (\<lambda>st. Inr (Some st))"
    using timer_key_doc [OF _ val(2)] val(1) Cons.prems(2) by (simp add: st)
  show ?case
  proof (cases "fire_timer L (reg_callback r) (reg_doc r) st")
    case (Inl e)
    then show ?thesis by (simp add: key)
  next
    case (Inr st')
    have "refines_timers (lib_json L) (lib_lcb L) cb rs (cluster (snd st'))"
      using Cons.prems(1,4) Inr unfolding keeps_timers_def by (meson list.set_intros(1))
    moreover have "cb_instance (fst st') = cb"
      using host_frameD(6) [of "fst st" "snd st" "fst st'" "snd st'"] fire_timer_frame [OF Inr] Cons.prems(2) by simp
    ultimately have "timer_loop L (map reg_doc ts) st' = fire_all L (map (\<lambda>r. (reg_callback r, reg_doc r)) ts) st'"
      using Cons.prems(3,4) by (intro Cons.IH) auto
    then show ?thesis by (simp add: key Inr)
  qed
qed

lemma marker_fires:
  assumes table: "refines_timers (lib_json L) (lib_lcb L) (cb_instance w) rs (cluster x)" "distinct (map reg_doc rs)"
    and due: "four_digit_time t" "kv (lib_lcb L) (cluster x) (cb_instance w) (iso_text t) = Some marker"
    and keeps: "\<forall>r \<in> set rs. due r = t \<longrightarrow> keeps_timers L (cb_instance w) rs r"
  shows "SendTimerCallback L marker (w, x) =
    fire_all L (map (\<lambda>r. (reg_callback r, reg_doc r)) (filter (\<lambda>r. due r = t) rs)) (w, x)"
proof -
  let ?ts = "filter (\<lambda>r. due r = t) rs"
  have marker: "marker = join_keys (CHR '';'') (due_ids rs t)" "due_ids rs t \<noteq> []"
    using refines_timers_marker [OF table(1) due(1)] due(2) by (auto split: if_splits)
  have ids: "\<forall>k \<in> set (due_ids rs t). CHR '';'' \<notin> set k \<and> NUL \<notin> set k"
    using table(1) by (auto simp: refines_timers_def registration_ok_def due_ids_def)
  then have "NUL \<notin> set marker" unfolding marker(1) by (auto simp: join_keys_def NUL_def)
  then have "split (c_str marker) (CHR '';'') = map reg_doc ?ts"
    using split_join_keys [of "due_ids rs t"] ids marker(1) by (simp add: due_ids_def)
  moreover have "timer_loop L (map reg_doc ?ts) (w, x) = fire_all L (map (\<lambda>r. (reg_callback r, reg_doc r)) ?ts) (w, x)"
    using keeps by (intro timer_loop_fires [where rs = rs and cb = "cb_instance w"]) (use table in auto)
  ultimately show ?thesis using marker(2) by (simp add: SendTimerCallback_def due_ids_def)
qed


lemma ref_libs_json: "writes_string_objects (lib_json (ref_libs body))"
proof -
  have "rj_write ref_json (object_events kvs) \<noteq> ''cfg''" for kvs
    by (simp add: ref_json_def object_events_def)
  then show ?thesis using ref_json_writes by (simp add: writes_string_objects_def ref_libs_def)
qed

definition ref_registration :: registration where
  "ref_registration = \<lparr>reg_now = 1000, reg_callback = ''expired'', reg_doc = ''doc1'', reg_value = 60\<rparr>"

lemma ref_registration_ok: "registration_ok ref_registration" "due ref_registration = 1060" "four_digit_time 1060"
    "registration_texts ref_v8 ref_registration"
  by (simp_all add: registration_texts_def registration_ok_def key_ok_def ref_registration_def due_def documented_instant_def thirty_days_def four_digit_time_def NUL_def)

lemma ref_fire: "fire_timer (ref_libs ends_quietly) c d st = Inr st' \<Longrightarrow> st' = st"
  by (auto simp: fire_timer_def call_function_def ref_engine_def ends_quietly_def split: prod.splits option.splits)


text \<open>JavaScript code that registers timers, one after the other, and ends.\<close>

fun register_calls :: "'v v8 \<Rightarrow> registration list \<Rightarrow> 'h \<Rightarrow> ('h, 'v) js" where
  "register_calls E [] h = Ends h None"
| "register_calls E (r # rs) h =
     Calls (RegisterTimer [v8_string E (reg_callback r), v8_string E (reg_doc r), v8_string E (dec_of_nat (nat (reg_value r)))])
       (\<lambda>_. register_calls E rs h)"

lemma register_calls_run:
  assumes L: "reachable_cluster (lib_lcb L)" "writes_string_objects (lib_json L)" and slot: "isolate_data1 w = Ptr b"
  shows "\<forall>r \<in> set qs. registration_ok r \<and> registration_texts (lib_v8 L) r \<and> reg_now r = clock x \<Longrightarrow>
    refines_timers (lib_json L) (lib_lcb L) b rs (cluster x) \<Longrightarrow>
    \<exists>s. run_js L (register_calls (lib_v8 L) qs h) (w, x) = Inr (None, w\<lparr>context_heap := h\<rparr>, x\<lparr>cluster := s\<rparr>)
      \<and> refines_timers (lib_json L) (lib_lcb L) b (rs @ qs) s"
proof (induction qs arbitrary: rs x)
  case Nil
  then show ?case by (intro exI [of _ "cluster x"]) simp
next
  case (Cons q qs)
  obtain s1 where s1: "register (lib_v8 L) (lib_json L) (lib_lcb L) b q (cluster x, stdout x) = Inr (s1, stdout x)"
    "refines_timers (lib_json L) (lib_lcb L) b (rs @ [q]) s1"
    using register_refines [OF L] Cons.prems by (metis list.set_intros(1))
  then have "host_dispatch L (RegisterTimer [v8_string (lib_v8 L) (reg_callback q), v8_string (lib_v8 L) (reg_doc q),
      v8_string (lib_v8 L) (dec_of_nat (nat (reg_value q)))]) (w, x) = Inr (Undefined, w, x\<lparr>cluster := s1\<rparr>)"
    using slot Cons.prems(1) by (simp add: host_dispatch_def register_def)
  then show ?case using Cons.IH [of "x\<lparr>cluster := s1\<rparr>" "rs @ [q]"] Cons.prems s1(2) by simp
qed

text \<open>
  A key whose document is missing or not JSON ends the delivery: the callbacks of all later keys of
  the marker are dropped.
\<close>

theorem SendTimerCallback_stops:
  assumes "rj_parse (lib_json L) (c_str (case kv (lib_lcb L) (cluster x) (cb_instance w) key of Some v \<Rightarrow> v | None \<Rightarrow> [])) = None"
    and "\<forall>k \<in> set (key # keys). CHR '';'' \<notin> set k \<and> NUL \<notin> set k"
  shows "SendTimerCallback L (join_keys (CHR '';'') (key # keys)) (w, x) = Inr (w, x)"
proof -
  have "NUL \<notin> set (join_keys (CHR '';'') (key # keys))" using assms(2) by (auto simp: join_keys_def NUL_def)
  then have "split (c_str (join_keys (CHR '';'') (key # keys))) (CHR '';'') = key # keys"
    using assms(2) split_join_keys [of "key # keys"] by (simp del: join_keys_simps)
  moreover have "timer_key L key (w, x) = Inr None"
    using assms(1) by (simp add: timer_key_def worker_get_kv)
  ultimately show ?thesis by (simp add: SendTimerCallback_def del: join_keys_simps)
qed

theorem SendTimerCallback_stops_witness:
  "SendTimerCallback (ref_libs ends_quietly) (join_keys (CHR '';'') [''gone'', ''doc1'']) (ref_worker, ref_world) = Inr (ref_worker, ref_world)"
  by (rule SendTimerCallback_stops)
    (simp_all add: ref_libs_def ref_world_def ref_empty_def ref_json_def parse_object_def NUL_def)

section \<open>HTTP requests\<close>

text \<open>
  A handler that fetches \<open>res.body\<close> and assigns members to it, one after the other.
\<close>

fun assign_members :: "host_object \<Rightarrow> ('v \<times> 'v) list \<Rightarrow> 'h \<Rightarrow> ('h, 'v) js" where
  "assign_members body [] h = Ends h None"
| "assign_members body ((n, v) # nvs) h = Calls (SetProperty body (StringName n) v) (\<lambda>_. assign_members body nvs h)"

definition response_handler :: "'v \<Rightarrow> ('v \<times> 'v) list \<Rightarrow> 'h \<Rightarrow> ('h, 'v) js" where
  "response_handler body_name nvs h =
     Calls (GetProperty response_object (StringName body_name))
       (\<lambda>r. case r of HostValue body \<Rightarrow> assign_members body nvs h | _ \<Rightarrow> Ends h None)"

lemma assign_members_run:
  "list_all2 (\<lambda>(n, v) (k, t). ObjectToString (lib_v8 L) (Some n) = Inr k \<and> ToString (lib_v8 L) v = Inr t) nvs kts \<Longrightarrow>
     run_js L (assign_members body_object nvs h) (w, x) =
       Inr (None, w\<lparr>context_heap := h, http_response_handle :=
         (http_response_handle w)\<lparr>hr_body := std_map.assign_all kts (hr_body (http_response_handle w))\<rparr>\<rparr>, x)"
proof (induction nvs arbitrary: kts w)
  case Nil
  then show ?case by simp
next
  case (Cons nv nvs)
  obtain n v where nv: "nv = (n, v)" by (cases nv)
  from Cons.prems obtain k t kts' where kts: "kts = (k, t) # kts'"
    and kt: "ObjectToString (lib_v8 L) (Some n) = Inr k" "ToString (lib_v8 L) v = Inr t"
    and rest: "list_all2 (\<lambda>(n, v) (k, t). ObjectToString (lib_v8 L) (Some n) = Inr k \<and> ToString (lib_v8 L) v = Inr t) nvs kts'"
    by (auto simp: nv list_all2_Cons1)
  have "obj_handlers body_object = HTTPBodyHandlers" by (simp add: body_object_def)
  then show ?case
    using Cons.IH [OF rest] by (simp add: nv kts host_dispatch_def set_property_def HTTPBodySet_eq [OF kt])
qed

text \<open>
  C32. An HTTP request whose handler assigns members to the body of its response builds the text of the object of
  exactly these members, in the order of their names with the last value of each, whatever earlier
  requests left in the body; what it returns is a dangling pointer to that text, whose buffer is freed on
  return, so that the caller cannot read it (theorem \<open>js_requests_fault\<close> of HttpServers).
\<close>

theorem SendHTTPGet_correct:
  assumes wf: "HTTPResponse_wf (http_response_handle w)" and f: "on_http_get w = Some f"
    and req: "v8_parse (lib_v8 L) (c_str req) = Some q"
    and name: "ObjectToString (lib_v8 L) (Some body_name) = Inr bn"
    and sets: "list_all2 (\<lambda>(n, v) (k, t). ObjectToString (lib_v8 L) (Some n) = Inr k \<and> ToString (lib_v8 L) v = Inr t) nvs kts"
    and handler: "js_call (lib_engine L) (context_heap w) f [Arg (Some q), ArgObject response_object] = response_handler body_name nvs h"
  shows "\<exists>w' m. SendHTTPGet L req (w, x) = Inr (Dangling (c_str (rj_write (lib_json L) (body_events m))), w', x)
    \<and> sorted_wrt (<) (map fst m) \<and> map_of m = map_of (rev kts)"
proof -
  let ?w = "w\<lparr>http_response_handle := cleared_response (http_response_handle w)\<rparr>"
  let ?m = "std_map.assign_all kts []"
  have j: "json_argument L req = (Arg (Some q), None)" by (simp add: json_argument_def req)
  have inv: "map_invar ?m" by (rule std_map.invar_assign_all) simp
  have "run_js L (response_handler body_name nvs h) (?w, x) =
      Inr (None, ?w\<lparr>context_heap := h, http_response_handle := (cleared_response (http_response_handle w))\<lparr>hr_body := ?m\<rparr>\<rparr>, x)"
    using assign_members_run [OF sets, of h ?w x] HTTPResponseGet_body [OF name]
    by (simp add: response_handler_def host_dispatch_def get_property_def response_object_def cleared_response_def)
  then have "SendHTTPGet L req (w, x) = Inr (Dangling (c_str (rj_write (lib_json L) (body_events ?m))),
      ?w\<lparr>context_heap := h, http_response_handle := (cleared_response (http_response_handle w))\<lparr>hr_body := ?m, hr_response := []\<rparr>\<rparr>, x)"
    unfolding SendHTTPGet_def using SendHTTP_eq [OF wf, of L req x ?w x on_http_get] f handler
    by (simp add: j log_http_def call_function_def)
  moreover have "map_of ?m = map_of (rev kts)" using std_map.lookup_assign_all [of "[]" kts] by simp
  ultimately show ?thesis using std_map.entries_sorted [OF inv] by blast
qed

definition ref_http :: "string \<Rightarrow> string \<Rightarrow> string argument list \<Rightarrow> (string, string) js" where
  "ref_http h f args = response_handler ''body'' [(''b'', ''1''), (''a'', ''2''), (''b'', ''3'')] h"

theorem SendHTTPGet_correct_witness:
  "\<exists>w' m. SendHTTPGet (ref_libs ref_http) ''{}'' (ref_worker\<lparr>on_http_get := Some ''OnHTTPGet''\<rparr>, ref_world)
      = Inr (Dangling (c_str (rj_write (lib_json (ref_libs ref_http)) (body_events m))), w', ref_world)
    \<and> sorted_wrt (<) (map fst m) \<and> map_of m = map_of (rev [(''b'', ''1''), (''a'', ''2''), (''b'', ''3'')])"
proof (rule SendHTTPGet_correct)
  let ?w = "ref_worker\<lparr>on_http_get := Some ''OnHTTPGet''\<rparr>"
  show "HTTPResponse_wf (http_response_handle ?w)"
    by (simp add: HTTPResponse_wf_def ref_worker_def Worker_raw_def HTTPResponse_new_def)
  show "on_http_get ?w = Some ''OnHTTPGet''" by simp
  show "v8_parse (lib_v8 (ref_libs ref_http)) (c_str ''{}'') = Some ''{}''" by (simp add: ref_v8_def c_eval)
  show "ObjectToString (lib_v8 (ref_libs ref_http)) (Some ''body'') = Inr ''body''"
    by (simp add: ObjectToString_def ref_v8_def c_eval)
  show "list_all2 (\<lambda>(n, v) (k, t). ObjectToString (lib_v8 (ref_libs ref_http)) (Some n) = Inr k \<and> ToString (lib_v8 (ref_libs ref_http)) v = Inr t)
      [(''b'', ''1''), (''a'', ''2''), (''b'', ''3'')] [(''b'', ''1''), (''a'', ''2''), (''b'', ''3'')]"
    by (simp add: ObjectToString_def ToString_def ref_v8_def c_eval)
  show "js_call (lib_engine (ref_libs ref_http)) (context_heap ?w) ''OnHTTPGet'' [Arg (Some ''{}''), ArgObject response_object]
      = response_handler ''body'' [(''b'', ''1''), (''a'', ''2''), (''b'', ''3'')] (context_heap ?w)"
    by (simp add: ref_engine_def ref_http_def)
qed

end
