(* ===== verification/TypeSafety.thy ===== *)
theory TypeSafety
  imports Delivery
begin

text \<open>
  Type safety of the calls a handler makes back into the worker. The property callbacks of bucket.cc,
  n1ql.cc, queue.cc and http_response.cc cast the internal fields of the object they are called on to the
  pointer type their class has stored there; nothing checks the cast. The worker binds only objects
  whose fields have those types, the callbacks hand out only such objects, and JavaScript code can only
  use objects it was given: so no call of a handler reads a field as something it is not.
\<close>

section \<open>Code that uses only the objects it was given\<close>

primrec call_objects :: "'v host_call \<Rightarrow> host_object set" where
  "call_objects (Log args) = {}"
| "call_objects (RegisterTimer args) = {}"
| "call_objects (Mail args) = {}"
| "call_objects (GetProperty obj n) = {obj}"
| "call_objects (SetProperty obj n v) = {obj}"
| "call_objects (DeleteProperty obj n) = {obj}"

fun reply_objects :: "'v host_reply \<Rightarrow> host_object set" where
  "reply_objects (HostValue obj) = {obj}"
| "reply_objects _ = {}"

primrec uses_only :: "host_object set \<Rightarrow> ('h, 'v) js \<Rightarrow> bool" where
  "uses_only K (Ends h e) = True"
| "uses_only K (Calls c k) \<longleftrightarrow> call_objects c \<subseteq> K \<and> (\<forall>r. reply_objects r \<subseteq> K \<longrightarrow> uses_only K (k r))"

text \<open>The objects a worker hands out: those bound in its context, the HTTP response and its body.\<close>

definition handed_out :: "('h, 'v) Worker \<Rightarrow> host_object set" where
  "handed_out w = ran (context_globals w) \<union> {response_object, body_object}"

lemma handed_out_typed: "worker_inv cb w \<Longrightarrow> obj \<in> handed_out w \<Longrightarrow> host_typed obj"
  by (auto simp: handed_out_def worker_inv_def response_object_def body_object_def host_typed_def)

text \<open>
  A host object cannot be made by a script: V8 calls an interceptor on an instance of its template
  only, and instances reach JavaScript as globals, arguments and replies.
\<close>

definition engine_confined :: "('h, 'v) engine \<Rightarrow> host_object set \<Rightarrow> bool" where
  "engine_confined E K \<longleftrightarrow> (\<forall>h fn args. {obj. ArgObject obj \<in> set args} \<subseteq> K \<longrightarrow> uses_only K (js_call E h fn args))"

text \<open>The query service answers with JSON rows.\<close>

definition rows_are_json :: "'v v8 \<Rightarrow> 's lcb \<Rightarrow> bool" where
  "rows_are_json E L \<longleftrightarrow> (\<forall>s b q.
     list_all (\<lambda>r. v8_parse E (c_str r) \<noteq> None) (rows_rows (fold query_callback (fst (lcb_n1ql_query L s b q)) Rows_init)))"

section \<open>Every callback is safe on a typed object\<close>

lemma ObjectToString_safe [simp]: "ObjectToString E v \<noteq> Inl Library_contract"
  by (simp add: ObjectToString_def split: option.splits)

lemma ToString_safe [simp]: "ToString E v \<noteq> Inl Library_contract"
  by (auto simp: ToString_def res_bind_eq_Inl_iff split: option.splits)

lemma Print_safe [simp]: "Print_loop E b args out \<noteq> Inl Library_contract"
  by (induction args arbitrary: b out)
    (auto simp: res_bind_eq_Inl_iff ToJson_def deref_def split: option.splits cstring_ptr.splits)

lemma property_key_safe [simp]: "property_key E n \<noteq> Inl Library_contract"
  by (auto simp: property_key_def res_bind_eq_Inl_iff)

lemma set_rows_safe: "list_all (\<lambda>r. v8_parse E (c_str r) \<noteq> None) rs \<Longrightarrow> set_rows E i rs xs \<noteq> Inl Library_contract"
  by (induction rs arbitrary: i xs) (auto split: option.splits)

lemma RegisterCallback_safe [simp]: "RegisterCallback E J L now d args so \<noteq> Inl Library_contract"
proof -
  have "atoi s \<noteq> Inl Library_contract" for s by (simp add: atoi_def Let_def)
  moreover have "format_time t \<noteq> Inl Library_contract" for t by (simp add: format_time_def Let_def)
  ultimately show ?thesis
    by (auto simp: RegisterCallback_def ConvertToISO8601_def res_bind_eq_Inl_iff Let_def split: prod.splits if_splits pointer.splits)
qed

lemma SendMail_safe [simp]: "SendMail E C app args m \<noteq> Inl Library_contract"
  by (auto simp: SendMail_def PostMail_def res_bind_eq_Inl_iff Let_def split: prod.splits if_splits)

text \<open>Reading, writing and deleting a property of a typed object.\<close>

lemma get_property_safe:
  assumes t: "host_typed obj" and rows: "rows_are_json (lib_v8 L) (lib_lcb L)"
  shows "get_property L obj n st \<noteq> Inl Library_contract"
proof (cases "obj_handlers obj")
  case BucketHandlers
  then show ?thesis using t
    by (auto simp: get_property_def BucketGet_def host_typed_def host_object_simps res_bind_eq_Inl_iff Let_def
        split: name.splits prod.splits)
next
  case N1QLHandlers
  have "set_rows (lib_v8 L) 0 (rows_rows (fold query_callback resps Rows_init)) xs \<noteq> Inl Library_contract"
    if "lcb_n1ql_query (lib_lcb L) s b q = (resps, s')" for s b q resps s' xs
    using rows that set_rows_safe unfolding rows_are_json_def by (metis fst_conv)
  with N1QLHandlers show ?thesis using t
    by (auto simp: get_property_def N1QLEnumGetCall_def host_typed_def host_object_simps res_bind_eq_Inl_iff Let_def
        split: name.splits prod.splits if_splits)
next
  case QueueHandlers
  then show ?thesis using t
    by (auto simp: get_property_def QueueGetCall_def host_typed_def host_object_simps UnwrapRedisContext_def UnwrapQueueName_def
        res_bind_eq_Inl_iff split: name.splits prod.splits)
next
  case HTTPResponseHandlers
  then show ?thesis using t
    by (auto simp: get_property_def HTTPResponseGet_def host_typed_def host_object_simps res_bind_eq_Inl_iff
        split: name.splits prod.splits)
next
  case HTTPBodyHandlers
  then show ?thesis by (simp add: get_property_def split: prod.splits)
qed

lemma set_property_safe: "host_typed obj \<Longrightarrow> set_property L obj n v st \<noteq> Inl Library_contract"
  by (cases "obj_handlers obj")
    (auto simp: set_property_def BucketSet_def HTTPBodySet_def host_typed_def host_object_simps res_bind_eq_Inl_iff Let_def
      split: name.splits prod.splits)

lemma delete_property_safe: "host_typed obj \<Longrightarrow> delete_property L obj n st \<noteq> Inl Library_contract"
  by (cases "obj_handlers obj")
    (auto simp: delete_property_def BucketDelete_def host_typed_def host_object_simps res_bind_eq_Inl_iff Let_def
      split: name.splits prod.splits)

lemma host_dispatch_safe:
  assumes "\<forall>obj \<in> call_objects c. host_typed obj" "rows_are_json (lib_v8 L) (lib_lcb L)"
  shows "host_dispatch L c st \<noteq> Inl Library_contract"
  using assms
  by (cases c) (auto simp: host_dispatch_def Print_def res_bind_eq_Inl_iff get_property_safe set_property_safe delete_property_safe
      split: prod.splits)

text \<open>The only object a reply carries is the body of the response.\<close>

lemma reply_of_objects [simp]: "reply_objects (reply_of oc) = {}" "reply_objects (flag_reply_of foc) = {}"
  by (cases oc; simp) (cases foc; simp)

lemma HTTPResponseGet_reply: "HTTPResponseGet E n h = Inr oc \<Longrightarrow> reply_objects (object_reply_of oc) \<subseteq> {body_object}"
proof -
  assume get: "HTTPResponseGet E n h = Inr oc"
  show ?thesis
  proof (cases n)
    case Symbol
    then show ?thesis using get by (auto simp: HTTPResponseGet_def)
  next
    case (StringName s)
    then obtain f where "(case f of BodyField \<Rightarrow> Inr (Returned body_object) | _ \<Rightarrow> Inl Library_contract) = Inr oc"
      using get by (auto simp: HTTPResponseGet_def res_bind_eq_Inr_iff)
    then show ?thesis by (cases f) auto
  qed
qed

lemma host_dispatch_reply:
  "host_dispatch L c st = Inr (r, st') \<Longrightarrow> reply_objects r \<subseteq> {body_object}"
  by (cases c)
    (auto simp: host_dispatch_def get_property_def set_property_def delete_property_def res_bind_eq_Inr_iff
      dest!: HTTPResponseGet_reply split: prod.splits handler_kind.splits)

lemma run_js_safe:
  assumes "\<forall>obj \<in> K. host_typed obj" "body_object \<in> K" "rows_are_json (lib_v8 L) (lib_lcb L)"
  shows "uses_only K p \<Longrightarrow> run_js L p st \<noteq> Inl Library_contract"
proof (induction p arbitrary: st)
  case (Ends h e)
  then show ?case by (simp split: prod.splits)
next
  case (Calls c k)
  have "host_dispatch L c st \<noteq> Inl Library_contract" using Calls.prems assms by (intro host_dispatch_safe) auto
  moreover have "run_js L (k r) st' \<noteq> Inl Library_contract" if "host_dispatch L c st = Inr (r, st')" for r st'
  proof -
    have "reply_objects r \<subseteq> K" using host_dispatch_reply [OF that] assms(2) by auto
    then show ?thesis using Calls.prems Calls.IH [OF rangeI] by simp
  qed
  ultimately show ?case by (auto simp: res_bind_eq_Inl_iff)
qed

text \<open>
  C11. Type safety: on a worker reached by any calls, running a function of the handler, with values or
  objects of the worker as arguments, never makes a property callback cast an internal field to a type
  the field does not have, whatever calls the handler makes. The engine is one in which scripts cannot
  make host objects of their own, and the query service answers with JSON.
\<close>

theorem handler_type_safety:
  assumes "worker_reachable L i app (Alive w, x)"
    and "engine_confined (lib_engine L) (handed_out w)" and "rows_are_json (lib_v8 L) (lib_lcb L)"
    and "Arg None \<notin> set args" and "{obj. ArgObject obj \<in> set args} \<subseteq> handed_out w"
  shows "call_function L f args (w, x) \<noteq> Inl Library_contract"
proof (cases f)
  case (Some fn)
  have inv: "worker_inv (cb_instance w) w" using worker_reachable_inv [OF assms(1)] by simp
  have "uses_only (handed_out w) (js_call (lib_engine L) (context_heap w) fn args)"
    using assms(2,5) by (simp add: engine_confined_def)
  then have "run_js L (js_call (lib_engine L) (context_heap w) fn args) (w, x) \<noteq> Inl Library_contract"
    using handed_out_typed [OF inv] assms(3) by (intro run_js_safe [of "handed_out w"]) (auto simp: handed_out_def)
  then show ?thesis using Some assms(4) by (auto simp: call_function_def res_bind_eq_Inl_iff)
qed (simp add: call_function_def)

text \<open>
  A handler that reads the body of the response and writes a member of it.
\<close>

definition writes_body :: "string \<Rightarrow> string \<Rightarrow> string argument list \<Rightarrow> (string, string) js" where
  "writes_body h f args = Calls (GetProperty response_object (StringName ''body''))
     (\<lambda>r. case r of HostValue obj \<Rightarrow> Calls (SetProperty obj (StringName ''ok'') ''1'') (\<lambda>_. Ends h None) | _ \<Rightarrow> Ends h None)"

definition typed_libs :: "(string, string, ref_cluster_state, ref_redis_state, (string \<times> string) list) libs" where
  "typed_libs = (ref_libs writes_body)\<lparr>lib_lcb := ref_lcb\<lparr>lcb_n1ql_query := (\<lambda>s b q. ([], s))\<rparr>\<rparr>"

lemma typed_libs_new: "\<exists>w x. Worker_new typed_libs 0 ''app1'' ref_world = Inr (w, x)"
  using ref_Worker_new [of writes_body] by (simp add: typed_libs_def Worker_new_def)

theorem handler_type_safety_witness:
  "\<exists>w x. worker_reachable typed_libs 0 ''app1'' (Alive w, x) \<and>
     call_function typed_libs (Some ''OnHTTPGet'') [Arg (Some ''{}''), ArgObject response_object] (w, x) \<noteq> Inl Library_contract"
proof -
  obtain w x where "Worker_new typed_libs 0 ''app1'' ref_world = Inr (w, x)" using typed_libs_new by blast
  then have r: "worker_reachable typed_libs 0 ''app1'' (Alive w, x)" by (rule worker_new)
  have "uses_only (handed_out w) (writes_body h fn args)" for h fn args
    by (auto simp: writes_body_def handed_out_def split: host_reply.splits)
  then have "engine_confined (lib_engine typed_libs) (handed_out w)"
    by (simp add: engine_confined_def typed_libs_def ref_libs_def ref_engine_def)
  moreover have "rows_are_json (lib_v8 typed_libs) (lib_lcb typed_libs)"
    by (simp add: rows_are_json_def typed_libs_def Rows_init_def)
  moreover have "{obj. ArgObject obj \<in> set [Arg (Some ''{}''), ArgObject response_object]} \<subseteq> handed_out w"
    by (auto simp: handed_out_def)
  ultimately show ?thesis
    using handler_type_safety [OF r, of "[Arg (Some ''{}''), ArgObject response_object]" "Some ''OnHTTPGet''"] r by auto
qed

end
