(* ===== verification/GoBinding.thy ===== *)
theory GoBinding
  imports Delivery
begin

text \<open>
  The Go package around the C functions, src/worker/worker.go: the table of workers, \<open>New\<close>,
  \<open>Dispose\<close> and the methods that forward to the worker. The lemmas show that the table holds exactly
  the workers that are not disposed of, that V8 is initialised once, what error a failed call reports,
  and what a second \<open>Dispose\<close> does.
\<close>

section \<open>State\<close>

text \<open>
  The struct \<open>worker\<close>: its C worker, whose isolate is gone once it is disposed of, and its index. A pointer to it is its
  position in the list of all that were allocated; the struct \<open>Worker\<close> that \<open>New\<close> returns adds the
  flag \<open>disposed\<close>. An \<open>int\<close> of Go has 64 bits.
\<close>

record ('h, 'v) go_worker =
  cWorker :: "('h, 'v) c_worker"
  tableIndex :: "64 word"
  disposed :: bool

record ('h, 'v) go_binding =
  go_workers :: "('h, 'v) go_worker list"
  workerTable :: "64 word \<rightharpoonup> nat"
  workerTableNextAvailable :: "64 word"
  initV8Once :: bool
  v8_inits :: nat

type_synonym ('h, 'v, 's, 'r, 'm) go_state = "('h, 'v) go_binding \<times> ('s, 'r, 'm) world"

definition go_binding_init :: "('h, 'v) go_binding" where
  "go_binding_init = \<lparr>go_workers = [], workerTable = Map.empty, workerTableNextAvailable = 0,
     initV8Once = False, v8_inits = 0\<rparr>"

text \<open>The conversion \<open>C.int(i)\<close> keeps the low 32 bits.\<close>

definition C_int :: "64 word \<Rightarrow> int" where
  "C_int i = sint (ucast i :: 32 word)"

section \<open>Operations\<close>

definition workerTableLookup :: "64 word \<Rightarrow> ('h, 'v) go_binding \<Rightarrow> nat option" where
  "workerTableLookup index b = workerTable b index"

definition go_init_v8 :: "('h, 'v) go_binding \<Rightarrow> ('h, 'v) go_binding" where
  "go_init_v8 b = (if initV8Once b then b else b\<lparr>initV8Once := True, v8_inits := Suc (v8_inits b)\<rparr>)"

definition go_New ::
  "('h, 'v, 's, 'r, 'm) libs \<Rightarrow> string \<Rightarrow> ('h, 'v, 's, 'r, 'm) go_state \<Rightarrow> (nat \<times> ('h, 'v, 's, 'r, 'm) go_state) result" where
  "go_New L aName = (\<lambda>(b, x).
     let p = length (go_workers b);
         i = workerTableNextAvailable b;
         b1 = b\<lparr>workerTableNextAvailable := i + 1, workerTable := (workerTable b)(i \<mapsto> p)\<rparr>;
         b2 = go_init_v8 b1
     in res_bind (Worker_new L (C_int i) aName x) (\<lambda>(w, x').
          Inr (p, b2\<lparr>go_workers := go_workers b2 @ [\<lparr>cWorker = Alive w, tableIndex = i, disposed = False\<rparr>]\<rparr>, x')))"

text \<open>A call of a C function with the C worker of a struct.\<close>

definition call_c ::
  "('h, 'v, 's, 'r, 'm) libs \<Rightarrow> api_call \<Rightarrow> nat \<Rightarrow> ('h, 'v, 's, 'r, 'm) go_state
     \<Rightarrow> (api_result \<times> ('h, 'v, 's, 'r, 'm) go_state) result" where
  "call_c L call p = (\<lambda>(b, x).
     if length (go_workers b) \<le> p then Inl Null_deref
     else res_bind (api_exec L call (cWorker (go_workers b ! p), x)) (\<lambda>(r, w, x').
       Inr (r, b\<lparr>go_workers := (go_workers b)[p := (go_workers b ! p)\<lparr>cWorker := w\<rparr>]\<rparr>, x')))"

definition go_Dispose ::
  "('h, 'v, 's, 'r, 'm) libs \<Rightarrow> nat \<Rightarrow> ('h, 'v, 's, 'r, 'm) go_state \<Rightarrow> ('h, 'v, 's, 'r, 'm) go_state result" where
  "go_Dispose L p = (\<lambda>(b, x).
     if length (go_workers b) \<le> p then Inl Null_deref
     else if disposed (go_workers b ! p) then Inl (Go_panic ''worker already disposed'')
     else let g = go_workers b ! p;
              b1 = b\<lparr>go_workers := (go_workers b)[p := g\<lparr>disposed := True\<rparr>],
                     workerTable := (workerTable b)(tableIndex g := None)\<rparr>
          in res_bind (call_c L worker_dispose p (b1, x)) (\<lambda>(_, st). Inr st))"

text \<open>The finalizer that \<open>New\<close> sets, run by the collector once the handle is unreachable.\<close>

definition go_finalizer ::
  "('h, 'v, 's, 'r, 'm) libs \<Rightarrow> nat \<Rightarrow> ('h, 'v, 's, 'r, 'm) go_state \<Rightarrow> ('h, 'v, 's, 'r, 'm) go_state result" where
  "go_finalizer L p st = go_Dispose L p st"

text \<open>\<open>C.GoString\<close> copies the text a pointer leads to.\<close>

definition GoString ::
  "api_result \<times> 'st \<Rightarrow> (string \<times> 'st) result" where
  "GoString = (\<lambda>(r, st).
     case r of Text t \<Rightarrow> res_bind (deref t) (\<lambda>s. Inr (s, st)) | _ \<Rightarrow> Inl Library_contract)"

text \<open>
  A function that returns a code: nil for zero, otherwise an error with the text of the last
  exception.
\<close>

definition go_checked ::
  "('h, 'v, 's, 'r, 'm) libs \<Rightarrow> api_call \<Rightarrow> nat \<Rightarrow> ('h, 'v, 's, 'r, 'm) go_state
     \<Rightarrow> (string option \<times> ('h, 'v, 's, 'r, 'm) go_state) result" where
  "go_checked L call p st =
     res_bind (call_c L call p st) (\<lambda>(r, st1).
       case r of
         Code c \<Rightarrow>
           if code_of c \<noteq> 0
           then res_bind (call_c L worker_last_exception p st1) (\<lambda>r2.
                res_bind (GoString r2) (\<lambda>(errStr, st2). Inr (Some errStr, st2)))
           else Inr (None, st1)
       | _ \<Rightarrow> Inl Library_contract)"

definition go_Load ::
  "('h, 'v, 's, 'r, 'm) libs \<Rightarrow> nat \<Rightarrow> string \<Rightarrow> string \<Rightarrow> ('h, 'v, 's, 'r, 'm) go_state
     \<Rightarrow> (string option \<times> ('h, 'v, 's, 'r, 'm) go_state) result" where
  "go_Load L p sName codeString = go_checked L (worker_load (c_str sName) (c_str codeString)) p"

definition go_SendDelete ::
  "('h, 'v, 's, 'r, 'm) libs \<Rightarrow> nat \<Rightarrow> string \<Rightarrow> ('h, 'v, 's, 'r, 'm) go_state
     \<Rightarrow> (string option \<times> ('h, 'v, 's, 'r, 'm) go_state) result" where
  "go_SendDelete L p m = go_checked L (worker_send_delete (c_str m)) p"

definition go_SendUpdate ::
  "('h, 'v, 's, 'r, 'm) libs \<Rightarrow> nat \<Rightarrow> string \<Rightarrow> string \<Rightarrow> string \<Rightarrow> ('h, 'v, 's, 'r, 'm) go_state
     \<Rightarrow> (string option \<times> ('h, 'v, 's, 'r, 'm) go_state) result" where
  "go_SendUpdate L p v m t = go_checked L (worker_send_update (c_str v) (c_str m) (c_str t)) p"

definition go_TerminateExecution ::
  "('h, 'v, 's, 'r, 'm) libs \<Rightarrow> nat \<Rightarrow> ('h, 'v, 's, 'r, 'm) go_state \<Rightarrow> ('h, 'v, 's, 'r, 'm) go_state result" where
  "go_TerminateExecution L p st = res_bind (call_c L worker_terminate_execution p st) (\<lambda>(_, st'). Inr st')"

definition go_SendHTTPGet ::
  "('h, 'v, 's, 'r, 'm) libs \<Rightarrow> nat \<Rightarrow> string \<Rightarrow> ('h, 'v, 's, 'r, 'm) go_state
     \<Rightarrow> (string \<times> ('h, 'v, 's, 'r, 'm) go_state) result" where
  "go_SendHTTPGet L p r st = res_bind (call_c L (worker_send_http_get (c_str r)) p st) GoString"

definition go_SendHTTPPost ::
  "('h, 'v, 's, 'r, 'm) libs \<Rightarrow> nat \<Rightarrow> string \<Rightarrow> ('h, 'v, 's, 'r, 'm) go_state
     \<Rightarrow> (string \<times> ('h, 'v, 's, 'r, 'm) go_state) result" where
  "go_SendHTTPPost L p r st = res_bind (call_c L (worker_send_http_post (c_str r)) p st) GoString"

definition go_SendTimerCallback ::
  "('h, 'v, 's, 'r, 'm) libs \<Rightarrow> nat \<Rightarrow> string \<Rightarrow> ('h, 'v, 's, 'r, 'm) go_state \<Rightarrow> ('h, 'v, 's, 'r, 'm) go_state result" where
  "go_SendTimerCallback L p k st = res_bind (call_c L (worker_send_timer_callback (c_str k)) p st) (\<lambda>(_, st'). Inr st')"

definition go_StartV8Debugger ::
  "('h, 'v, 's, 'r, 'm) libs \<Rightarrow> nat \<Rightarrow> ('h, 'v, 's, 'r, 'm) go_state \<Rightarrow> ('h, 'v, 's, 'r, 'm) go_state result" where
  "go_StartV8Debugger L p st = res_bind (call_c L start_v8_debugger p st) (\<lambda>(_, st'). Inr st')"

definition go_StopV8Debugger ::
  "('h, 'v, 's, 'r, 'm) libs \<Rightarrow> nat \<Rightarrow> ('h, 'v, 's, 'r, 'm) go_state \<Rightarrow> ('h, 'v, 's, 'r, 'm) go_state result" where
  "go_StopV8Debugger L p st = res_bind (call_c L stop_v8_debugger p st) (\<lambda>(_, st'). Inr st')"

section \<open>Reachable states and their invariant\<close>

text \<open>
  What can happen to the package: a worker is made, a C function other than the disposal is called
  with a struct's worker, a worker is disposed of, and the world changes by itself.
\<close>

inductive go_reachable :: "('h, 'v, 's, 'r, 'm) libs \<Rightarrow> ('h, 'v, 's, 'r, 'm) go_state \<Rightarrow> bool" for L where
  go_start: "go_reachable L (go_binding_init, x)"
| go_new: "go_reachable L st \<Longrightarrow> go_New L a st = Inr (p, st') \<Longrightarrow> go_reachable L st'"
| go_call: "go_reachable L st \<Longrightarrow> call \<noteq> worker_dispose \<Longrightarrow> call_c L call p st = Inr (r, st') \<Longrightarrow> go_reachable L st'"
| go_dispose: "go_reachable L st \<Longrightarrow> go_Dispose L p st = Inr st' \<Longrightarrow> go_reachable L st'"
| go_world: "go_reachable L (b, x) \<Longrightarrow> go_reachable L (b, x')"

definition go_worker_ok :: "nat \<Rightarrow> ('h, 'v) go_worker \<Rightarrow> bool" where
  "go_worker_ok p g \<longleftrightarrow> tableIndex g = word_of_nat p
     \<and> (\<exists>w. cWorker g = (if disposed g then Disposed w else Alive w) \<and> worker_inv (cb_instance w) w)"

definition go_inv :: "('h, 'v) go_binding \<Rightarrow> bool" where
  "go_inv b \<longleftrightarrow>
     (\<forall>p < length (go_workers b). go_worker_ok p (go_workers b ! p))
   \<and> workerTableNextAvailable b = word_of_nat (length (go_workers b))
   \<and> v8_inits b = (if initV8Once b then 1 else 0) \<and> (go_workers b \<noteq> [] \<longrightarrow> initV8Once b)"

text \<open>The table is exact while the indices have not wrapped around.\<close>

definition table_exact :: "('h, 'v) go_binding \<Rightarrow> bool" where
  "table_exact b \<longleftrightarrow>
     (\<forall>i p. workerTable b i = Some p \<longleftrightarrow> p < length (go_workers b) \<and> \<not> disposed (go_workers b ! p) \<and> i = word_of_nat p)"

lemma go_inv_worker: "go_inv b \<Longrightarrow> p < length (go_workers b) \<Longrightarrow> go_worker_ok p (go_workers b ! p)"
  by (simp add: go_inv_def)

lemma api_exec_keeps:
  assumes "worker_inv (cb_instance w) w" "call \<noteq> worker_dispose"
    and "api_exec L call (if d then Disposed w else Alive w, x) = Inr (r, c, x')"
  shows "\<exists>w'. c = (if d then Disposed w' else Alive w') \<and> worker_inv (cb_instance w') w'"
proof -
  obtain w' where c: "c = (if d then Disposed w' else Alive w')"
    using assms(2,3) by (auto simp: api_exec_def res_bind_eq_Inr_iff split: if_splits)
  have inv: "worker_inv (cb_instance w) w'"
    using api_exec_inv [OF _ assms(3), of "cb_instance w"] assms(1) by (cases d) (simp_all add: c)
  then have "cb_instance w' = cb_instance w" by (simp add: worker_inv_def)
  then show ?thesis using c inv by simp
qed

lemma call_cE:
  assumes "call_c L call p (b, x) = Inr (r, b', x')"
  obtains wo where "p < length (go_workers b)"
    "api_exec L call (cWorker (go_workers b ! p), x) = Inr (r, wo, x')"
    "b' = b\<lparr>go_workers := (go_workers b)[p := (go_workers b ! p)\<lparr>cWorker := wo\<rparr>]\<rparr>"
  using assms by (auto simp: call_c_def res_bind_eq_Inr_iff split: if_splits)

lemma go_inv_update:
  "go_inv b \<Longrightarrow> p < length (go_workers b) \<Longrightarrow> go_worker_ok p g \<Longrightarrow> go_inv (b\<lparr>go_workers := (go_workers b)[p := g]\<rparr>)"
  by (auto simp: go_inv_def nth_list_update)

lemma table_exact_update:
  "table_exact b \<Longrightarrow> p < length (go_workers b) \<Longrightarrow> disposed g = disposed (go_workers b ! p) \<Longrightarrow>
     table_exact (b\<lparr>go_workers := (go_workers b)[p := g]\<rparr>)"
  by (auto simp: table_exact_def nth_list_update)

lemma call_c_inv:
  assumes inv: "go_inv b" and "call \<noteq> worker_dispose" and r: "call_c L call p (b, x) = Inr (r, b', x')"
  shows "go_inv b' \<and> (table_exact b \<longrightarrow> table_exact b') \<and> length (go_workers b') = length (go_workers b)"
  using r
proof (rule call_cE)
  fix wo
  assume p: "p < length (go_workers b)"
    and a: "api_exec L call (cWorker (go_workers b ! p), x) = Inr (r, wo, x')"
    and b': "b' = b\<lparr>go_workers := (go_workers b)[p := (go_workers b ! p)\<lparr>cWorker := wo\<rparr>]\<rparr>"
  obtain w where w: "cWorker (go_workers b ! p) = (if disposed (go_workers b ! p) then Disposed w else Alive w)"
    "worker_inv (cb_instance w) w"
    using go_inv_worker [OF inv p] by (auto simp: go_worker_ok_def)
  have "go_worker_ok p ((go_workers b ! p)\<lparr>cWorker := wo\<rparr>)"
    using api_exec_keeps [OF w(2) assms(2) a [unfolded w(1)]] go_inv_worker [OF inv p]
    by (simp add: go_worker_ok_def)
  then show ?thesis
    unfolding b' using go_inv_update [OF inv p] table_exact_update [OF _ p] by simp
qed

lemma go_New_inv:
  assumes inv: "go_inv b" and r: "go_New L a (b, x) = Inr (p, b', x')"
  shows "go_inv b' \<and> p = length (go_workers b) \<and> length (go_workers b') = Suc p
    \<and> (table_exact b \<and> Suc p \<le> 2 ^ 64 \<longrightarrow> table_exact b')"
proof -
  obtain w where w: "Worker_new L (C_int (workerTableNextAvailable b)) a x = Inr (w, x')"
    and p: "p = length (go_workers b)"
    and b': "b' = (go_init_v8 b)\<lparr>workerTableNextAvailable := workerTableNextAvailable b + 1,
        workerTable := (workerTable b)(workerTableNextAvailable b \<mapsto> p),
        go_workers := go_workers b @ [\<lparr>cWorker = Alive w, tableIndex = workerTableNextAvailable b, disposed = False\<rparr>]\<rparr>"
    using r by (auto simp: go_New_def Let_def res_bind_eq_Inr_iff go_init_v8_def)
  have wi: "worker_inv (cb_instance w) w" using worker_inv_new [OF w] by simp
  have next': "workerTableNextAvailable b = word_of_nat p" using inv by (simp add: go_inv_def p)
  have "go_inv b'"
    using inv wi unfolding b' go_inv_def go_init_v8_def
    by (auto simp: nth_append go_worker_ok_def p less_Suc_eq add.commute)
  moreover have "table_exact b'" if ex: "table_exact b" and le: "Suc p \<le> 2 ^ 64"
  proof -
    have inj: "word_of_nat q = (word_of_nat p :: 64 word) \<longleftrightarrow> q = p" if "q \<le> p" for q
      using that le by (simp add: word_of_nat_eq_iff take_bit_nat_eq_self)
    have "workerTable b' i = Some q \<longleftrightarrow> q < Suc p \<and> \<not> disposed (go_workers b' ! q) \<and> i = word_of_nat q" for i q
      using ex inj [of q] unfolding b' table_exact_def next'
      by (cases "q = p") (auto simp: p nth_append go_init_v8_def)
    then show ?thesis unfolding table_exact_def by (simp add: b' p go_init_v8_def)
  qed
  ultimately show ?thesis by (simp add: p b' go_init_v8_def)
qed

text \<open>A disposal of a worker that is alive.\<close>

definition after_dispose :: "('h, 'v) Worker \<Rightarrow> nat \<Rightarrow> ('h, 'v) go_binding \<Rightarrow> ('h, 'v) go_binding" where
  "after_dispose w p b =
     b\<lparr>go_workers := (go_workers b)[p := (go_workers b ! p)\<lparr>disposed := True, cWorker := Disposed w\<rparr>],
       workerTable := (workerTable b)(tableIndex (go_workers b ! p) := None)\<rparr>"

lemma go_Dispose_eq:
  "p < length (go_workers b) \<Longrightarrow> \<not> disposed (go_workers b ! p) \<Longrightarrow> cWorker (go_workers b ! p) = Alive w \<Longrightarrow>
     go_Dispose L p (b, x) = Inr (after_dispose w p b, x)"
  by (simp add: go_Dispose_def call_c_def api_exec_defs Let_def after_dispose_def)

lemma go_DisposeE:
  assumes "go_inv b" "go_Dispose L p (b, x) = Inr (b', x')"
  obtains w where "p < length (go_workers b)" "\<not> disposed (go_workers b ! p)" "cWorker (go_workers b ! p) = Alive w"
    "worker_inv (cb_instance w) w" "x' = x" "b' = after_dispose w p b"
proof -
  have p: "p < length (go_workers b)" "\<not> disposed (go_workers b ! p)"
    using assms(2) by (auto simp: go_Dispose_def split: if_splits)
  then obtain w where w: "cWorker (go_workers b ! p) = Alive w" "worker_inv (cb_instance w) w"
    using go_inv_worker [OF assms(1) p(1)] by (auto simp: go_worker_ok_def)
  show thesis using that [OF p w] go_Dispose_eq [OF p w(1), of L x] assms(2) by auto
qed

lemma go_Dispose_inv:
  assumes inv: "go_inv b" and r: "go_Dispose L p (b, x) = Inr (b', x')"
  shows "go_inv b' \<and> length (go_workers b') = length (go_workers b)
    \<and> (table_exact b \<and> length (go_workers b) \<le> 2 ^ 64 \<longrightarrow> table_exact b')"
  using inv r
proof (rule go_DisposeE)
  fix w
  let ?g = "(go_workers b ! p)\<lparr>disposed := True, cWorker := Disposed w\<rparr>"
  assume p: "p < length (go_workers b)" and w: "worker_inv (cb_instance w) w" and "b' = after_dispose w p b"
  then have b': "b' = b\<lparr>go_workers := (go_workers b)[p := ?g], workerTable := (workerTable b)(tableIndex (go_workers b ! p) := None)\<rparr>"
    by (simp add: after_dispose_def)
  have i: "tableIndex (go_workers b ! p) = word_of_nat p"
    using go_inv_worker [OF inv p] by (simp add: go_worker_ok_def)
  have "go_inv (b\<lparr>go_workers := (go_workers b)[p := ?g]\<rparr>)"
    by (rule go_inv_update [OF inv p]) (simp add: go_worker_ok_def i w)
  then have "go_inv b'" by (simp add: b' go_inv_def)
  moreover have "table_exact b'" if ex: "table_exact b" and le: "length (go_workers b) \<le> 2 ^ 64"
  proof -
    have inj: "word_of_nat q = (word_of_nat p :: 64 word) \<longleftrightarrow> q = p" if "q < length (go_workers b)" for q
      using that p le by (simp add: word_of_nat_eq_iff take_bit_nat_eq_self)
    have "workerTable b' j = Some q \<longleftrightarrow> q < length (go_workers b') \<and> \<not> disposed (go_workers b' ! q) \<and> j = word_of_nat q" for j q
      using ex p inj [of q] unfolding table_exact_def b' i
      by (cases "q = p"; cases "q < length (go_workers b)") (auto simp: nth_list_update)
    then show ?thesis by (simp add: table_exact_def)
  qed
  ultimately show ?thesis by (simp add: b')
qed

lemma go_reachable_inv:
  "go_reachable L st \<Longrightarrow> go_inv (fst st) \<and> (length (go_workers (fst st)) \<le> 2 ^ 64 \<longrightarrow> table_exact (fst st))"
proof (induction rule: go_reachable.induct)
  case (go_start x)
  show ?case by (simp add: go_binding_init_def go_inv_def table_exact_def)
next
  case (go_new st a p st')
  then show ?case using go_New_inv [of "fst st" L a "snd st" p "fst st'" "snd st'"] by auto
next
  case (go_call st call p r st')
  then show ?case using call_c_inv [of "fst st" call L p "snd st" r "fst st'" "snd st'"] by auto
next
  case (go_dispose st p st')
  then show ?case using go_Dispose_inv [of "fst st" L p "snd st" "fst st'" "snd st'"] by auto
next
  case (go_world b x x')
  then show ?case by simp
qed

section \<open>Properties\<close>

text \<open>
  C12. In every state the package can reach while at most 2^64 workers were made, a lookup of an index
  finds a worker exactly if it is the worker of that index and not yet disposed of; every such worker
  keeps the worker invariant; and V8 was initialised once, before the first worker, or not at all.
\<close>

theorem go_binding_invariant:
  assumes "go_reachable L (b, x)" "length (go_workers b) \<le> 2 ^ 64"
  shows "(workerTableLookup i b = Some p \<longleftrightarrow>
       p < length (go_workers b) \<and> \<not> disposed (go_workers b ! p) \<and> i = tableIndex (go_workers b ! p))
    \<and> (workerTableLookup i b = Some p \<longrightarrow> (\<exists>w. cWorker (go_workers b ! p) = Alive w \<and> worker_inv (cb_instance w) w))
    \<and> v8_inits b = (if initV8Once b then 1 else 0) \<and> (go_workers b \<noteq> [] \<longrightarrow> v8_inits b = 1)"
proof -
  have inv: "go_inv b" "table_exact b" using go_reachable_inv [OF assms(1)] assms(2) by auto
  have "tableIndex (go_workers b ! p) = word_of_nat p" if "p < length (go_workers b)"
    using go_inv_worker [OF inv(1) that] by (simp add: go_worker_ok_def)
  moreover have "workerTable b i = Some p \<longleftrightarrow>
      p < length (go_workers b) \<and> \<not> disposed (go_workers b ! p) \<and> i = word_of_nat p"
    using inv(2) by (simp add: table_exact_def)
  moreover have "\<exists>w. cWorker (go_workers b ! p) = Alive w \<and> worker_inv (cb_instance w) w"
    if "p < length (go_workers b)" "\<not> disposed (go_workers b ! p)"
    using go_inv_worker [OF inv(1) that(1)] that(2) by (simp add: go_worker_ok_def)
  ultimately show ?thesis using inv(1) unfolding workerTableLookup_def go_inv_def by auto
qed

lemma ref_go_New:
  "\<exists>b x. go_New (ref_libs ends_quietly) ''app1'' (go_binding_init, ref_world) = Inr (0, b, x)
    \<and> go_reachable (ref_libs ends_quietly) (b, x) \<and> length (go_workers b) = 1 \<and> \<not> disposed (go_workers b ! 0)
    \<and> tableIndex (go_workers b ! 0) = 0"
proof -
  obtain w x where w: "Worker_new (ref_libs ends_quietly) 0 ''app1'' ref_world = Inr (w, x)" using ref_Worker_new by blast
  then have "go_New (ref_libs ends_quietly) ''app1'' (go_binding_init, ref_world) =
      Inr (0, (go_init_v8 go_binding_init)\<lparr>workerTableNextAvailable := 1, workerTable := [0 \<mapsto> 0],
        go_workers := [\<lparr>cWorker = Alive w, tableIndex = 0, disposed = False\<rparr>]\<rparr>, x)"
    by (simp add: go_New_def go_binding_init_def go_init_v8_def C_int_def)
  then show ?thesis using go_new [OF go_start] by fastforce
qed

theorem go_binding_invariant_witness:
  "\<exists>b x. go_New (ref_libs ends_quietly) ''app1'' (go_binding_init, ref_world) = Inr (0, b, x)
    \<and> workerTableLookup 0 b = Some 0 \<and> v8_inits b = 1"
proof -
  obtain b x where b: "go_New (ref_libs ends_quietly) ''app1'' (go_binding_init, ref_world) = Inr (0, b, x)"
    "go_reachable (ref_libs ends_quietly) (b, x)" "length (go_workers b) = 1" "\<not> disposed (go_workers b ! 0)"
    "tableIndex (go_workers b ! 0) = 0" using ref_go_New by blast
  have le: "length (go_workers b) \<le> 2 ^ 64" using b(3) by simp
  have "go_workers b \<noteq> []" using b(3) by auto
  then show ?thesis using go_binding_invariant [OF b(2) le, of 0 0] b by auto
qed

text \<open>
  \<open>Dispose\<close> of a live worker succeeds and takes it out of the table; from then on every C function that
  touches the isolate uses a freed one, and the finalizer that \<open>New\<close> registered, which the collector
  runs once the handle is unreachable, panics because the worker is already disposed of.
\<close>

theorem dispose_then_finalizer:
  assumes "go_reachable L (b, x)" "p < length (go_workers b)" "\<not> disposed (go_workers b ! p)"
  shows "\<exists>b'. go_Dispose L p (b, x) = Inr (b', x)
    \<and> workerTableLookup (tableIndex (go_workers b ! p)) b' = None
    \<and> (\<forall>call. touches_isolate call \<longrightarrow> call_c L call p (b', x) = Inl Use_after_free)
    \<and> go_finalizer L p (b', x) = Inl (Go_panic ''worker already disposed'')"
proof -
  obtain w where "cWorker (go_workers b ! p) = Alive w"
    using go_inv_worker go_reachable_inv [OF assms(1)] assms(2,3) by (fastforce simp: go_worker_ok_def)
  from go_Dispose_eq [OF assms(2,3) this, of L x] show ?thesis
    using assms(2) by (intro exI [of _ "after_dispose w p b"])
      (simp add: workerTableLookup_def call_c_def api_exec_def go_finalizer_def go_Dispose_def after_dispose_def)
qed

theorem dispose_then_finalizer_witness:
  "\<exists>b b' x. go_New (ref_libs ends_quietly) ''app1'' (go_binding_init, ref_world) = Inr (0, b, x)
    \<and> go_Dispose (ref_libs ends_quietly) 0 (b, x) = Inr (b', x)
    \<and> go_finalizer (ref_libs ends_quietly) 0 (b', x) = Inl (Go_panic ''worker already disposed'')"
proof -
  obtain b x where b: "go_New (ref_libs ends_quietly) ''app1'' (go_binding_init, ref_world) = Inr (0, b, x)"
    "go_reachable (ref_libs ends_quietly) (b, x)" "length (go_workers b) = 1" "\<not> disposed (go_workers b ! 0)"
    using ref_go_New by blast
  have "0 < length (go_workers b)" using b(3) by simp
  from dispose_then_finalizer [OF b(2) this b(4)] b(1) show ?thesis by blast
qed

text \<open>What a forwarded call sees of the struct, and the text of an error.\<close>

lemma call_c_eq:
  "p < length (go_workers b) \<Longrightarrow> api_exec L call (cWorker (go_workers b ! p), x) = Inr (r, w, x') \<Longrightarrow>
     call_c L call p (b, x) = Inr (r, b\<lparr>go_workers := (go_workers b)[p := (go_workers b ! p)\<lparr>cWorker := w\<rparr>]\<rparr>, x')"
  by (simp add: call_c_def)

lemma go_checked_eq:
  assumes p: "p < length (go_workers b)"
    and a: "api_exec L call (cWorker (go_workers b ! p), x) = Inr (Code c, Alive w, x')"
  shows "go_checked L call p (b, x) =
    Inr (if c = SUCCESS then None else Some (WorkerLastException w),
         b\<lparr>go_workers := (go_workers b)[p := (go_workers b ! p)\<lparr>cWorker := Alive w\<rparr>]\<rparr>, x')"
proof -
  let ?b = "b\<lparr>go_workers := (go_workers b)[p := (go_workers b ! p)\<lparr>cWorker := Alive w\<rparr>]\<rparr>"
  have "code_of c = 0 \<longleftrightarrow> c = SUCCESS" by (cases c) simp_all
  moreover have "call_c L worker_last_exception p (?b, x') = Inr (Text (Live (WorkerLastException w)), ?b, x')"
    using p by (simp add: call_c_def api_exec_defs)
  ultimately show ?thesis
    using call_c_eq [OF p a] by (simp add: go_checked_def GoString_def deref_def)
qed

text \<open>
  An update whose handler throws is reported to Go as an error, but the text of the error is not
  that of the exception: it is whatever exception an earlier load or delivery left behind, and empty
  where there was none. An update whose handler returns is reported as no error.
\<close>

theorem go_SendUpdate_error:
  assumes p: "p < length (go_workers b)" "cWorker (go_workers b ! p) = Alive w"
    and f: "on_update w = Some f" and meta: "v8_parse (lib_v8 L) (c_str meta) = Some m"
    and val: "v8_parse (lib_v8 L) (c_str value) = Some v"
    and run: "run_js L (js_call (lib_engine L) (context_heap w) f [Arg (Some v), Arg (Some m)]) (w, x) = Inr (e, w', x')"
    and off: "\<not> start_debug_flag w"
  shows "\<exists>st. go_SendUpdate L p value meta ''json'' (b, x) =
    Inr (if e = None then None else Some (c_str (last_exception w)), st)"
proof -
  have j: "c_str ''json'' = ''json''" by (simp add: NUL_def)
  note u = SendUpdate_eq [of L "c_str value" "c_str meta" "c_str ''json''" w x]
  have args: "update_arguments L (c_str value) (c_str meta) (c_str ''json'') = ([Arg (Some v), Arg (Some m)], None)"
    using meta val j by (simp add: update_arguments_def json_argument_def later_exception_def)
  have call: "call_function L (on_update w) [Arg (Some v), Arg (Some m)] (w, x) = Inr (e, w', x')"
    using f run by (simp add: call_function_def)
  have fr: "\<not> start_debug_flag w'" "last_exception w' = last_exception w"
    using host_frameD(8,10) [OF run_js_frame [OF run]] off by simp_all
  obtain c x'' where "SendUpdate L (c_str value) (c_str meta) (c_str ''json'') (w, x) = Inr (c, w', x'')"
    "c = SUCCESS \<longleftrightarrow> e = None"
    using fr(1) unfolding u args
    by (cases e) (auto simp: log_caught_def call finish_delivery_def later_exception_def)
  then have a: "api_exec L (worker_send_update (c_str value) (c_str meta) (c_str ''json'')) (cWorker (go_workers b ! p), x)
      = Inr (Code c, Alive w', x'')" and c: "c = SUCCESS \<longleftrightarrow> e = None"
    using p(2) by (simp_all add: api_exec_defs)
  show ?thesis
    unfolding go_SendUpdate_def go_checked_eq [OF p(1) a] c WorkerLastException_def fr(2) by blast
qed

text \<open>A handler that throws.\<close>

definition throws :: "string \<Rightarrow> string \<Rightarrow> string argument list \<Rightarrow> (string, string) js" where
  "throws h f args = Ends h (Some ref_exception)"

theorem go_SendUpdate_error_witness:
  "\<exists>st. go_SendUpdate (ref_libs throws) 0 ''{}'' ''{}'' ''json''
      (go_binding_init\<lparr>go_workers := [\<lparr>cWorker = Alive (ref_worker\<lparr>on_update := Some ''OnUpdate''\<rparr>), tableIndex = 0, disposed = False\<rparr>]\<rparr>,
       ref_world) = Inr (Some [], st)"
proof -
  let ?w = "ref_worker\<lparr>on_update := Some ''OnUpdate''\<rparr>" and ?L = "ref_libs throws"
  let ?b = "go_binding_init\<lparr>go_workers := [\<lparr>cWorker = Alive ?w, tableIndex = 0, disposed = False\<rparr>]\<rparr>"
  have 1: "0 < length (go_workers ?b)" "cWorker (go_workers ?b ! 0) = Alive ?w" by simp_all
  have 2: "on_update ?w = Some ''OnUpdate''" "\<not> start_debug_flag ?w" by (simp_all add: ref_worker_def Worker_raw_def)
  have 3: "v8_parse (lib_v8 ?L) (c_str ''{}'') = Some ''{}''" by (simp add: ref_v8_def c_eval)
  have 4: "run_js ?L (js_call (lib_engine ?L) (context_heap ?w) ''OnUpdate'' [Arg (Some ''{}''), Arg (Some ''{}'')]) (?w, ref_world)
      = Inr (Some ref_exception, ?w, ref_world)"
    by (simp add: ref_engine_def throws_def)
  show ?thesis
    using go_SendUpdate_error [OF 1 2(1) 3 3 4 2(2)] by (simp add: ref_worker_def Worker_raw_def)
qed

end
