(* ===== verification/GoLib.thy ===== *)
theory GoLib
  imports BucketBinding
begin

text \<open>
  What the Go sources under src/go_eventing use of their standard library and of go-couchbase:
  \<open>strings.Split\<close>, the decimal and hexadecimal texts of \<open>fmt\<close> and \<open>strconv\<close>, the encoding of strings
  and of structs of strings by \<open>json.Marshal\<close>, and the key-value client. The lemmas relate \<open>Split\<close> to
  \<open>split\<close> of worker.cc and show that encoded texts pass through a C string unharmed.
\<close>

section \<open>strings.Split\<close>

text \<open>Splitting at a separator of one character: one piece more than there are separators.\<close>

fun Split :: "char \<Rightarrow> string \<Rightarrow> string list" where
  "Split d [] = [[]]"
| "Split d (c # s) =
     (if c = d then [] # Split d s
      else case Split d s of [] \<Rightarrow> [[c]] | x # xs \<Rightarrow> (c # x) # xs)"

lemma Split_nonempty [simp]: "Split d s \<noteq> []"
  by (induction s) (auto split: list.splits)

lemma Split_item [simp]: "d \<notin> set x \<Longrightarrow> Split d (x @ d # r) = x # Split d r"
  by (induction x) auto

lemma Split_last_item [simp]: "d \<notin> set x \<Longrightarrow> Split d x = [x]"
  by (induction x) auto

lemma length_Split: "length (Split d s) = Suc (count_list s d)"
  by (induction s) (auto split: list.splits)

lemma Split_join_keys: "\<forall>k \<in> set ks. d \<notin> set k \<Longrightarrow> Split d (join_keys d ks) = ks @ [[]]"
  by (induction ks) auto

lemma split_cases:
  obtains "d \<notin> set s" | x r where "s = x @ d # r" "d \<notin> set x"
  by (meson split_list_first)

text \<open>
  The pieces of \<open>split\<close> of worker.cc, which reads with \<open>getline\<close>: those of \<open>Split\<close> without a last
  piece that is empty.
\<close>

lemma split_Split: "split s d = (if last (Split d s) = [] then butlast (Split d s) else Split d s)"
proof (induction s rule: length_induct)
  case (1 s)
  show ?case
  proof (cases rule: split_cases [of d s])
    case 1
    then show ?thesis by (cases "s = []") simp_all
  next
    case (2 x r)
    then have "split r d = (if last (Split d r) = [] then butlast (Split d r) else Split d r)"
      using "1.IH" by simp
    then show ?thesis using 2 by simp
  qed
qed

section \<open>Numbers\<close>

text \<open>\<open>strconv.FormatUint(n, 16)\<close>.\<close>

definition hex_chars :: string where
  "hex_chars = ''0123456789abcdef''"

fun hex_of_nat :: "nat \<Rightarrow> string" where
  "hex_of_nat n = (if n < 16 then [hex_chars ! n] else hex_of_nat (n div 16) @ [hex_chars ! (n mod 16)])"

declare hex_of_nat.simps [simp del]

section \<open>json.Marshal of strings\<close>

text \<open>
  A character below 128 is copied if it is printable and neither a quotation mark, a backslash nor one of
  the three characters that matter to HTML, and escaped otherwise. From 128 on a well-formed UTF-8
  sequence is copied, except for the two line separators of Unicode, and a byte outside one becomes
  the escape of the replacement character.
\<close>

definition escape_ascii :: "char \<Rightarrow> string" where
  "escape_ascii c =
     (if c = CHR ''\"'' \<or> c = CHR 0x5C then [CHR 0x5C, c]
      else if c = CHR 0x0A then [CHR 0x5C, CHR ''n'']
      else if c = CHR 0x0D then [CHR 0x5C, CHR ''r'']
      else if c = CHR 0x09 then [CHR 0x5C, CHR ''t'']
      else if of_char c < (32::nat) \<or> c = CHR ''<'' \<or> c = CHR ''>'' \<or> c = CHR ''&''
      then [CHR 0x5C, CHR ''u'', CHR ''0'', CHR ''0'', hex_chars ! (of_char c div 16), hex_chars ! (of_char c mod 16)]
      else [c])"

definition in_range :: "nat \<Rightarrow> nat \<Rightarrow> char \<Rightarrow> bool" where
  "in_range lo hi c \<longleftrightarrow> lo \<le> of_char c \<and> of_char c \<le> hi"

text \<open>
  The well-formed sequences of two to four bytes: the range of the first byte, that of the second, and
  the length; the bytes after the second are continuation bytes. \<open>utf8_sequence\<close> is the length of the
  sequence at the front, zero if there is none.
\<close>

definition utf8_table :: "(nat \<times> nat \<times> nat \<times> nat \<times> nat) list" where
  "utf8_table =
     [(0xC2, 0xDF, 0x80, 0xBF, 2), (0xE0, 0xE0, 0xA0, 0xBF, 3), (0xE1, 0xEC, 0x80, 0xBF, 3), (0xED, 0xED, 0x80, 0x9F, 3),
      (0xEE, 0xEF, 0x80, 0xBF, 3), (0xF0, 0xF0, 0x90, 0xBF, 4), (0xF1, 0xF3, 0x80, 0xBF, 4), (0xF4, 0xF4, 0x80, 0x8F, 4)]"

definition utf8_matches :: "string \<Rightarrow> nat \<times> nat \<times> nat \<times> nat \<times> nat \<Rightarrow> bool" where
  "utf8_matches s = (\<lambda>(lo0, hi0, lo1, hi1, n).
     n \<le> length s \<and> in_range lo0 hi0 (s ! 0) \<and> in_range lo1 hi1 (s ! 1)
     \<and> list_all (\<lambda>i. in_range 0x80 0xBF (s ! i)) [2..<n])"

definition utf8_sequence :: "string \<Rightarrow> nat" where
  "utf8_sequence s = (case find (utf8_matches s) utf8_table of Some (_, _, _, _, n) \<Rightarrow> n | None \<Rightarrow> 0)"

function quote_body :: "string \<Rightarrow> string" where
  "quote_body [] = []"
| "quote_body (c # s) =
     (if of_char c < (128::nat) then escape_ascii c @ quote_body s
      else let n = utf8_sequence (c # s)
           in if n = 0 then CHR 0x5C # ''ufffd'' @ quote_body s
              else if take 3 (c # s) = [CHR 0xE2, CHR 0x80, CHR 0xA8] then CHR 0x5C # ''u2028'' @ quote_body (drop n (c # s))
              else if take 3 (c # s) = [CHR 0xE2, CHR 0x80, CHR 0xA9] then CHR 0x5C # ''u2029'' @ quote_body (drop n (c # s))
              else take n (c # s) @ quote_body (drop n (c # s)))"
  by pat_completeness auto
termination
  by (relation "measure length") auto

definition marshal_string :: "string \<Rightarrow> string" where
  "marshal_string s = CHR ''\"'' # quote_body s @ [CHR ''\"'']"

text \<open>A struct of strings: its members in their order.\<close>

fun marshal_members :: "(string \<times> string) list \<Rightarrow> string" where
  "marshal_members [] = []"
| "marshal_members [(k, v)] = marshal_string k @ '':'' @ marshal_string v"
| "marshal_members ((k, v) # kvs) = marshal_string k @ '':'' @ marshal_string v @ '','' @ marshal_members kvs"

definition marshal_struct :: "(string \<times> string) list \<Rightarrow> string" where
  "marshal_struct kvs = ''{'' @ marshal_members kvs @ ''}''"

subsection \<open>Encoded texts\<close>

lemma hex_chars_plain: "n < 16 \<Longrightarrow> hex_chars ! n \<noteq> NUL"
proof -
  assume "n < 16"
  then have "hex_chars ! n \<in> set hex_chars" by (intro nth_mem) (simp add: hex_chars_def)
  then show ?thesis by (auto simp: hex_chars_def NUL_def)
qed

lemma escape_ascii_no_NUL: "of_char c < (128::nat) \<Longrightarrow> NUL \<notin> set (escape_ascii c)"
proof -
  assume c: "of_char c < (128::nat)"
  then have "of_char c div 16 < (16::nat)" "of_char c mod 16 < (16::nat)" by simp_all
  note hex = hex_chars_plain [OF this(1)] hex_chars_plain [OF this(2)]
  show ?thesis
  proof (cases "c = NUL")
    case True
    then show ?thesis by (simp add: escape_ascii_def hex_chars_def NUL_def)
  next
    case False
    then show ?thesis using hex unfolding escape_ascii_def NUL_def by simp
  qed
qed

lemma in_range_no_NUL: "in_range lo hi c \<Longrightarrow> 0 < lo \<Longrightarrow> c \<noteq> NUL"
  by (auto simp: in_range_def NUL_def)

lemma utf8_table_positive: "(lo0, hi0, lo1, hi1, n) \<in> set utf8_table \<Longrightarrow> 0 < lo0 \<and> 0 < lo1"
  by (auto simp: utf8_table_def)

lemma utf8_sequence_no_NUL: "NUL \<notin> set (take (utf8_sequence s) s)"
proof -
  have "s ! i \<noteq> NUL" if i: "i < utf8_sequence s" for i
  proof -
    obtain lo0 hi0 lo1 hi1 n where f: "find (utf8_matches s) utf8_table = Some (lo0, hi0, lo1, hi1, n)" "i < n"
      using i by (cases "find (utf8_matches s) utf8_table") (auto simp: utf8_sequence_def)
    then have m: "utf8_matches s (lo0, hi0, lo1, hi1, n)" and t: "(lo0, hi0, lo1, hi1, n) \<in> set utf8_table"
      by (auto simp: find_Some_iff)
    consider "i = 0" | "i = 1" | "i \<in> set [2..<n]" using f(2) by force
    then have "\<exists>lo hi. 0 < lo \<and> in_range lo hi (s ! i)"
    proof cases
      case 3
      then have "in_range 0x80 0xBF (s ! i)" using m by (auto simp: utf8_matches_def list_all_iff)
      then show ?thesis by (intro exI [of _ "0x80"] exI [of _ "0xBF"]) simp
    qed (use m utf8_table_positive [OF t] in \<open>auto simp: utf8_matches_def\<close>)
    then show ?thesis using in_range_no_NUL by blast
  qed
  then show ?thesis by (force simp: in_set_conv_nth)
qed

lemma quote_body_no_NUL: "NUL \<notin> set (quote_body s)"
proof (induction s rule: quote_body.induct)
  case 1
  then show ?case by simp
next
  case (2 c s)
  then show ?case
    using escape_ascii_no_NUL [of c] utf8_sequence_no_NUL [of "c # s"]
    by (auto simp: Let_def NUL_def)
qed

lemma marshal_members_no_NUL: "NUL \<notin> set (marshal_members kvs)"
  by (induction kvs rule: marshal_members.induct) (auto simp: marshal_string_def quote_body_no_NUL [unfolded NUL_def] NUL_def)

lemma marshal_struct_no_NUL [simp]: "NUL \<notin> set (marshal_struct kvs)"
  using marshal_members_no_NUL [of kvs] by (simp add: marshal_struct_def NUL_def)

section \<open>go-couchbase\<close>

text \<open>
  The client is not in the repository: \<open>GetRaw\<close> and \<open>GetsRaw\<close> give the value or an error, \<open>Delete\<close> an error that the
  sources ignore. A bucket handle is named by the bucket, as that of libcouchbase is.
\<close>

record 's go_couchbase =
  GetRaw :: "'s \<Rightarrow> string \<Rightarrow> string \<Rightarrow> string option"
  GetsRaw :: "'s \<Rightarrow> string \<Rightarrow> string \<Rightarrow> string option"
  Delete :: "'s \<Rightarrow> string \<Rightarrow> string \<Rightarrow> 's"

text \<open>Both clients work on the same cluster.\<close>

definition shares_cluster :: "'s go_couchbase \<Rightarrow> 's lcb \<Rightarrow> bool" where
  "shares_cluster G L \<longleftrightarrow>
     (\<forall>s b k. GetRaw G s b k = kv L s b k) \<and> (\<forall>s b k. GetsRaw G s b k = kv L s b k)
   \<and> (\<forall>s b k. kv L (Delete G s b k) = (kv L s)(b := (kv L s b)(k := None)))"

lemma shares_clusterD:
  assumes "shares_cluster G L"
  shows "GetRaw G s b k = kv L s b k" "GetsRaw G s b k = kv L s b k" "kv L (Delete G s b k) = (kv L s)(b := (kv L s b)(k := None))"
  using assms by (auto simp: shares_cluster_def)

definition ref_go_couchbase :: "ref_cluster_state go_couchbase" where
  "ref_go_couchbase = \<lparr>GetRaw = (\<lambda>s. fst s), GetsRaw = (\<lambda>s. fst s), Delete = (\<lambda>s b k. ((fst s)(b := (fst s b)(k := None)), snd s))\<rparr>"

lemma ref_go_shares [simp]: "shares_cluster ref_go_couchbase ref_lcb"
  by (simp add: shares_cluster_def ref_go_couchbase_def)

end
