(* ===== verification/Dcp.thy ===== *)
theory Dcp
  imports GoBinding GoLib
begin

text \<open>
  The mutations of the source bucket, src/go_eventing/v8_worker.go: \<open>handleDcpEvent\<close> looks up the CAS of
  a mutation in the metadata bucket, drops the mutation if a handler's own write left its marker there
  (\<open>BucketSet\<close> of bucket.cc) and hands it to the worker otherwise. The lemmas show that the marker and
  the lookup agree on the bytes of the CAS, and what is delivered on every branch.
\<close>

section \<open>Events\<close>

datatype dcp_opcode = DCP_MUTATION | DCP_DELETION | DCP_OTHER int

text \<open>The fields of \<open>mc.DcpEvent\<close> the sources read.\<close>

record DcpEvent =
  Opcode :: dcp_opcode
  Key :: string
  Value :: string
  Cas :: "64 word"
  Flags :: "32 word"
  Expiry :: "32 word"

definition JSONType :: "32 word" where
  "JSONType = 0x2000000"

record eventMeta =
  meta_key :: string
  meta_type :: string
  meta_cas :: string
  meta_expiry :: string

definition marshal_meta :: "eventMeta \<Rightarrow> string" where
  "marshal_meta m = marshal_struct [(''key'', meta_key m), (''type'', meta_type m), (''cas'', meta_cas m), (''expiry'', meta_expiry m)]"

text \<open>The key under which the marker of a mutation is looked up.\<close>

definition casValue :: "DcpEvent \<Rightarrow> string" where
  "casValue m = dec_of_nat (unat (Cas m))"

definition event_meta :: "DcpEvent \<Rightarrow> eventMeta" where
  "event_meta m =
     \<lparr>meta_key = Key m, meta_type = (if Flags m = JSONType then ''json'' else ''base64''),
      meta_cas = hex_of_nat (unat (Cas m)), meta_expiry = dec_of_nat (unat (Expiry m))\<rparr>"

section \<open>handleDcpEvent\<close>

text \<open>
  The parameters are the client and \<open>json.Marshal\<close> of the event struct, which is declared outside the
  repository; the state is that of the package, the world and the counter \<open>ops\<close>. The errors that
  \<open>SendUpdate\<close> reports are dropped.
\<close>

definition handleDcpEvent ::
  "('h, 'v, 's, 'r, 'm) libs \<Rightarrow> 's go_couchbase \<Rightarrow> (DcpEvent \<Rightarrow> string option) \<Rightarrow> string \<Rightarrow> nat \<Rightarrow> DcpEvent
     \<Rightarrow> ('h, 'v, 's, 'r, 'm) go_state \<times> 64 word \<Rightarrow> (('h, 'v, 's, 'r, 'm) go_state \<times> 64 word) result" where
  "handleDcpEvent L G marshal_event bucket handle m = (\<lambda>((b, x), ops).
     case Opcode m of
       DCP_MUTATION \<Rightarrow>
         (case GetRaw G (cluster x) bucket (casValue m) of
            None \<Rightarrow>
              res_bind (go_SendUpdate L handle (Value m) (marshal_meta (event_meta m))
                          (if Flags m = JSONType then ''json'' else ''non-json'') (b, x))
                (\<lambda>(_, st). Inr (st, ops + 1))
          | Some _ \<Rightarrow> Inr ((b, x\<lparr>cluster := Delete G (cluster x) bucket (casValue m)\<rparr>), ops))
     | DCP_DELETION \<Rightarrow>
         res_bind (go_SendDelete L handle (case marshal_event m of Some t \<Rightarrow> t | None \<Rightarrow> []) (b, x))
           (\<lambda>(err, st). Inr (st, if err = None then ops + 1 else ops))
     | DCP_OTHER _ \<Rightarrow> Inr ((b, x), ops))"

section \<open>The CAS on both sides\<close>

text \<open>
  The server sends a CAS as eight bytes, most significant first. libcouchbase hands them to its caller as
  they lie in memory; the DCP client of Go decodes them. An event is that of the mutation with the given
  CAS of libcouchbase where both have the same eight bytes.
\<close>

definition same_cas :: "bool \<Rightarrow> lcb_CAS \<Rightarrow> DcpEvent \<Rightarrow> bool" where
  "same_cas little_endian cas m \<longleftrightarrow> (\<forall>i < 8. byte (Cas m) i = byte cas (if little_endian then 7 - i else i))"

lemma bytes_eqI:
  assumes "\<And>i. i < 8 \<Longrightarrow> byte u i = byte v i"
  shows "u = v"
proof (rule bit_word_eqI)
  fix n assume n: "n < LENGTH(64)"
  have "bit (byte w (n div 8)) (n mod 8) = bit w n" for w
    using n by (simp add: byte_def bit_simps)
  moreover have "n div 8 < 8" using n by simp
  ultimately show "bit u n = bit v n" using assms [of "n div 8"] by metis
qed

lemma same_cas_eq: "same_cas e cas m \<longleftrightarrow> Cas m = htonll_64 e cas"
proof
  assume s: "same_cas e cas m"
  show "Cas m = htonll_64 e cas"
  proof (rule bytes_eqI)
    fix i :: nat assume "i < 8"
    then show "byte (Cas m) i = byte (htonll_64 e cas) i"
      using s byte_htonll_64 [of i cas] by (cases e) (auto simp: same_cas_def htonll_64_def)
  qed
next
  assume "Cas m = htonll_64 e cas"
  then show "same_cas e cas m"
    using byte_htonll_64 by (cases e) (auto simp: same_cas_def htonll_64_def)
qed

text \<open>The lookup of Go and the marker of C++ use the same key exactly for the same mutation.\<close>

lemma casValue_marker: "casValue m = cas_marker_key e cas \<longleftrightarrow> same_cas e cas m"
  by (simp add: casValue_def cas_marker_key_def same_cas_eq word_unat_eq_iff)

section \<open>Own and foreign mutations\<close>

lemma own_mutation_dropped:
  assumes G: "shares_cluster G (lib_lcb L)" and m: "Opcode m = DCP_MUTATION"
    and marker: "kv (lib_lcb L) (cluster x) bucket (casValue m) = Some d"
  shows "\<exists>s'. handleDcpEvent L G marshal bucket p m ((b, x), ops) = Inr ((b, x\<lparr>cluster := s'\<rparr>), ops)
    \<and> kv (lib_lcb L) s' = (kv (lib_lcb L) (cluster x))(bucket := (kv (lib_lcb L) (cluster x) bucket)(casValue m := None))"
  using m marker by (intro exI [of _ "Delete G (cluster x) bucket (casValue m)"])
    (simp add: handleDcpEvent_def shares_clusterD [OF G])

lemma foreign_mutation_delivered:
  assumes G: "shares_cluster G (lib_lcb L)" and m: "Opcode m = DCP_MUTATION"
    and marker: "kv (lib_lcb L) (cluster x) bucket (casValue m) = None"
  shows "handleDcpEvent L G marshal bucket p m ((b, x), ops) =
    res_bind (go_SendUpdate L p (Value m) (marshal_meta (event_meta m))
        (if Flags m = JSONType then ''json'' else ''non-json'') (b, x)) (\<lambda>(_, st). Inr (st, ops + 1))"
  using m marker by (simp add: handleDcpEvent_def shares_clusterD [OF G])

text \<open>
  C2. A handler's own write, under a key the server accepts, does not come back to it: once \<open>BucketSet\<close> has
  stored a document and its marker, the mutation event of that write is dropped without a call of the worker, and the marker is
  removed again, so that all that is left of the write is the document. If the event is sent again it is
  delivered like a foreign mutation, since the marker is gone; and so it is if it arrives between the two
  stores of \<open>BucketSet\<close>.
\<close>

theorem own_mutation_not_delivered:
  assumes L: "reachable_cluster (lib_lcb L)" and G: "shares_cluster G (lib_lcb L)"
    and ok: "key_ok key" and args: "property_key (lib_v8 L) n = Inr key" "ToString (lib_v8 L) v = Inr val"
    and holder: "UnwrapLcbInstance h = Inr src" "UnwrapWorkerLcbInstance h = Inr meta"
    and event: "Opcode m = DCP_MUTATION" "same_cas e (write_cas (lib_lcb L) s src key val) m"
    and apart: "src \<noteq> meta" and fresh: "kv (lib_lcb L) s meta (casValue m) = None"
  shows "\<exists>s1 s2 s3. BucketSet (lib_v8 L) (lib_lcb L) e (StringName n) v h s = Inr (Returned v, s2)
    \<and> handleDcpEvent L G marshal meta p m ((b, x\<lparr>cluster := s2\<rparr>), ops) = Inr ((b, x\<lparr>cluster := s3\<rparr>), ops)
    \<and> kv (lib_lcb L) s3 = (kv (lib_lcb L) s)(src := (kv (lib_lcb L) s src)(key \<mapsto> val))
    \<and> s1 = snd (lcb_store3 (lib_lcb L) s src
        \<lparr>cmd_operation = LCB_SET, cmd_key = key, cmd_value = val, cmd_flags = 0x2000000\<rparr>)
    \<and> (\<forall>s' \<in> {s1, s3}. handleDcpEvent L G marshal meta p m ((b, x\<lparr>cluster := s'\<rparr>), ops) =
        res_bind (go_SendUpdate L p (Value m) (marshal_meta (event_meta m))
          (if Flags m = JSONType then ''json'' else ''non-json'') (b, x\<lparr>cluster := s'\<rparr>)) (\<lambda>(_, st). Inr (st, ops + 1)))"
proof -
  let ?K = "kv (lib_lcb L)" and ?cmd = "\<lparr>cmd_operation = LCB_SET, cmd_key = key, cmd_value = val, cmd_flags = 0x2000000\<rparr>"
  define s1 where "s1 = snd (lcb_store3 (lib_lcb L) s src ?cmd)"
  have k1: "?K s1 = (?K s)(src := (?K s src)(key \<mapsto> val))"
    by (simp add: s1_def reachable_clusterD(2) [OF L] ok kv_store_def)
  have key: "cas_marker_key e (write_cas (lib_lcb L) s src key val) = casValue m"
    using event(2) casValue_marker by metis
  obtain s2 where s2: "BucketSet (lib_v8 L) (lib_lcb L) e (StringName n) v h s = Inr (Returned v, s2)"
    "?K s2 = (?K s1)(meta := (?K s1 meta)(casValue m \<mapsto> key))"
    using BucketSet_kv [OF L ok args holder, of e s] by (auto simp: Let_def key k1)
  have "?K s2 meta (casValue m) = Some key" by (simp add: s2(2))
  from own_mutation_dropped [OF G event(1), of "x\<lparr>cluster := s2\<rparr>" meta key marshal p b ops] this
  obtain s3 where s3: "handleDcpEvent L G marshal meta p m ((b, x\<lparr>cluster := s2\<rparr>), ops) = Inr ((b, x\<lparr>cluster := s3\<rparr>), ops)"
    "?K s3 = (?K s2)(meta := (?K s2 meta)(casValue m := None))" by auto
  have k3: "?K s3 = ?K s1" using fresh apart unfolding s3(2) s2(2) k1 by (auto simp: fun_eq_iff)
  have "\<forall>s' \<in> {s1, s3}. ?K s' meta (casValue m) = None" using fresh apart by (simp add: k3 k1)
  then have "\<forall>s' \<in> {s1, s3}. handleDcpEvent L G marshal meta p m ((b, x\<lparr>cluster := s'\<rparr>), ops) =
        res_bind (go_SendUpdate L p (Value m) (marshal_meta (event_meta m))
          (if Flags m = JSONType then ''json'' else ''non-json'') (b, x\<lparr>cluster := s'\<rparr>)) (\<lambda>(_, st). Inr (st, ops + 1))"
    using foreign_mutation_delivered [OF G event(1)] by simp
  then show ?thesis using s2(1) s3(1) k3 k1 s1_def by metis
qed

text \<open>The event of the first write to the reference cluster.\<close>

definition ref_event :: DcpEvent where
  "ref_event = \<lparr>Opcode = DCP_MUTATION, Key = ''user'', Value = ''{}'', Cas = htonll_64 True 1, Flags = JSONType, Expiry = 0\<rparr>"

lemma ref_event_simps [simp]: "Opcode ref_event = DCP_MUTATION" "Flags ref_event = JSONType" "Value ref_event = ''{}''"
  by (simp_all add: ref_event_def)

theorem own_mutation_not_delivered_witness:
  "\<exists>s2 s3. BucketSet ref_v8 ref_lcb True (StringName ''user'') ''{}'' (bucket_object ref_bucket) ref_empty = Inr (Returned ''{}'', s2)
    \<and> handleDcpEvent (ref_libs ends_quietly) ref_go_couchbase (\<lambda>m. None) ''couchbase://localhost/eventing'' 0 ref_event
        ((go_binding_init, ref_world\<lparr>cluster := s2\<rparr>), 7) = Inr ((go_binding_init, ref_world\<lparr>cluster := s3\<rparr>), 7)
    \<and> fst s3 ''couchbase://localhost/default'' ''user'' = Some ''{}''"
proof -
  let ?L = "ref_libs ends_quietly"
  have h: "UnwrapLcbInstance (bucket_object ref_bucket) = Inr ''couchbase://localhost/default''"
    "UnwrapWorkerLcbInstance (bucket_object ref_bucket) = Inr ''couchbase://localhost/eventing''"
    by (simp_all add: ref_bucket_def Bucket_new_def c_eval)
  have k: "property_key (lib_v8 ?L) ''user'' = Inr ''user''" and v: "ToString (lib_v8 ?L) ''{}'' = Inr ''{}''"
    by (simp_all add: property_key_def ToString_def ObjectToString_def ref_v8_def c_eval)
  have c: "same_cas True (write_cas (lib_lcb ?L) ref_empty ''couchbase://localhost/default'' ''user'' ''{}'') ref_event"
    by (simp add: same_cas_eq write_cas_def) (simp add: ref_lcb_def ref_store_def ref_empty_def ref_event_def)
  have f: "kv (lib_lcb ?L) ref_empty ''couchbase://localhost/eventing'' (casValue ref_event) = None"
    by (simp add: ref_empty_def)
  have r: "reachable_cluster (lib_lcb ?L)" "shares_cluster ref_go_couchbase (lib_lcb ?L)" "key_ok ''user''" by (simp_all add: key_ok_def)
  obtain s2 s3 where "BucketSet (lib_v8 ?L) (lib_lcb ?L) True (StringName ''user'') ''{}'' (bucket_object ref_bucket) ref_empty = Inr (Returned ''{}'', s2)"
    "handleDcpEvent ?L ref_go_couchbase (\<lambda>m. None) ''couchbase://localhost/eventing'' 0 ref_event
        ((go_binding_init, ref_world\<lparr>cluster := s2\<rparr>), 7) = Inr ((go_binding_init, ref_world\<lparr>cluster := s3\<rparr>), 7)"
    "kv (lib_lcb ?L) s3 = (kv (lib_lcb ?L) ref_empty)(''couchbase://localhost/default'' :=
        (kv (lib_lcb ?L) ref_empty ''couchbase://localhost/default'')(''user'' \<mapsto> ''{}''))"
    using own_mutation_not_delivered [OF r k v h ref_event_simps(1) c _ f, of "\<lambda>m. None" 0 go_binding_init ref_world 7] by auto
  then show ?thesis by (intro exI [of _ s2] exI [of _ s3]) simp
qed

text \<open>
  C28. A mutation without a marker calls the update handler once: with the parsed value for a JSON
  document, with the bytes up to the first NUL for any other, and in both cases with the parsed
  metadata, whose text no C string cuts short; the worker and the world are those the handler leaves,
  the waiting debugger request is notified, and the counter goes up whether the handler threw or not.
\<close>

theorem foreign_mutation_calls_handler:
  assumes G: "shares_cluster G (lib_lcb L)" and event: "Opcode m = DCP_MUTATION"
    "kv (lib_lcb L) (cluster x) bucket (casValue m) = None"
    and p: "p < length (go_workers b)" "cWorker (go_workers b ! p) = Alive w" "on_update w = Some f" "\<not> start_debug_flag w"
    and val: "if Flags m = JSONType then v8_parse (lib_v8 L) (c_str (Value m)) = Some v
              else v = v8_string (lib_v8 L) (c_str (Value m))"
    and meta: "v8_parse (lib_v8 L) (marshal_meta (event_meta m)) = Some mv"
    and run: "run_js L (js_call (lib_engine L) (context_heap w) f [Arg (Some v), Arg (Some mv)]) (w, x) = Inr (e, w', x')"
  shows "handleDcpEvent L G marshal bucket p m ((b, x), ops) =
    Inr ((b\<lparr>go_workers := (go_workers b)[p := (go_workers b ! p)\<lparr>cWorker := Alive w'\<rparr>]\<rparr>,
          x'\<lparr>debugger := set_ready (debugger x'),
             stdout := stdout x' @ (case e of None \<Rightarrow> [] | Some tc \<Rightarrow> ''Exception message: '' @ ExceptionString tc @ newline)\<rparr>),
         ops + 1)"
proof -
  let ?t = "if Flags m = JSONType then ''json'' else ''non-json''" and ?m = "marshal_meta (event_meta m)"
  have c: "c_str ?t = ?t" by (simp add: NUL_def)
  have cm: "c_str ?m = ?m" by (simp add: marshal_meta_def)
  have args: "update_arguments L (c_str (Value m)) ?m ?t = ([Arg (Some v), Arg (Some mv)], None)"
    using val meta c cm by (auto simp: update_arguments_def json_argument_def later_exception_def split: if_splits)
  have call: "call_function L (on_update w) [Arg (Some v), Arg (Some mv)] (w, x) = Inr (e, w', x')"
    using p(3) run by (simp add: call_function_def)
  have off: "\<not> start_debug_flag w'" using host_frameD(10) [OF run_js_frame [OF run]] p(4) by simp
  let ?x = "x'\<lparr>debugger := set_ready (debugger x'),
             stdout := stdout x' @ (case e of None \<Rightarrow> [] | Some tc \<Rightarrow> ''Exception message: '' @ ExceptionString tc @ newline)\<rparr>"
  obtain code where "SendUpdate L (c_str (Value m)) ?m ?t (w, x) = Inr (code, w', ?x)"
    unfolding SendUpdate_eq args
    by (cases e) (auto simp: log_caught_def call finish_delivery_def later_exception_def off)
  then have "api_exec L (worker_send_update (c_str (Value m)) (c_str ?m) (c_str ?t)) (cWorker (go_workers b ! p), x)
      = Inr (Code code, Alive w', ?x)"
    by (simp only: c cm) (simp add: api_exec_defs p(2))
  from go_checked_eq [OF p(1) this]
  show ?thesis unfolding foreign_mutation_delivered [OF G event] go_SendUpdate_def by simp
qed

theorem foreign_mutation_calls_handler_witness:
  "handleDcpEvent (ref_libs throws) ref_go_couchbase (\<lambda>m. None) ''couchbase://localhost/eventing'' 0 ref_event
      ((go_binding_init\<lparr>go_workers := [\<lparr>cWorker = Alive (ref_worker\<lparr>on_update := Some ''OnUpdate''\<rparr>), tableIndex = 0, disposed = False\<rparr>]\<rparr>,
        ref_world), 7) =
   Inr ((go_binding_init\<lparr>go_workers := [\<lparr>cWorker = Alive (ref_worker\<lparr>on_update := Some ''OnUpdate''\<rparr>), tableIndex = 0, disposed = False\<rparr>]\<rparr>,
         ref_world\<lparr>debugger := set_ready debug_state_init, stdout := ''Exception message: '' @ ExceptionString ref_exception @ newline\<rparr>), 8)"
proof -
  let ?w = "ref_worker\<lparr>on_update := Some ''OnUpdate''\<rparr>" and ?L = "ref_libs throws"
  let ?b = "go_binding_init\<lparr>go_workers := [\<lparr>cWorker = Alive ?w, tableIndex = 0, disposed = False\<rparr>]\<rparr>"
  let ?m = "marshal_meta (event_meta ref_event)" and ?cb = "''couchbase://localhost/eventing''"
  have 0: "shares_cluster ref_go_couchbase (lib_lcb ?L)" "kv (lib_lcb ?L) (cluster ref_world) ?cb (casValue ref_event) = None"
    by (simp_all add: ref_world_def ref_empty_def)
  have 1: "0 < length (go_workers ?b)" "cWorker (go_workers ?b ! 0) = Alive ?w" by simp_all
  have 2: "on_update ?w = Some ''OnUpdate''" "\<not> start_debug_flag ?w" by (simp_all add: ref_worker_def Worker_raw_def)
  have 3: "if Flags ref_event = JSONType then v8_parse (lib_v8 ?L) (c_str (Value ref_event)) = Some ''{}''
      else ''{}'' = v8_string (lib_v8 ?L) (c_str (Value ref_event))" by (simp add: ref_v8_def c_eval)
  have 4: "v8_parse (lib_v8 ?L) ?m = Some ?m" by (simp add: ref_v8_def marshal_meta_def marshal_struct_def)
  have 5: "run_js ?L (js_call (lib_engine ?L) (context_heap ?w) ''OnUpdate'' [Arg (Some ''{}''), Arg (Some ?m)]) (?w, ref_world)
      = Inr (Some ref_exception, ?w, ref_world)"
    by (simp add: ref_engine_def throws_def)
  show ?thesis
    using foreign_mutation_calls_handler [OF 0(1) ref_event_simps(1) 0(2) 1 2 3 4 5, of "\<lambda>m. None" 7]
    by (simp add: ref_world_def)
qed

end
