(* ===== verification/TimerPoll.thy ===== *)
theory TimerPoll
  imports GoBinding GoLib
begin

text \<open>
  The timer routine of the service, src/go_eventing/proccess_timer_callbacks.go: once a second
  \<open>processTimerEvent\<close> fetches the marker of the instant two seconds ago, hands it to the worker, and
  deletes the marker and the documents it lists. The lemmas show that a tick computes the key that
  \<open>RegisterCallback\<close> of worker.cc wrote to, fires the timers of its instant and takes exactly them off
  the timer table, and what happens to an instant without a tick and to an id with two timers.
\<close>

section \<open>The instant of a tick\<close>

text \<open>A \<open>time.Time\<close> in UTC; its civil fields are those of \<open>gmtime\<close>, and \<open>time.Date\<close> is their inverse.\<close>

record go_time =
  unix_sec :: int
  nsec :: nat

definition NewISO8601 :: "go_time \<Rightarrow> go_time" where
  "NewISO8601 t =
     (let baseTime = \<lparr>unix_sec = timegm (gmtime (unix_sec t)), nsec = 0\<rparr>
      in baseTime\<lparr>unix_sec := unix_sec baseTime - 2\<rparr>)"

definition timer_format :: string where
  "timer_format = ''%Y-%m-%dT%H:%M:%S''"

text \<open>
  \<open>strftime.Format\<close> is a package outside the repository: for a year of four digits it prints the
  fields of the format in decimal, two digits each after the year.
\<close>

definition formats_iso :: "(string \<Rightarrow> tm \<Rightarrow> string) \<Rightarrow> bool" where
  "formats_iso F \<longleftrightarrow> (\<forall>x. valid_tm x \<longrightarrow> 1000 \<le> tm_year x \<longrightarrow> tm_year x \<le> 9999 \<longrightarrow>
     F timer_format x = dec_of_nat (nat (tm_year x)) @ ''-'' @ two_digits (tm_mon x) @ ''-'' @ two_digits (tm_mday x)
       @ ''T'' @ two_digits (tm_hour x) @ '':'' @ two_digits (tm_min x) @ '':'' @ two_digits (tm_sec x))"

definition timer_docID :: "(string \<Rightarrow> tm \<Rightarrow> string) \<Rightarrow> go_time \<Rightarrow> string" where
  "timer_docID F t = F timer_format (gmtime (unix_sec (NewISO8601 t)))"

section \<open>One tick\<close>

definition bucketGet :: "'s go_couchbase \<Rightarrow> 's \<Rightarrow> string \<Rightarrow> string \<Rightarrow> string" where
  "bucketGet G s bucket docID = (case GetsRaw G s bucket docID of Some value \<Rightarrow> value | None \<Rightarrow> [])"

fun delete_keys :: "'s go_couchbase \<Rightarrow> string \<Rightarrow> string list \<Rightarrow> 's \<Rightarrow> 's" where
  "delete_keys G bucket [] s = s"
| "delete_keys G bucket (k # ks) s = delete_keys G bucket ks (Delete G s bucket k)"

text \<open>
  The case of the select that sends: its operand, the fetch, is evaluated before the select waits, so the
  case of \<open>time.After\<close> is never the one that is ready first.
\<close>

definition processTimerEvent ::
  "('h, 'v, 's, 'r, 'm) libs \<Rightarrow> 's go_couchbase \<Rightarrow> (string \<Rightarrow> tm \<Rightarrow> string) \<Rightarrow> string \<Rightarrow> nat \<Rightarrow> go_time
     \<Rightarrow> ('h, 'v, 's, 'r, 'm) go_state \<Rightarrow> ('h, 'v, 's, 'r, 'm) go_state result" where
  "processTimerEvent L G F bucket handle now = (\<lambda>(b, x).
     let docID = timer_docID F now;
         value = bucketGet G (cluster x) bucket docID
     in res_bind (go_SendTimerCallback L handle value (b, x)) (\<lambda>(b1, x1).
          let s1 = Delete G (cluster x1) bucket docID;
              s2 = delete_keys G bucket (Split (CHR '';'') value) s1
          in Inr (b1, x1\<lparr>cluster := s2\<rparr>)))"

text \<open>A sequence of ticks.\<close>

fun timer_ticks ::
  "('h, 'v, 's, 'r, 'm) libs \<Rightarrow> 's go_couchbase \<Rightarrow> (string \<Rightarrow> tm \<Rightarrow> string) \<Rightarrow> string \<Rightarrow> nat \<Rightarrow> go_time list
     \<Rightarrow> ('h, 'v, 's, 'r, 'm) go_state \<Rightarrow> ('h, 'v, 's, 'r, 'm) go_state result" where
  "timer_ticks L G F bucket handle [] st = Inr st"
| "timer_ticks L G F bucket handle (t # ts) st =
     res_bind (processTimerEvent L G F bucket handle t st) (timer_ticks L G F bucket handle ts)"

section \<open>Lemmas\<close>

lemma NewISO8601_eq: "NewISO8601 t = \<lparr>unix_sec = unix_sec t - 2, nsec = 0\<rparr>"
  using gmtime_correct by (simp add: NewISO8601_def)

text \<open>The key a tick looks up is the one \<open>ConvertToISO8601\<close> makes for the instant two seconds before.\<close>

lemma timer_docID_iso:
  assumes "formats_iso F" "four_digit_time (unix_sec t - 2)"
  shows "timer_docID F t = iso_text (unix_sec t - 2)"
proof -
  let ?x = "gmtime (unix_sec t - 2)"
  have "1970 \<le> tm_year ?x" "tm_year ?x < 10000" "valid_tm ?x"
    using four_digit_year [OF assms(2)] gmtime_correct by auto
  then show ?thesis
    using assms(1) unfolding formats_iso_def timer_docID_def NewISO8601_eq iso_text_def strftime_FT_def dec_of_int_def
    by simp
qed

lemma kv_delete_keys:
  assumes "shares_cluster G L"
  shows "kv L (delete_keys G bucket ks s) = (kv L s)(bucket := (\<lambda>k. if k \<in> set ks then None else kv L s bucket k))"
  by (induction ks arbitrary: s) (auto simp: shares_clusterD [OF assms] fun_eq_iff)

text \<open>What the deletions of a tick leave of the timer table.\<close>

lemma refines_timers_purge:
  assumes rs: "refines_timers J L b rs s" and distinct: "distinct (map reg_doc rs)"
    and t: "four_digit_time t"
    and s': "\<forall>k. kv L s' b k = (if k = iso_text t \<or> k = [] \<or> k \<in> set (due_ids rs t) then None else kv L s b k)"
  shows "refines_timers J L b (filter (\<lambda>r. due r \<noteq> t) rs) s'"
proof -
  let ?rs = "filter (\<lambda>r. due r \<noteq> t) rs"
  have ok: "\<forall>r \<in> set rs. registration_ok r" using rs by (simp add: refines_timers_def)
  have id19: "length k \<noteq> 19" if "k \<in> set (due_ids rs u)" for k u
    using that ok by (auto simp: due_ids_def registration_ok_def)
  have marker: "kv L s' b (iso_text u) = (if due_ids ?rs u = [] then None else Some (join_keys (CHR '';'') (due_ids ?rs u)))"
    if u: "four_digit_time u" for u
  proof (cases "u = t")
    case True
    have "due_ids ?rs t = []" by (simp add: due_ids_def)
    then show ?thesis using s' True by simp
  next
    case False
    have "filter (\<lambda>r. due r = u) ?rs = filter (\<lambda>r. due r = u) rs" using False by (auto intro: filter_cong)
    then have "due_ids ?rs u = due_ids rs u" by (simp add: due_ids_def)
    moreover have "iso_text u \<noteq> iso_text t" using iso.enc_inject [OF u t] False by simp
    moreover have "iso_text u \<noteq> []" using length_iso_text [OF u] by auto
    moreover have "iso_text u \<notin> set (due_ids rs t)" using id19 length_iso_text [OF u] by blast
    ultimately show ?thesis using s' refines_timers_marker [OF rs u] by simp
  qed
  have doc: "\<exists>v. kv L s' b (reg_doc r) = Some v \<and> timer_blob J v (reg_callback r) (reg_doc r) (iso_text (due r))"
    if "r \<in> set ?rs" for r
  proof -
    have r: "r \<in> set rs" "due r \<noteq> t" using that by auto
    obtain pre post where sp: "rs = pre @ r # post" using r(1) by (meson split_list)
    then have "reg_doc r \<notin> reg_doc ` set post" using distinct by auto
    moreover have "reg_doc r \<notin> set (due_ids rs t)"
      using r distinct by (auto simp: due_ids_def distinct_map inj_on_def)
    moreover have "reg_doc r \<noteq> iso_text t" using ok r(1) not_iso_text [OF t] by (auto simp: registration_ok_def)
    moreover have "reg_doc r \<noteq> []" using ok r(1) by (auto simp: registration_ok_def key_ok_def)
    ultimately show ?thesis
      using refines_timers_doc [of J L b pre r post s] rs sp s' by auto
  qed
  have docs: "\<exists>v. kv L s' b (reg_doc r) = Some v \<and> timer_blob J v (reg_callback r) (reg_doc r) (iso_text (due r))"
    if "?rs = pre @ r # post" for r pre post
    by (rule doc) (simp only: that set_append list.set Un_iff insert_iff simp_thms)
  have "\<forall>r \<in> set ?rs. registration_ok r" using ok by simp
  then show ?thesis using marker docs unfolding refines_timers_def by blast
qed

text \<open>The marker of an instant in terms of the table, missing or not, and the delivery of it.\<close>

lemma bucketGet_marker:
  assumes "shares_cluster G L" "refines_timers J L bucket rs s" "four_digit_time t"
  shows "bucketGet G s bucket (iso_text t) = join_keys (CHR '';'') (due_ids rs t)"
  using refines_timers_marker [OF assms(2,3)] by (simp add: bucketGet_def shares_clusterD [OF assms(1)])

lemma due_ids_clean:
  "refines_timers J L bucket rs s \<Longrightarrow> k \<in> set (due_ids rs t) \<Longrightarrow> CHR '';'' \<notin> set k \<and> NUL \<notin> set k"
  by (auto simp: refines_timers_def registration_ok_def due_ids_def)

lemma join_keys_no_NUL: "\<forall>k \<in> set ks. NUL \<notin> set k \<Longrightarrow> NUL \<notin> set (join_keys (CHR '';'') ks)"
  by (auto simp: join_keys_def NUL_def)

lemma SendTimerCallback_marker:
  assumes table: "refines_timers (lib_json L) (lib_lcb L) (cb_instance w) rs (cluster x)" "distinct (map reg_doc rs)"
    and t: "four_digit_time t" and keeps: "\<forall>r \<in> set rs. due r = t \<longrightarrow> keeps_timers L (cb_instance w) rs r"
  shows "SendTimerCallback L (join_keys (CHR '';'') (due_ids rs t)) (w, x) =
    fire_all L (map (\<lambda>r. (reg_callback r, reg_doc r)) (filter (\<lambda>r. due r = t) rs)) (w, x)"
proof -
  let ?ts = "filter (\<lambda>r. due r = t) rs" and ?m = "join_keys (CHR '';'') (due_ids rs t)"
  have clean: "\<forall>k \<in> set (due_ids rs t). CHR '';'' \<notin> set k" "\<forall>k \<in> set (due_ids rs t). NUL \<notin> set k"
    using due_ids_clean [OF table(1)] by auto
  have "split (c_str ?m) (CHR '';'') = map reg_doc ?ts"
    using split_join_keys [OF clean(1)] join_keys_no_NUL [OF clean(2)] by (simp add: due_ids_def)
  moreover have "timer_loop L (map reg_doc ?ts) (w, x) = fire_all L (map (\<lambda>r. (reg_callback r, reg_doc r)) ?ts) (w, x)"
    using keeps by (intro timer_loop_fires [where rs = rs and cb = "cb_instance w"]) (use table in auto)
  ultimately show ?thesis by (cases ?ts) (simp_all add: SendTimerCallback_def)
qed

lemma go_SendTimerCallback_eq:
  assumes "p < length (go_workers b)" "cWorker (go_workers b ! p) = Alive w" "NUL \<notin> set k"
    and "SendTimerCallback L k (w, x) = Inr (w', x')"
  shows "go_SendTimerCallback L p k (b, x) = Inr (b\<lparr>go_workers := (go_workers b)[p := (go_workers b ! p)\<lparr>cWorker := Alive w'\<rparr>]\<rparr>, x')"
  using assms by (simp add: go_SendTimerCallback_def call_c_def api_exec_defs)

text \<open>A tick whose marker is handed over and whose callbacks return.\<close>

lemma processTimerEvent_eq:
  assumes G: "shares_cluster G (lib_lcb L)" and F: "formats_iso F"
    and t: "unix_sec now - 2 = t" "four_digit_time t"
    and p: "p < length (go_workers b)" "cWorker (go_workers b ! p) = Alive w"
    and clean: "\<forall>k \<in> set ks. CHR '';'' \<notin> set k \<and> NUL \<notin> set k"
    and marker: "bucketGet G (cluster x) bucket (iso_text t) = join_keys (CHR '';'') ks"
    and call: "SendTimerCallback L (join_keys (CHR '';'') ks) (w, x) = Inr (w', x')"
  shows "\<exists>s'. processTimerEvent L G F bucket p now (b, x) =
        Inr (b\<lparr>go_workers := (go_workers b)[p := (go_workers b ! p)\<lparr>cWorker := Alive w'\<rparr>]\<rparr>, x'\<lparr>cluster := s'\<rparr>)
    \<and> kv (lib_lcb L) s' = (kv (lib_lcb L) (cluster x'))(bucket := (\<lambda>k. if k = iso_text t \<or> k = [] \<or> k \<in> set ks then None
          else kv (lib_lcb L) (cluster x') bucket k))"
proof -
  let ?m = "join_keys (CHR '';'') ks" and ?s = "Delete G (cluster x') bucket (iso_text t)"
  have doc: "timer_docID F now = iso_text t" using timer_docID_iso [OF F, of now] t by simp
  have "NUL \<notin> set ?m" using clean join_keys_no_NUL by blast
  from go_SendTimerCallback_eq [OF p this call]
  have "processTimerEvent L G F bucket p now (b, x) =
      Inr (b\<lparr>go_workers := (go_workers b)[p := (go_workers b ! p)\<lparr>cWorker := Alive w'\<rparr>]\<rparr>,
           x'\<lparr>cluster := delete_keys G bucket (ks @ [[]]) ?s\<rparr>)"
    using Split_join_keys [of ks "CHR '';''"] clean by (simp add: processTimerEvent_def doc marker)
  moreover have "kv (lib_lcb L) (delete_keys G bucket (ks @ [[]]) ?s) =
      (kv (lib_lcb L) (cluster x'))(bucket := (\<lambda>k. if k = iso_text t \<or> k = [] \<or> k \<in> set ks then None
          else kv (lib_lcb L) (cluster x') bucket k))"
    by (auto simp: kv_delete_keys [OF G] shares_clusterD [OF G] fun_eq_iff)
  ultimately show ?thesis by blast
qed

lemma fire_all_keeps:
  assumes "fire_all L (map (\<lambda>r. (reg_callback r, reg_doc r)) ts) st = Inr st'" "\<forall>r \<in> set ts. keeps_timers L cb rs r"
    and "refines_timers (lib_json L) (lib_lcb L) cb rs (cluster (snd st))"
  shows "refines_timers (lib_json L) (lib_lcb L) cb rs (cluster (snd st'))"
  using assms
proof (induction ts arbitrary: st)
  case Nil
  then show ?case by simp
next
  case (Cons r ts)
  then obtain st1 where 1: "fire_timer L (reg_callback r) (reg_doc r) st = Inr st1"
    "fire_all L (map (\<lambda>r. (reg_callback r, reg_doc r)) ts) st1 = Inr st'"
    by (auto simp: res_bind_eq_Inr_iff)
  then have "refines_timers (lib_json L) (lib_lcb L) cb rs (cluster (snd st1))"
    using Cons.prems(2,3) unfolding keeps_timers_def by (meson list.set_intros(1))
  then show ?case using Cons.IH [OF 1(2)] Cons.prems(2) by simp
qed

lemma tick_refines:
  assumes cluster: "shares_cluster G (lib_lcb L)" "formats_iso F"
    and p: "p < length (go_workers b)" "cWorker (go_workers b ! p) = Alive w" "cb_instance w = bucket"
    and table: "refines_timers (lib_json L) (lib_lcb L) bucket rs (cluster x)" "distinct (map reg_doc rs)"
    and t: "unix_sec now - 2 = t" "four_digit_time t"
    and keeps: "\<forall>r \<in> set rs. due r = t \<longrightarrow> keeps_timers L bucket rs r"
    and fire: "fire_all L (map (\<lambda>r. (reg_callback r, reg_doc r)) (filter (\<lambda>r. due r = t) rs)) (w, x) = Inr (w', x')"
  shows "\<exists>s'. processTimerEvent L G F bucket p now (b, x) =
        Inr (b\<lparr>go_workers := (go_workers b)[p := (go_workers b ! p)\<lparr>cWorker := Alive w'\<rparr>]\<rparr>, x'\<lparr>cluster := s'\<rparr>)
    \<and> refines_timers (lib_json L) (lib_lcb L) bucket (filter (\<lambda>r. due r \<noteq> t) rs) s'
    \<and> kv (lib_lcb L) s' = (kv (lib_lcb L) (cluster x'))(bucket := (\<lambda>k. if k = iso_text t \<or> k = [] \<or> k \<in> set (due_ids rs t)
          then None else kv (lib_lcb L) (cluster x') bucket k))"
proof -
  have call: "SendTimerCallback L (join_keys (CHR '';'') (due_ids rs t)) (w, x) = Inr (w', x')"
    using SendTimerCallback_marker [of L w rs x t] table t(2) keeps fire p(3) by simp
  have "\<forall>k \<in> set (due_ids rs t). CHR '';'' \<notin> set k \<and> NUL \<notin> set k" using due_ids_clean [OF table(1)] by blast
  from processTimerEvent_eq [OF cluster t p(1,2) this bucketGet_marker [OF cluster(1) table(1) t(2)] call]
  obtain s' where s': "processTimerEvent L G F bucket p now (b, x) =
        Inr (b\<lparr>go_workers := (go_workers b)[p := (go_workers b ! p)\<lparr>cWorker := Alive w'\<rparr>]\<rparr>, x'\<lparr>cluster := s'\<rparr>)"
    and kv': "kv (lib_lcb L) s' = (kv (lib_lcb L) (cluster x'))(bucket := (\<lambda>k. if k = iso_text t \<or> k = [] \<or> k \<in> set (due_ids rs t)
          then None else kv (lib_lcb L) (cluster x') bucket k))" by blast
  have "refines_timers (lib_json L) (lib_lcb L) bucket rs (cluster x')"
    using fire_all_keeps [OF fire, of bucket rs] keeps table(1) by simp
  from refines_timers_purge [OF this table(2) t(2), of s'] kv'
  have "refines_timers (lib_json L) (lib_lcb L) bucket (filter (\<lambda>r. due r \<noteq> t) rs) s'" by simp
  then show ?thesis using s' kv' by blast
qed

section \<open>Properties\<close>

text \<open>
  C26. C++ and Go agree on the key of an instant: the text that \<open>ConvertToISO8601\<close> makes of a timer value
  is the key that the timer routine computes at a tick exactly if the tick comes two seconds after the
  instant of the timer, whatever the fraction of the second.
\<close>

theorem timer_key_agrees:
  assumes F: "formats_iso F" and ts: "atoi (c_str ts) = Inr v" "four_digit_time (timer_instant time0 v)"
    and now: "four_digit_time (unix_sec now - 2)"
  shows "ConvertToISO8601 time0 ts = Inr (timer_docID F now) \<longleftrightarrow> unix_sec now = timer_instant time0 v + 2"
proof -
  have "ConvertToISO8601 time0 ts = Inr (timer_docID F now) \<longleftrightarrow> iso_text (timer_instant time0 v) = iso_text (unix_sec now - 2)"
    by (simp add: ConvertToISO8601_eq [OF ts] timer_docID_iso [OF F now])
  also have "\<dots> \<longleftrightarrow> timer_instant time0 v = unix_sec now - 2" by (rule iso.enc_inject [OF ts(2) now])
  finally show ?thesis by auto
qed

text \<open>A formatter that prints the fields, for the witnesses.\<close>

definition ref_format :: "string \<Rightarrow> tm \<Rightarrow> string" where
  "ref_format f x = strftime_FT x"

lemma ref_format_iso [simp]: "formats_iso ref_format"
  by (simp add: formats_iso_def ref_format_def strftime_FT_def dec_of_int_def)

theorem timer_key_agrees_witness:
  "ConvertToISO8601 1000 ''60'' = Inr (timer_docID ref_format \<lparr>unix_sec = 1062, nsec = 5\<rparr>)"
proof -
  have "atoi (c_str ''60'') = Inr 60" by (simp add: c_eval)
  moreover have "timer_instant 1000 60 = 1060" by (simp add: timer_instant_def)
  moreover have "four_digit_time 1060" by (simp add: four_digit_time_def)
  ultimately show ?thesis
    using timer_key_agrees [OF ref_format_iso, of "''60''" 60 1000 "\<lparr>unix_sec = 1062, nsec = 5\<rparr>"] by simp
qed


lemma ref_keeps: "keeps_timers (ref_libs ends_quietly) cb rs r"
  unfolding keeps_timers_def using ref_fire by blast

definition ref_binding :: "(string, string) Worker \<Rightarrow> (string, string) go_binding" where
  "ref_binding w = go_binding_init\<lparr>go_workers := [\<lparr>cWorker = Alive w, tableIndex = 0, disposed = False\<rparr>]\<rparr>"

lemma ref_binding_simps [simp]:
  "length (go_workers (ref_binding w)) = 1" "cWorker (go_workers (ref_binding w) ! 0) = Alive w"
  "(ref_binding w)\<lparr>go_workers := (go_workers (ref_binding w))[0 := (go_workers (ref_binding w) ! 0)\<lparr>cWorker := Alive w'\<rparr>]\<rparr> = ref_binding w'"
  by (simp_all add: ref_binding_def)

lemma ref_fire_all: "fire_all (ref_libs ends_quietly) [(''expired'', d)] (w\<lparr>context_heap := ref_source\<rparr>, x) = Inr (w\<lparr>context_heap := ref_source\<rparr>, x)"
  using ref_functions [of "''expired''" ends_quietly]
  by (simp add: fire_timer_def call_function_def c_eval) (simp add: ref_engine_def ends_quietly_def)


section \<open>Ticks that are missed, ids that are shared\<close>

text \<open>Callbacks that return on a worker with a property, and keep the property.\<close>

definition callbacks_return :: "('h, 'v, 's, 'r, 'm) libs \<Rightarrow> (('h, 'v) Worker \<Rightarrow> bool) \<Rightarrow> registration list \<Rightarrow> bool" where
  "callbacks_return L I rs \<longleftrightarrow>
     (\<forall>r \<in> set rs. \<forall>w x. I w \<longrightarrow> (\<exists>w' x'. fire_timer L (reg_callback r) (reg_doc r) (w, x) = Inr (w', x') \<and> I w'))"

lemma callbacks_return_fire_all:
  "callbacks_return L I rs \<Longrightarrow> set ts \<subseteq> set rs \<Longrightarrow> I w \<Longrightarrow>
     \<exists>w' x'. fire_all L (map (\<lambda>r. (reg_callback r, reg_doc r)) ts) (w, x) = Inr (w', x') \<and> I w'"
proof (induction ts arbitrary: w x)
  case Nil
  then show ?case by simp
next
  case (Cons r ts)
  then obtain w1 x1 where "fire_timer L (reg_callback r) (reg_doc r) (w, x) = Inr (w1, x1)" "I w1"
    by (fastforce simp: callbacks_return_def)
  then show ?case using Cons.IH [of w1 x1] Cons.prems by simp
qed

lemma fire_all_frame: "fire_all L ts st = Inr st' \<Longrightarrow> host_frame st st'"
proof (induction ts arbitrary: st)
  case Nil
  then show ?case by simp
next
  case (Cons t ts)
  obtain cb d where t: "t = (cb, d)" by (cases t)
  with Cons.prems obtain st1 where 1: "fire_timer L cb d st = Inr st1" "fire_all L ts st1 = Inr st'"
    by (auto simp: res_bind_eq_Inr_iff)
  then show ?case using fire_timer_frame [OF 1(1)] Cons.IH [OF 1(2)] host_frame_trans by blast
qed

lemma ticks_refine:
  assumes libs: "shares_cluster G (lib_lcb L)" "formats_iso F"
    and ret: "callbacks_return L I all" and keeps: "\<forall>rs r. set rs \<subseteq> set all \<longrightarrow> r \<in> set rs \<longrightarrow> keeps_timers L bucket rs r"
    and nows: "\<forall>now \<in> set nows. four_digit_time (unix_sec now - 2)"
    and p: "p < length (go_workers b)" "cWorker (go_workers b ! p) = Alive w" "cb_instance w = bucket" "I w"
    and table: "refines_timers (lib_json L) (lib_lcb L) bucket rs (cluster x)" "distinct (map reg_doc rs)"
      "set rs \<subseteq> set all"
  shows "\<exists>b' x'. timer_ticks L G F bucket p nows (b, x) = Inr (b', x')
    \<and> refines_timers (lib_json L) (lib_lcb L) bucket (filter (\<lambda>r. due r + 2 \<notin> unix_sec ` set nows) rs) (cluster x')"
  using nows p table
proof (induction nows arbitrary: b w rs x)
  case Nil
  then show ?case by simp
next
  case (Cons now nows)
  let ?t = "unix_sec now - 2" and ?rs = "filter (\<lambda>r. due r \<noteq> unix_sec now - 2) rs"
  have "callbacks_return L I rs" using ret Cons.prems(8) by (auto simp: callbacks_return_def)
  then obtain w' x' where f: "fire_all L (map (\<lambda>r. (reg_callback r, reg_doc r)) (filter (\<lambda>r. due r = ?t) rs)) (w, x) = Inr (w', x')" "I w'"
    using callbacks_return_fire_all [of L I rs "filter (\<lambda>r. due r = ?t) rs" w x] Cons.prems(5) by auto
  have cb: "cb_instance w' = bucket" using host_frameD(6) [OF fire_all_frame [OF f(1)]] Cons.prems(4) by simp
  let ?b = "b\<lparr>go_workers := (go_workers b)[p := (go_workers b ! p)\<lparr>cWorker := Alive w'\<rparr>]\<rparr>"
  obtain s' where s': "processTimerEvent L G F bucket p now (b, x) = Inr (?b, x'\<lparr>cluster := s'\<rparr>)"
    "refines_timers (lib_json L) (lib_lcb L) bucket ?rs s'"
    using tick_refines [OF libs Cons.prems(2-4,6,7), of now ?t w' x'] Cons.prems(1,8) keeps f(1) by auto
  have "\<exists>b' x''. timer_ticks L G F bucket p nows (?b, x'\<lparr>cluster := s'\<rparr>) = Inr (b', x'')
      \<and> refines_timers (lib_json L) (lib_lcb L) bucket (filter (\<lambda>r. due r + 2 \<notin> unix_sec ` set nows) ?rs) (cluster x'')"
    using Cons.prems s'(2) f(2) cb by (intro Cons.IH [where w = w']) (auto simp: distinct_map_filter)
  moreover have "filter (\<lambda>r. due r + 2 \<notin> unix_sec ` set nows) ?rs = filter (\<lambda>r. due r + 2 \<notin> unix_sec ` set (now # nows)) rs"
    by (auto intro: filter_cong)
  ultimately show ?case using s'(1) by simp
qed

text \<open>
  Whatever the ticks are, exactly the timers whose instant lies two seconds before one of them are
  taken off the table: a timer of a second in which no tick falls, because the ticker dropped it while
  an earlier tick was being processed, stays in the table after every later tick and never fires.
\<close>

theorem missed_second:
  assumes libs: "shares_cluster G (lib_lcb L)" "formats_iso F"
    and ret: "callbacks_return L I rs" and keeps: "\<forall>rs' r. set rs' \<subseteq> set rs \<longrightarrow> r \<in> set rs' \<longrightarrow> keeps_timers L bucket rs' r"
    and nows: "\<forall>now \<in> set nows. four_digit_time (unix_sec now - 2)"
    and p: "p < length (go_workers b)" "cWorker (go_workers b ! p) = Alive w" "cb_instance w = bucket" "I w"
    and table: "refines_timers (lib_json L) (lib_lcb L) bucket rs (cluster x)" "distinct (map reg_doc rs)"
    and r: "r \<in> set rs"
  shows "\<exists>b' x'. timer_ticks L G F bucket p nows (b, x) = Inr (b', x')
    \<and> (reg_doc r \<in> set (timers_at (lib_lcb L) (cluster x') bucket (due r)) \<longleftrightarrow> due r + 2 \<notin> unix_sec ` set nows)"
proof -
  let ?rs = "filter (\<lambda>r. due r + 2 \<notin> unix_sec ` set nows) rs"
  obtain b' x' where run: "timer_ticks L G F bucket p nows (b, x) = Inr (b', x')"
    "refines_timers (lib_json L) (lib_lcb L) bucket ?rs (cluster x')"
    using ticks_refine [OF libs ret keeps nows p table] by auto
  have "four_digit_time (due r)" using table(1) r by (simp add: refines_timers_def registration_ok_def)
  from refines_timers_at [OF run(2) this] run(1) show ?thesis
    using r by (intro exI [of _ b'] exI [of _ x']) (auto simp: due_ids_def)
qed

theorem missed_second_witness:
  "\<exists>s b' x'. refines_timers (lib_json (ref_libs ends_quietly)) ref_lcb ''couchbase://localhost/eventing'' [ref_registration] s
    \<and> timer_ticks (ref_libs ends_quietly) ref_go_couchbase ref_format ''couchbase://localhost/eventing'' 0
        [\<lparr>unix_sec = 1061, nsec = 0\<rparr>, \<lparr>unix_sec = 1063, nsec = 0\<rparr>]
        (ref_binding (ref_worker\<lparr>context_heap := ref_source\<rparr>), ref_world\<lparr>cluster := s\<rparr>) = Inr (b', x')
    \<and> ''doc1'' \<in> set (timers_at ref_lcb (cluster x') ''couchbase://localhost/eventing'' 1060)"
proof -
  let ?L = "ref_libs ends_quietly" and ?w = "ref_worker\<lparr>context_heap := ref_source\<rparr>" and ?b = "''couchbase://localhost/eventing''"
  let ?nows = "[\<lparr>unix_sec = 1061, nsec = 0\<rparr>, \<lparr>unix_sec = 1063, nsec = 0\<rparr>] :: go_time list" and ?I = "\<lambda>w. context_heap w = ref_source"
  have "refines_timers (lib_json ?L) ref_lcb ?b [] ref_empty" by (rule refines_timers_empty) (simp add: ref_empty_def)
  then obtain s where s: "refines_timers (lib_json ?L) ref_lcb ?b [ref_registration] s"
    using register_refines [OF ref_lcb_reachable ref_libs_json ref_registration_ok(4,1)] by fastforce
  have f: "fire_timer ?L ''expired'' ''doc1'' (w, x) = Inr (w, x)" if "context_heap w = ref_source" for w x
  proof -
    have "w\<lparr>context_heap := ref_source\<rparr> = w" using that by (cases w) simp
    then show ?thesis using ref_fire_all [of "''doc1''" w x] by (cases "fire_timer ?L ''expired'' ''doc1'' (w, x)") simp_all
  qed
  have ret: "callbacks_return ?L ?I [ref_registration]"
    using f by (simp add: callbacks_return_def ref_registration_def)
  have nows: "\<forall>now \<in> set ?nows. four_digit_time (unix_sec now - 2)" by (simp add: four_digit_time_def)
  have libs: "shares_cluster ref_go_couchbase (lib_lcb ?L)" by simp
  have table: "refines_timers (lib_json ?L) (lib_lcb ?L) ?b [ref_registration] (cluster (ref_world\<lparr>cluster := s\<rparr>))" using s by simp
  have p: "0 < length (go_workers (ref_binding ?w))" "cb_instance ?w = ?b" "?I ?w" by (simp_all add: ref_worker_def)
  have d: "distinct (map reg_doc [ref_registration])" by simp
  have k: "\<forall>rs' r. set rs' \<subseteq> set [ref_registration] \<longrightarrow> r \<in> set rs' \<longrightarrow> keeps_timers ?L ?b rs' r" using ref_keeps by blast
  have r: "ref_registration \<in> set [ref_registration]" "reg_doc ref_registration = ''doc1''" by (simp_all add: ref_registration_def)
  obtain b' x' where "timer_ticks ?L ref_go_couchbase ref_format ?b 0 ?nows (ref_binding ?w, ref_world\<lparr>cluster := s\<rparr>) = Inr (b', x')"
    "''doc1'' \<in> set (timers_at (lib_lcb ?L) (cluster x') ?b (due ref_registration))"
    using missed_second [OF libs ref_format_iso ret k nows p(1) ref_binding_simps(2) p(2,3) table d r(1)]
    by (auto simp: r(2) ref_registration_ok(2))
  then show ?thesis using s unfolding ref_registration_ok(2) ref_libs_fields by blast
qed

lemma SendTimerCallback_one:
  assumes "CHR '';'' \<notin> set d" "NUL \<notin> set d"
  shows "SendTimerCallback L (join_keys (CHR '';'') [d]) st =
    res_bind (timer_key L d st) (\<lambda>r. Inr (case r of None \<Rightarrow> st | Some st' \<Rightarrow> st'))"
proof -
  have "split (c_str (join_keys (CHR '';'') [d])) (CHR '';'') = [d]"
    using split_join_keys [of "[d]" "CHR '';''"] join_keys_no_NUL [of "[d]"] assms by (simp del: join_keys_simps)
  then show ?thesis by (cases "timer_key L d st") (auto simp: SendTimerCallback_def simp del: join_keys_simps split: option.splits)
qed

text \<open>
  An id has one document, so two timers of one id for different instants get in each other's way: the
  tick of the first instant calls the callback of the later registration, and deletes the document;
  the tick of the second instant finds no document and calls nothing.
\<close>

theorem shared_id:
  assumes libs: "shares_cluster G (lib_lcb L)" "formats_iso F" "rj_parse (lib_json L) [] = None"
    and p: "p < length (go_workers b)" "cWorker (go_workers b ! p) = Alive w" "cb_instance w = bucket"
    and table: "refines_timers (lib_json L) (lib_lcb L) bucket [r1, r2] (cluster x)"
    and ids: "reg_doc r1 = reg_doc r2" "due r1 \<noteq> due r2"
    and keeps: "keeps_timers L bucket [r1, r2] r2"
    and fire: "fire_timer L (reg_callback r2) (reg_doc r2) (w, x) = Inr (w', x')"
    and now: "unix_sec now1 = due r1 + 2" "unix_sec now2 = due r2 + 2"
  shows "\<exists>b' s1 s2. processTimerEvent L G F bucket p now1 (b, x) = Inr (b', x'\<lparr>cluster := s1\<rparr>)
    \<and> cWorker (go_workers b' ! p) = Alive w'
    \<and> processTimerEvent L G F bucket p now2 (b', x'\<lparr>cluster := s1\<rparr>) = Inr (b', x'\<lparr>cluster := s2\<rparr>)"
proof -
  let ?K = "kv (lib_lcb L)" and ?d = "reg_doc r2"
  have ok: "registration_ok r1" "registration_ok r2" using table by (auto simp: refines_timers_def)
  then have t: "four_digit_time (due r1)" "four_digit_time (due r2)"
    and clean: "\<forall>k \<in> set [?d]. CHR '';'' \<notin> set k \<and> NUL \<notin> set k"
    by (simp_all add: registration_ok_def)
  note one = SendTimerCallback_one [of ?d L]
  have d: "due_ids [r1, r2] (due r1) = [?d]" "due_ids [r1, r2] (due r2) = [?d]" using ids by (simp_all add: due_ids_def)
  obtain v where v: "?K (cluster x) bucket ?d = Some v" "timer_blob (lib_json L) v (reg_callback r2) ?d (iso_text (due r2))"
    using refines_timers_doc [of "lib_json L" "lib_lcb L" bucket "[r1]" r2 "[]"] table by auto
  have "timer_key L ?d (w, x) = Inr (Some (w', x'))"
    using timer_key_doc [OF v(1) [folded p(3)] v(2)] fire by simp
  then have call: "SendTimerCallback L (join_keys (CHR '';'') [?d]) (w, x) = Inr (w', x')"
    using one clean by (simp del: join_keys_simps)
  have m1: "bucketGet G (cluster x) bucket (iso_text (due r1)) = join_keys (CHR '';'') [?d]"
    using bucketGet_marker [OF libs(1) table t(1)] d(1) by simp
  let ?b = "b\<lparr>go_workers := (go_workers b)[p := (go_workers b ! p)\<lparr>cWorker := Alive w'\<rparr>]\<rparr>"
  obtain s1 where s1: "processTimerEvent L G F bucket p now1 (b, x) = Inr (?b, x'\<lparr>cluster := s1\<rparr>)"
    "?K s1 = (?K (cluster x'))(bucket := (\<lambda>k. if k = iso_text (due r1) \<or> k = [] \<or> k \<in> set [?d] then None else ?K (cluster x') bucket k))"
    using processTimerEvent_eq [OF libs(1,2) _ t(1) p(1,2) clean m1 call, of now1] now(1) by auto
  have "refines_timers (lib_json L) (lib_lcb L) bucket [r1, r2] (cluster x')"
    using keeps table fire unfolding keeps_timers_def by (metis snd_conv)
  then have "?K (cluster x') bucket (iso_text (due r2)) = Some (join_keys (CHR '';'') [?d])"
    using refines_timers_marker t(2) d(2) by fastforce
  moreover have "iso_text (due r2) \<noteq> iso_text (due r1)" using iso.enc_inject [OF t(2,1)] ids(2) by simp
  moreover have "iso_text (due r2) \<noteq> []" "iso_text (due r2) \<noteq> ?d"
    using length_iso_text [OF t(2)] ok(2) by (auto simp: registration_ok_def)
  ultimately have m2: "bucketGet G (cluster (x'\<lparr>cluster := s1\<rparr>)) bucket (iso_text (due r2)) = join_keys (CHR '';'') [?d]"
    by (simp add: bucketGet_def shares_clusterD [OF libs(1)] s1(2))
  have p': "p < length (go_workers ?b)" "cWorker (go_workers ?b ! p) = Alive w'" using p(1) by simp_all
  have cb: "cb_instance w' = bucket" using host_frameD(6) [OF fire_timer_frame [OF fire]] p(3) by simp
  have "timer_key L ?d (w', x'\<lparr>cluster := s1\<rparr>) = Inr None"
    using libs(3) by (simp add: timer_key_def cb s1(2) worker_get_kv)
  then have call2: "SendTimerCallback L (join_keys (CHR '';'') [?d]) (w', x'\<lparr>cluster := s1\<rparr>) = Inr (w', x'\<lparr>cluster := s1\<rparr>)"
    using one clean by (simp del: join_keys_simps)
  have "?b\<lparr>go_workers := (go_workers ?b)[p := (go_workers ?b ! p)\<lparr>cWorker := Alive w'\<rparr>]\<rparr> = ?b" using p(1) by simp
  then obtain s2 where "processTimerEvent L G F bucket p now2 (?b, x'\<lparr>cluster := s1\<rparr>) = Inr (?b, x'\<lparr>cluster := s2\<rparr>)"
    using processTimerEvent_eq [OF libs(1,2) _ t(2) p' clean m2 call2, of now2] now(2) by auto
  then show ?thesis using s1(1) p'(2) by blast
qed

theorem shared_id_witness:
  "\<exists>s b' s1 s2. refines_timers (lib_json (ref_libs ends_quietly)) ref_lcb ''couchbase://localhost/eventing''
      [ref_registration, ref_registration\<lparr>reg_value := 100\<rparr>] s
    \<and> processTimerEvent (ref_libs ends_quietly) ref_go_couchbase ref_format ''couchbase://localhost/eventing'' 0 \<lparr>unix_sec = 1062, nsec = 0\<rparr>
        (ref_binding (ref_worker\<lparr>context_heap := ref_source\<rparr>), ref_world\<lparr>cluster := s\<rparr>) = Inr (b', ref_world\<lparr>cluster := s1\<rparr>)
    \<and> processTimerEvent (ref_libs ends_quietly) ref_go_couchbase ref_format ''couchbase://localhost/eventing'' 0 \<lparr>unix_sec = 1102, nsec = 0\<rparr>
        (b', ref_world\<lparr>cluster := s1\<rparr>) = Inr (b', ref_world\<lparr>cluster := s2\<rparr>)"
proof -
  let ?L = "ref_libs ends_quietly" and ?w = "ref_worker\<lparr>context_heap := ref_source\<rparr>" and ?b = "''couchbase://localhost/eventing''"
  let ?r2 = "ref_registration\<lparr>reg_value := 100\<rparr>"
  let ?n1 = "\<lparr>unix_sec = 1062, nsec = 0\<rparr> :: go_time" and ?n2 = "\<lparr>unix_sec = 1102, nsec = 0\<rparr> :: go_time"
  have r2: "registration_ok ?r2" "due ?r2 = 1100" "reg_doc ?r2 = ''doc1''" "reg_callback ?r2 = ''expired''"
    by (simp_all add: registration_ok_def key_ok_def ref_registration_def due_def documented_instant_def thirty_days_def four_digit_time_def NUL_def)
  have tx: "registration_texts ref_v8 ?r2" by (simp add: registration_texts_def)
  have "refines_timers (lib_json ?L) ref_lcb ?b [] ref_empty" by (rule refines_timers_empty) (simp add: ref_empty_def)
  then obtain s where s: "refines_timers (lib_json ?L) ref_lcb ?b [ref_registration, ?r2] s"
    using register_all_refines [OF ref_lcb_reachable ref_libs_json, of "[ref_registration, ?r2]" ref_v8] ref_registration_ok(1,4) r2(1) tx
    by fastforce
  let ?x = "ref_world\<lparr>cluster := s\<rparr>"
  have libs: "shares_cluster ref_go_couchbase (lib_lcb ?L)" "rj_parse (lib_json ?L) [] = None"
    by (simp_all add: ref_libs_def ref_json_def parse_object_def)
  have p: "0 < length (go_workers (ref_binding ?w))" "cb_instance ?w = ?b" by (simp_all add: ref_worker_def)
  have table: "refines_timers (lib_json ?L) (lib_lcb ?L) ?b [ref_registration, ?r2] (cluster ?x)" using s by simp
  have ids: "reg_doc ref_registration = reg_doc ?r2" "due ref_registration \<noteq> due ?r2"
    by (simp_all add: r2(2) ref_registration_ok(2))
  have fire: "fire_timer ?L (reg_callback ?r2) (reg_doc ?r2) (?w, ?x) = Inr (?w, ?x)"
    using ref_fire_all [of "''doc1''" ref_worker ?x] unfolding r2(3,4)
    by (cases "fire_timer ?L ''expired'' ''doc1'' (?w, ?x)") simp_all
  have now: "unix_sec ?n1 = due ref_registration + 2" "unix_sec ?n2 = due ?r2 + 2" by (simp_all add: r2(2) ref_registration_ok(2))
  obtain b' s1 s2 where "processTimerEvent ?L ref_go_couchbase ref_format ?b 0 ?n1 (ref_binding ?w, ?x) = Inr (b', ?x\<lparr>cluster := s1\<rparr>)"
    "processTimerEvent ?L ref_go_couchbase ref_format ?b 0 ?n2 (b', ?x\<lparr>cluster := s1\<rparr>) = Inr (b', ?x\<lparr>cluster := s2\<rparr>)"
    using shared_id [OF libs(1) ref_format_iso libs(2) p(1) ref_binding_simps(2) p(2) table ids ref_keeps fire now] by blast
  then show ?thesis using s by (intro exI [of _ s] exI [of _ b'] exI [of _ s1] exI [of _ s2]) simp
qed

end
