(* ===== verification/LocalTcp.thy ===== *)
theory LocalTcp
  imports Text
begin

text \<open>
  The local TCP link between the service and its helper process: the client src/tcp/local_tcp_client.c,
  and the server of src/go_eventing/local_tcp_server.go with the same \<open>DoWork\<close> as src/tcp/main.go. The
  lemmas show on which input the client's output is defined, that the server answers every line and
  ends, what it drops, and how ports are handed out.
\<close>

section \<open>The client\<close>

text \<open>
  What the client asks of the system. \<open>os_getaddrinfo\<close> gives zero or an error code; \<open>os_read\<close> gives the
  bytes of one read, \<open>None\<close> for \<open>-1\<close>. The bytes of the buffer that the read did not set are
  indeterminate.
\<close>

record os =
  os_malloc :: "nat \<Rightarrow> bool"
  os_getaddrinfo :: "string \<Rightarrow> string \<Rightarrow> int"
  os_gai_strerror :: "int \<Rightarrow> string"
  os_socket :: bool
  os_connect :: bool
  os_read :: "nat \<Rightarrow> string option"
  os_strerror :: string

definition client_buf_size :: nat where
  "client_buf_size = 1000"

text \<open>\<open>printf("%s", buf)\<close> on a buffer whose first bytes were read.\<close>

definition print_buffer :: "nat \<Rightarrow> string \<Rightarrow> string result" where
  "print_buffer n bytes =
     (if NUL \<in> set bytes then Inr (c_str bytes)
      else if length bytes < n then Inl Uninitialised_read
      else Inl Buffer_overrun)"

text \<open>\<open>main\<close>: the exit code, the standard output and the standard error.\<close>

definition client_main :: "os \<Rightarrow> string list \<Rightarrow> (int \<times> string \<times> string) result" where
  "client_main S argv =
     (if length argv \<noteq> 2 then Inr (1, ''usage: local_tcp_client server_port'' @ newline, [])
      else if \<not> os_malloc S client_buf_size then Inr (1, [], ''malloc: '' @ os_strerror S @ newline)
      else let ret = os_getaddrinfo S ''127.0.0.1'' (argv ! 1)
           in if ret \<noteq> 0 then Inr (1, [], ''getaddrinfo: '' @ os_gai_strerror S ret @ newline)
              else if \<not> os_socket S then Inr (1, [], ''socket creation failed'' @ newline)
              else if \<not> os_connect S then Inr (1, [], ''connect failed'' @ newline)
              else case os_read S client_buf_size of
                     None \<Rightarrow> Inr (1, [], ''read finished/failed'' @ newline)
                   | Some bytes \<Rightarrow>
                       res_bind (print_buffer client_buf_size bytes) (\<lambda>t. Inr (0, ''read: '' @ t @ newline, [])))"

text \<open>
  The client returns one and prints a message where an argument, the memory or a step of the
  connection is missing; where everything works it prints the bytes up to the first NUL and returns
  zero, if the peer sent one in the first 1000 bytes, and otherwise prints memory that was never set or
  runs past its buffer.
\<close>

theorem client_main_correct:
  assumes "\<forall>n bytes. os_read S n = Some bytes \<longrightarrow> length bytes \<le> n"
  shows "(client_main S argv = Inr (0, out, err) \<longleftrightarrow>
      length argv = 2 \<and> os_malloc S 1000 \<and> os_getaddrinfo S ''127.0.0.1'' (argv ! 1) = 0 \<and> os_socket S \<and> os_connect S
      \<and> err = [] \<and> (\<exists>bytes rest. os_read S 1000 = Some (bytes @ NUL # rest) \<and> NUL \<notin> set bytes \<and> out = ''read: '' @ bytes @ newline))
    \<and> (\<forall>c. client_main S argv = Inr (c, out, err) \<longrightarrow> c = 0 \<or> c = 1 \<and> (out = [] \<or> length argv \<noteq> 2))
    \<and> (\<forall>f. client_main S argv = Inl f \<longrightarrow>
         (\<exists>bytes. os_read S 1000 = Some bytes \<and> NUL \<notin> set bytes
            \<and> f = (if length bytes = 1000 then Buffer_overrun else Uninitialised_read)))"
proof -
  have cut: "NUL \<in> set s \<and> t = c_str s \<longleftrightarrow> (\<exists>rest. s = t @ NUL # rest \<and> NUL \<notin> set t)" for s t
  proof
    assume "NUL \<in> set s \<and> t = c_str s"
    then obtain u v where uv: "s = u @ NUL # v" "NUL \<notin> set u" by (meson split_list_first)
    then have "c_str s = u" using c_str_append [of u "NUL # v"] by (simp add: c_str_def)
    then show "\<exists>rest. s = t @ NUL # rest \<and> NUL \<notin> set t" using uv \<open>NUL \<in> set s \<and> t = c_str s\<close> by auto
  next
    assume "\<exists>rest. s = t @ NUL # rest \<and> NUL \<notin> set t"
    then obtain r where r: "s = t @ NUL # r" "NUL \<notin> set t" by blast
    then show "NUL \<in> set s \<and> t = c_str s" using c_str_append [of t "NUL # r"] by (simp add: c_str_def)
  qed
  have ok: "client_main S argv = Inr (0, out, err) \<longleftrightarrow>
      length argv = 2 \<and> os_malloc S 1000 \<and> os_getaddrinfo S ''127.0.0.1'' (argv ! 1) = 0 \<and> os_socket S \<and> os_connect S
      \<and> err = [] \<and> (\<exists>s. os_read S 1000 = Some s \<and> NUL \<in> set s \<and> out = ''read: '' @ c_str s @ newline)"
    by (auto simp: client_main_def client_buf_size_def Let_def print_buffer_def res_bind_eq_Inr_iff split: if_splits option.splits)
  also have "(\<exists>s. os_read S 1000 = Some s \<and> NUL \<in> set s \<and> out = ''read: '' @ c_str s @ newline) \<longleftrightarrow>
      (\<exists>bytes rest. os_read S 1000 = Some (bytes @ NUL # rest) \<and> NUL \<notin> set bytes \<and> out = ''read: '' @ bytes @ newline)"
    using cut by metis
  finally have 1: "client_main S argv = Inr (0, out, err) \<longleftrightarrow>
      length argv = 2 \<and> os_malloc S 1000 \<and> os_getaddrinfo S ''127.0.0.1'' (argv ! 1) = 0 \<and> os_socket S \<and> os_connect S
      \<and> err = [] \<and> (\<exists>bytes rest. os_read S 1000 = Some (bytes @ NUL # rest) \<and> NUL \<notin> set bytes \<and> out = ''read: '' @ bytes @ newline)" .
  have 2: "\<forall>c. client_main S argv = Inr (c, out, err) \<longrightarrow> c = 0 \<or> c = 1 \<and> (out = [] \<or> length argv \<noteq> 2)"
    by (auto simp: client_main_def client_buf_size_def Let_def print_buffer_def res_bind_eq_Inr_iff split: if_splits option.splits)
  have 3: "\<forall>f. client_main S argv = Inl f \<longrightarrow>
         (\<exists>bytes. os_read S 1000 = Some bytes \<and> NUL \<notin> set bytes
            \<and> f = (if length bytes = 1000 then Buffer_overrun else Uninitialised_read))"
  proof (intro allI impI)
    fix f assume "client_main S argv = Inl f"
    then obtain bytes where b: "os_read S 1000 = Some bytes" "print_buffer 1000 bytes = Inl f"
      by (auto simp: client_main_def client_buf_size_def Let_def res_bind_eq_Inl_iff split: if_splits option.splits)
    moreover have "length bytes \<le> 1000" using assms b(1) by blast
    ultimately show "\<exists>bytes. os_read S 1000 = Some bytes \<and> NUL \<notin> set bytes
        \<and> f = (if length bytes = 1000 then Buffer_overrun else Uninitialised_read)"
      by (intro exI [of _ bytes]) (auto simp: print_buffer_def split: if_splits)
  qed
  show ?thesis using 1 2 3 by blast
qed

definition ref_os :: "string \<Rightarrow> os" where
  "ref_os bytes = \<lparr>os_malloc = (\<lambda>n. True), os_getaddrinfo = (\<lambda>h p. 0), os_gai_strerror = (\<lambda>e. []), os_socket = True, os_connect = True,
     os_read = (\<lambda>n. Some (take n bytes)), os_strerror = []\<rparr>"

theorem client_main_correct_witness:
  "client_main (ref_os (''HI'' @ [NUL])) [''client'', ''6065''] = Inr (0, ''read: HI'' @ newline, [])"
proof -
  have r: "\<forall>n bytes. os_read (ref_os (''HI'' @ [NUL])) n = Some bytes \<longrightarrow> length bytes \<le> n" by (simp add: ref_os_def)
  have "os_read (ref_os (''HI'' @ [NUL])) 1000 = Some (''HI'' @ NUL # [])" by (simp add: ref_os_def)
  moreover have "NUL \<notin> set ''HI''" by (simp add: NUL_def)
  ultimately show ?thesis
    using client_main_correct [OF r, of "[''client'', ''6065'']" "''read: HI'' @ newline" "[]"] by (auto simp: ref_os_def)
qed

section \<open>The server\<close>

text \<open>
  A connection as the server reads it: the chunks that its reads return, and then the end of the
  stream. \<open>bufio.NewReader(w.conn).ReadString('\n')\<close> makes a new reader for every call, so the rest of the
  chunk in which the newline was found is lost with it. At the end of the stream \<open>ReadString\<close> returns
  what it has, and its error is ignored.
\<close>

definition LF :: char where
  "LF = CHR 0x0A"

fun ReadString :: "string list \<Rightarrow> string \<times> string list" where
  "ReadString [] = ([], [])"
| "ReadString (c # cs) =
     (if LF \<in> set c then (takeWhile (\<lambda>x. x \<noteq> LF) c @ [LF], cs)
      else let (m, cs') = ReadString cs in (c @ m, cs'))"

lemma ReadString_shorter: "cs \<noteq> [] \<Longrightarrow> length (snd (ReadString cs)) < length cs"
proof (induction cs)
  case Nil
  then show ?case by simp
next
  case (Cons c cs)
  show ?case
  proof (cases cs)
    case Nil
    then show ?thesis by simp
  next
    case (Cons d ds)
    with Cons.IH show ?thesis by (auto split: prod.splits)
  qed
qed

text \<open>\<open>DoWork\<close>: the messages written until the connection is closed. \<open>upper\<close> is \<open>strings.ToUpper\<close>.\<close>

function DoWork_loop :: "(string \<Rightarrow> string) \<Rightarrow> string \<Rightarrow> string list \<Rightarrow> string list \<Rightarrow> string list" where
  "DoWork_loop upper m cs out =
     (if m = [] then out
      else DoWork_loop upper (fst (ReadString cs)) (snd (ReadString cs)) (out @ [upper m]))"
  by pat_completeness auto
termination
proof (relation "measure (\<lambda>(upper, m, cs, out). 2 * length cs + (if m = [] then 0 else 1))")
  fix upper :: "string \<Rightarrow> string" and m :: string and cs out :: "string list"
  assume "m \<noteq> []"
  then show "((upper, fst (ReadString cs), snd (ReadString cs), out @ [upper m]), upper, m, cs, out)
      \<in> measure (\<lambda>(upper, m, cs, out). 2 * length cs + (if m = [] then 0 else 1))"
    using ReadString_shorter [of cs] by (cases "cs = []") auto
qed simp

declare DoWork_loop.simps [simp del]

definition DoWork :: "(string \<Rightarrow> string) \<Rightarrow> string list \<Rightarrow> string list" where
  "DoWork upper cs = DoWork_loop upper ''hello from server'' cs []"

text \<open>On the letters of ASCII \<open>strings.ToUpper\<close> clears bit 5.\<close>

definition ascii_upper :: "char \<Rightarrow> char" where
  "ascii_upper c = (if CHR ''a'' \<le> c \<and> c \<le> CHR ''z'' then char_of (of_char c - (32::nat)) else c)"

definition uppers_ascii :: "(string \<Rightarrow> string) \<Rightarrow> bool" where
  "uppers_ascii upper \<longleftrightarrow> (\<forall>s. (\<forall>c \<in> set s. of_char c < (128::nat)) \<longrightarrow> upper s = map ascii_upper s)"

text \<open>A chunk that is one whole line.\<close>

definition whole_line :: "string \<Rightarrow> bool" where
  "whole_line c \<longleftrightarrow> (\<exists>l. c = l @ [LF] \<and> LF \<notin> set l)"

lemma ReadString_line: "LF \<notin> set l \<Longrightarrow> ReadString ((l @ LF # rest) # cs) = (l @ [LF], cs)"
  by (induction l) (auto simp: takeWhile_tail)

lemma DoWork_loop_lines:
  "\<forall>c \<in> set cs. whole_line c \<Longrightarrow> m \<noteq> [] \<Longrightarrow> DoWork_loop upper m cs out = out @ map upper (m # cs)"
proof (induction cs arbitrary: m out)
  case Nil
  then show ?case by (simp add: DoWork_loop.simps [of _ m] DoWork_loop.simps [of _ "[]"])
next
  case (Cons c cs)
  obtain l where l: "c = l @ [LF]" "LF \<notin> set l" using Cons.prems(1) by (auto simp: whole_line_def)
  then have "ReadString (c # cs) = (c, cs)" using ReadString_line [of l "[]" cs] by simp
  then have "DoWork_loop upper m (c # cs) out = DoWork_loop upper c cs (out @ [upper m])"
    using Cons.prems(2) by (simp add: DoWork_loop.simps [of _ m])
  then show ?case using Cons.IH [of c "out @ [upper m]"] Cons.prems(1) l(1) by simp
qed

text \<open>
  The server ends on every finite input: it greets, answers each line that arrives on its own with
  the line in capitals, in order, and closes; but of two lines that arrive in one read it answers only
  the first.
\<close>

theorem DoWork_lines:
  assumes upper: "uppers_ascii upper" and cs: "\<forall>c \<in> set cs. whole_line c"
    and l: "LF \<notin> set l" and rest: "rest \<noteq> []"
  shows "DoWork upper cs = ''HELLO FROM SERVER'' # map upper cs
    \<and> DoWork upper ((l @ LF # rest) # cs) = ''HELLO FROM SERVER'' # upper (l @ [LF]) # map upper cs"
proof -
  let ?m = "''hello from server''"
  have "\<forall>c \<in> set ?m. of_char c < (128::nat)" by simp
  moreover have "map ascii_upper ?m = ''HELLO FROM SERVER''" by code_simp
  ultimately have u: "upper ?m = ''HELLO FROM SERVER''" using upper unfolding uppers_ascii_def by metis
  have "DoWork_loop upper ?m ((l @ LF # rest) # cs) [] = DoWork_loop upper (l @ [LF]) cs [upper ?m]"
    using ReadString_line [OF l, of rest cs] by (simp add: DoWork_loop.simps [of _ ?m])
  then show ?thesis using DoWork_loop_lines [OF cs] u by (simp add: DoWork_def)
qed

theorem DoWork_lines_witness:
  "DoWork (map ascii_upper) [''ab'' @ [LF] @ ''cd'' @ [LF], ''ef'' @ [LF]]
     = [''HELLO FROM SERVER'', ''AB'' @ [LF], ''EF'' @ [LF]]"
proof -
  have "uppers_ascii (map ascii_upper)" by (simp add: uppers_ascii_def)
  moreover have "\<forall>c \<in> set [''ef'' @ [LF]]. whole_line c" by (simp add: whole_line_def LF_def)
  moreover have "LF \<notin> set ''ab''" "''cd'' @ [LF] \<noteq> []" by (simp_all add: LF_def)
  moreover have "map ascii_upper (''ab'' @ [LF]) = ''AB'' @ [LF]" "map ascii_upper (''ef'' @ [LF]) = ''EF'' @ [LF]" by code_simp+
  ultimately show ?thesis
    using DoWork_lines [of "map ascii_upper" "[''ef'' @ [LF]]" "''ab''" "''cd'' @ [LF]"] by simp
qed

text \<open>The greeting carries no NUL, so the client that reads it prints memory that was never set.\<close>

lemma greeting_unterminated:
  assumes "length argv = 2" "os_malloc S 1000" "os_getaddrinfo S ''127.0.0.1'' (argv ! 1) = 0" "os_socket S" "os_connect S"
    and "os_read S 1000 = Some ''HELLO FROM SERVER''"
  shows "client_main S argv = Inl Uninitialised_read"
  using assms by (simp add: client_main_def client_buf_size_def print_buffer_def NUL_def)

section \<open>Ports\<close>

text \<open>
  \<open>appLocalPortMapping\<close> and the search of \<open>setUpLocalTcpServer\<close>: a loop over the ports of the map, in
  the order in which Go happens to visit them. A port that cannot be listened on ends the process.
\<close>

definition initTcpPort :: int where
  "initTcpPort = 6065"

fun port_loop :: "int list \<Rightarrow> int \<Rightarrow> int" where
  "port_loop [] nextAvailablePort = nextAvailablePort"
| "port_loop (port # ports) nextAvailablePort =
     port_loop ports (if nextAvailablePort \<le> port then port + 1 else nextAvailablePort)"

definition setUpLocalTcpServer ::
  "(int \<Rightarrow> bool) \<Rightarrow> int list \<Rightarrow> string \<Rightarrow> (int \<rightharpoonup> string) \<Rightarrow> (int \<times> (int \<rightharpoonup> string)) result" where
  "setUpLocalTcpServer can_listen order appName mapping =
     (let port = (if 0 < card (dom mapping) then port_loop order initTcpPort else initTcpPort)
      in res_bind (guard (can_listen port) (Exit 1)) (\<lambda>_. Inr (port, mapping(port \<mapsto> appName))))"

text \<open>The result of the search as a maximum.\<close>

definition next_port :: "int set \<Rightarrow> int" where
  "next_port ports = Max (insert initTcpPort ((\<lambda>p. p + 1) ` ports))"

lemma port_loop_Max: "port_loop ports n = Max (insert n ((\<lambda>p. p + 1) ` set ports))"
proof (induction ports arbitrary: n)
  case Nil
  then show ?case by simp
next
  case (Cons p ports)
  let ?A = "(\<lambda>p. p + 1) ` set ports"
  have "Max (insert n (insert (p + 1) ?A)) = max (max n (p + 1)) (Max (insert n ?A))"
    by (cases "?A = {}") (simp_all add: max.commute max.left_commute)
  moreover have "Max (insert (max n (p + 1)) ?A) = max (max n (p + 1)) (Max (insert n ?A))"
    by (cases "?A = {}") (simp_all add: max.commute max.left_commute)
  moreover have "(if n \<le> p then p + 1 else n) = max n (p + 1)" by (auto simp: max_def)
  ultimately show ?case using Cons.IH by simp
qed

text \<open>
  Whatever the order in which the map is visited, the port that is handed out is the same: one more
  than the greatest in use, and at least 6065. It is not in use yet, so no application loses its entry;
  since no entry is ever removed, the application set up after n others gets the port 6065 + n.
\<close>

theorem setUpLocalTcpServer_port:
  assumes order: "set order = dom mapping" and listen: "can_listen (next_port (dom mapping))"
  shows "setUpLocalTcpServer can_listen order appName mapping =
      Inr (next_port (dom mapping), mapping(next_port (dom mapping) \<mapsto> appName))
    \<and> next_port (dom mapping) \<notin> dom mapping \<and> 6065 \<le> next_port (dom mapping)
    \<and> (dom mapping = {6065 ..< 6065 + int n} \<longrightarrow> next_port (dom mapping) = 6065 + int n)"
proof -
  have fin: "finite (dom mapping)" using order by (metis List.finite_set)
  have "(if 0 < card (dom mapping) then port_loop order initTcpPort else initTcpPort) = next_port (dom mapping)"
    using fin order by (auto simp: port_loop_Max next_port_def card_gt_0_iff)
  moreover have "p < next_port (dom mapping)" if "p \<in> dom mapping" for p
  proof -
    have "p + 1 \<le> next_port (dom mapping)" unfolding next_port_def using fin that by (intro Max_ge) auto
    then show ?thesis by simp
  qed
  moreover have "6065 \<le> next_port (dom mapping)" using fin by (simp add: next_port_def initTcpPort_def)
  moreover have "next_port {6065 ..< 6065 + int n} = 6065 + int n"
  proof (rule antisym)
    show "next_port {6065 ..< 6065 + int n} \<le> 6065 + int n" by (auto simp: next_port_def initTcpPort_def)
    show "6065 + int n \<le> next_port {6065 ..< 6065 + int n}"
      unfolding next_port_def initTcpPort_def
      by (rule Max_ge) (auto intro: rev_image_eqI [of "6065 + int n - 1"])
  qed
  ultimately show ?thesis using listen by (auto simp: setUpLocalTcpServer_def Let_def)
qed

theorem setUpLocalTcpServer_port_witness:
  "setUpLocalTcpServer (\<lambda>p. p < 65536) [6066, 6065] ''app3'' [6065 \<mapsto> ''app1'', 6066 \<mapsto> ''app2'']
     = Inr (6067, [6065 \<mapsto> ''app1'', 6066 \<mapsto> ''app2'', 6067 \<mapsto> ''app3''])"
proof -
  let ?m = "[6065 \<mapsto> ''app1'', 6066 \<mapsto> ''app2''] :: int \<rightharpoonup> string"
  have d: "set [6066, 6065] = dom ?m" "dom ?m = {6065 ..< 6065 + int 2}" by auto
  have n: "next_port (dom ?m) = 6067" by (simp add: next_port_def initTcpPort_def)
  then show ?thesis using setUpLocalTcpServer_port [OF d(1), of "\<lambda>p. p < 65536" "''app3''" 2] by simp
qed

end
