(* ===== verification/MailServer.thy ===== *)
theory MailServer
  imports Mail GoLib
begin

text \<open>
  The mail service that \<open>PostMail\<close> of worker.cc posts to: \<open>setUpMailServer\<close> and \<open>getMailSettings\<close> of
  src/go_eventing/mail_handler.go, \<open>sendMail\<close> and \<open>processMails\<close> of src/go_eventing/http_handlers.go. The
  lemmas follow a mail from the handler's call to the channel of its application, and show which texts
  arrive, which are torn apart, and when the call never returns.
\<close>

section \<open>State\<close>

record smtpFields =
  To :: string
  Subject :: string
  Body :: string

text \<open>
  The channels by application, each as the list of the messages in it, with room for 10000, and the
  settings by application: server, port, sender and password.
\<close>

type_synonym mail_channels = "string \<rightharpoonup> smtpFields list"

record mail_settings =
  smtpServer :: string
  smtpPort :: string
  senderMailID :: string
  mailPassword :: string

definition mail_channel_size :: nat where
  "mail_channel_size = 10000"

section \<open>Setting up\<close>

text \<open>
  Type assertions on a decoded document panic where they do not hold; a missing member of a map is nil,
  which no assertion accepts. The last of two members of one name counts.
\<close>

definition as_map :: "json option \<Rightarrow> (string \<rightharpoonup> json) result" where
  "as_map j = (case j of Some (JObj ms) \<Rightarrow> Inr (map_of (rev ms)) | _ \<Rightarrow> Inl (Go_panic ''interface conversion''))"

definition as_string :: "json option \<Rightarrow> string result" where
  "as_string j = (case j of Some (JStr s) \<Rightarrow> Inr s | _ \<Rightarrow> Inl (Go_panic ''interface conversion''))"

text \<open>\<open>depcfg\<close> is the deployment part of the application's file, \<open>None\<close> where there is no file.\<close>

definition getMailSettings :: "json option option \<Rightarrow> mail_settings result" where
  "getMailSettings depcfg =
     (case depcfg of
        None \<Rightarrow> Inr \<lparr>smtpServer = [], smtpPort = [], senderMailID = [], mailPassword = []\<rparr>
      | Some cfg \<Rightarrow>
          res_bind (as_map cfg) (\<lambda>config.
            case config ''mail_settings'' of
              None \<Rightarrow> Inr \<lparr>smtpServer = [], smtpPort = [], senderMailID = [], mailPassword = []\<rparr>
            | Some ms \<Rightarrow>
                res_bind (as_map (Some ms)) (\<lambda>m.
                res_bind (as_string (m ''smtp_server'')) (\<lambda>server.
                res_bind (as_string (m ''smtp_port'')) (\<lambda>port.
                res_bind (as_string (m ''sender_mail_id'')) (\<lambda>sender.
                res_bind (as_string (m ''password'')) (\<lambda>password.
                  Inr \<lparr>smtpServer = server, smtpPort = port, senderMailID = sender, mailPassword = password\<rparr>)))))))"

definition setUpMailServer ::
  "json option option \<Rightarrow> string \<Rightarrow> mail_channels \<times> (string \<rightharpoonup> mail_settings)
     \<Rightarrow> (mail_channels \<times> (string \<rightharpoonup> mail_settings)) result" where
  "setUpMailServer depcfg appName = (\<lambda>(chans, settings).
     res_bind (getMailSettings depcfg) (\<lambda>m.
       if smtpServer m = [] \<or> smtpPort m = [] \<or> senderMailID m = [] \<or> mailPassword m = [] then Inr (chans, settings)
       else Inr (chans(appName \<mapsto> []), settings(appName \<mapsto> m))))"

section \<open>Receiving a form\<close>

definition go_index :: "'a list \<Rightarrow> nat \<Rightarrow> 'a result" where
  "go_index xs i = (if i < length xs then Inr (xs ! i) else Inl (Go_panic ''index out of range''))"

text \<open>The value of field \<open>i\<close>: the second piece of its text at the equals signs.\<close>

definition form_value :: "string list \<Rightarrow> nat \<Rightarrow> string result" where
  "form_value fs i = res_bind (go_index fs i) (\<lambda>f. go_index (Split (CHR ''='') f) 1)"

text \<open>A send on a channel that is missing, or full and not emptied, blocks.\<close>

datatype posted = Sent mail_channels | Blocks

definition sendMail :: "mail_channels \<Rightarrow> string \<Rightarrow> posted result" where
  "sendMail chans body =
     (let fs = Split (CHR ''&'') body
      in res_bind (form_value fs 0) (\<lambda>appName.
         res_bind (form_value fs 1) (\<lambda>mailTo.
         res_bind (form_value fs 2) (\<lambda>subject.
         res_bind (form_value fs 3) (\<lambda>mailBody.
           let sFields = \<lparr>To = mailTo, Subject = subject, Body = mailBody\<rparr>
           in Inr (case chans appName of
                     None \<Rightarrow> Blocks
                   | Some q \<Rightarrow> if length q < mail_channel_size then Sent (chans(appName \<mapsto> q @ [sFields])) else Blocks))))))"

section \<open>Sending\<close>

text \<open>
  The calls of \<open>smtp.SendMail\<close> that \<open>processMails\<close> makes for the messages of a channel until it is
  closed: server and port, sender, recipients, message.
\<close>

definition mail_message :: "mail_settings \<Rightarrow> smtpFields \<Rightarrow> string" where
  "mail_message m f = ''From: '' @ senderMailID m @ newline @ ''To: '' @ To f @ newline
     @ ''Subject: '' @ Subject f @ newline @ newline @ Body f"

definition processMails :: "mail_settings \<Rightarrow> smtpFields list \<Rightarrow> (string \<times> string \<times> string list \<times> string) list" where
  "processMails m q = map (\<lambda>f. (smtpServer m @ '':'' @ smtpPort m, senderMailID m, [To f], mail_message m f)) q"

section \<open>From the handler to the channel\<close>

text \<open>
  libcurl posts a form to the service and waits for the answer, so a post returns only where \<open>sendMail\<close>
  does.
\<close>

definition posts_to_service :: "mail_channels curl \<Rightarrow> bool" where
  "posts_to_service C \<longleftrightarrow> (\<forall>m. curl_easy_init C m)
     \<and> (\<forall>m f m'. sendMail m f = Inr (Sent m') \<longrightarrow> curl_easy_perform C m mail_url f = (0, m'))"

definition plain_field :: "string \<Rightarrow> bool" where
  "plain_field s \<longleftrightarrow> CHR ''&'' \<notin> set s \<and> CHR ''='' \<notin> set s \<and> NUL \<notin> set s"

lemma mail_form_Split:
  assumes "CHR ''&'' \<notin> set a" "CHR ''&'' \<notin> set t" "CHR ''&'' \<notin> set s"
  shows "Split (CHR ''&'') (mail_form a t s b) = (''app_name='' @ a) # (''to='' @ t) # (''subject='' @ s) # Split (CHR ''&'') (''body='' @ b)"
proof -
  have form: "mail_form a t s b =
      (''app_name='' @ a) @ CHR ''&'' # (''to='' @ t) @ CHR ''&'' # (''subject='' @ s) @ CHR ''&'' # (''body='' @ b)"
    by (simp add: mail_form_def)
  have free: "CHR ''&'' \<notin> set (''app_name='' @ a)" "CHR ''&'' \<notin> set (''to='' @ t)" "CHR ''&'' \<notin> set (''subject='' @ s)"
    using assms by simp_all
  show ?thesis unfolding form Split_item [OF free(1)] Split_item [OF free(2)] Split_item [OF free(3)] ..
qed

lemma field_value:
  assumes "CHR ''='' \<notin> set k" "CHR ''='' \<notin> set v"
  shows "go_index (Split (CHR ''='') (k @ CHR ''='' # v)) 1 = Inr v"
  using assms by (simp add: go_index_def)

lemma field_value_cut:
  assumes "CHR ''='' \<notin> set k" "CHR ''='' \<notin> set v"
  shows "go_index (Split (CHR ''='') (k @ CHR ''='' # v @ CHR ''='' # r)) 1 = Inr v"
  using assms by (simp add: go_index_def)

lemma sendMail_values:
  assumes "Split (CHR ''&'') form = f0 # f1 # f2 # f3 # rest"
    and "go_index (Split (CHR ''='') f0) 1 = Inr a" "go_index (Split (CHR ''='') f1) 1 = Inr t"
      "go_index (Split (CHR ''='') f2) 1 = Inr s" "go_index (Split (CHR ''='') f3) 1 = Inr b"
  shows "sendMail chans form = Inr (case chans a of
      None \<Rightarrow> Blocks
    | Some q \<Rightarrow> if length q < mail_channel_size then Sent (chans(a \<mapsto> q @ [\<lparr>To = t, Subject = s, Body = b\<rparr>])) else Blocks)"
proof -
  let ?fs = "f0 # f1 # f2 # f3 # rest"
  have "go_index ?fs 0 = Inr f0" "go_index ?fs 1 = Inr f1" "go_index ?fs 2 = Inr f2" "go_index ?fs 3 = Inr f3"
    by (simp_all add: go_index_def numeral_eq_Suc)
  then have "form_value ?fs 0 = Inr a" "form_value ?fs 1 = Inr t" "form_value ?fs 2 = Inr s" "form_value ?fs 3 = Inr b"
    using assms(2-5) by (simp_all add: form_value_def)
  then show ?thesis unfolding sendMail_def Let_def assms(1) by (simp only: res_bind_simps)
qed

text \<open>The four fields of a form and the values they carry.\<close>

lemma named_field:
  assumes "CHR ''='' \<notin> set v"
  shows "go_index (Split (CHR ''='') (''app_name='' @ v)) 1 = Inr v" "go_index (Split (CHR ''='') (''to='' @ v)) 1 = Inr v"
    "go_index (Split (CHR ''='') (''subject='' @ v)) 1 = Inr v" "go_index (Split (CHR ''='') (''body='' @ v)) 1 = Inr v"
proof -
  have "''app_name='' @ v = ''app_name'' @ CHR ''='' # v" "''to='' @ v = ''to'' @ CHR ''='' # v"
    "''subject='' @ v = ''subject'' @ CHR ''='' # v" "''body='' @ v = ''body'' @ CHR ''='' # v" by simp_all
  moreover have "CHR ''='' \<notin> set ''app_name''" "CHR ''='' \<notin> set ''to''" "CHR ''='' \<notin> set ''subject''" "CHR ''='' \<notin> set ''body''"
    by simp_all
  ultimately show "go_index (Split (CHR ''='') (''app_name='' @ v)) 1 = Inr v" "go_index (Split (CHR ''='') (''to='' @ v)) 1 = Inr v"
    "go_index (Split (CHR ''='') (''subject='' @ v)) 1 = Inr v" "go_index (Split (CHR ''='') (''body='' @ v)) 1 = Inr v"
    using assms by (simp_all only: field_value not_False_eq_True)
qed

lemma body_field_cut:
  assumes "CHR ''='' \<notin> set v"
  shows "go_index (Split (CHR ''='') (''body='' @ v @ CHR ''='' # r)) 1 = Inr v"
proof -
  have "''body='' @ v @ CHR ''='' # r = ''body'' @ CHR ''='' # v @ CHR ''='' # r" by simp
  then show ?thesis using field_value_cut [of "''body''" v r] assms by (simp only:) simp
qed

lemma body_Split: "CHR ''&'' \<notin> set u \<Longrightarrow> Split (CHR ''&'') (''body='' @ u) = [''body='' @ u]"
  by (rule Split_last_item) simp

lemma sendMail_form:
  assumes "plain_field a" "plain_field t" "plain_field s" "plain_field b"
  shows "sendMail chans (mail_form a t s b) = Inr (case chans a of
      None \<Rightarrow> Blocks
    | Some q \<Rightarrow> if length q < mail_channel_size then Sent (chans(a \<mapsto> q @ [\<lparr>To = t, Subject = s, Body = b\<rparr>])) else Blocks)"
proof -
  note P = assms [unfolded plain_field_def]
  have "Split (CHR ''&'') (mail_form a t s b) = [''app_name='' @ a, ''to='' @ t, ''subject='' @ s, ''body='' @ b]"
    using mail_form_Split body_Split P by metis
  then show ?thesis by (rule sendMail_values) (use P named_field in blast)+
qed

text \<open>
  C39. A mail reaches the channel of its application as the handler wrote it, if no text contains an
  ampersand or an equals sign, the form fits its buffer and the channel has room: \<open>sendmail\<close> of the
  handler returns after the message was appended, and it goes out with the three headers and the body.
\<close>

theorem mail_arrives:
  assumes C: "posts_to_service C" and E: "v8_is_string E (argument E args 0)" "v8_is_string E (argument E args 1)" "v8_is_string E (argument E args 2)"
    and args: "v8_utf8 E (argument E args 0) = Some t" "v8_utf8 E (argument E args 1) = Some s" "v8_utf8 E (argument E args 2) = Some b"
    and plain: "plain_field a" "plain_field t" "plain_field s" "plain_field b"
    and fits: "length a + length t + length s + length b \<le> 971" and room: "chans a = Some q" "length q < 10000"
  shows "SendMail E C a args (chans, err) = Inr (chans(a \<mapsto> q @ [\<lparr>To = t, Subject = s, Body = b\<rparr>]), err)
    \<and> processMails m (q @ [\<lparr>To = t, Subject = s, Body = b\<rparr>]) = processMails m q @
        [(smtpServer m @ '':'' @ smtpPort m, senderMailID m, [t],
          ''From: '' @ senderMailID m @ newline @ ''To: '' @ t @ newline @ ''Subject: '' @ s @ newline @ newline @ b)]"
proof -
  have "sendMail chans (mail_form a t s b) = Inr (Sent (chans(a \<mapsto> q @ [\<lparr>To = t, Subject = s, Body = b\<rparr>])))"
    using sendMail_form [OF plain] room by (simp add: mail_channel_size_def)
  then have "curl_easy_perform C chans mail_url (mail_form a t s b) = (0, chans(a \<mapsto> q @ [\<lparr>To = t, Subject = s, Body = b\<rparr>]))"
    using C by (simp add: posts_to_service_def)
  moreover have "curl_easy_init C chans" using C by (simp add: posts_to_service_def)
  ultimately have "SendMail E C a args (chans, err) = Inr (chans(a \<mapsto> q @ [\<lparr>To = t, Subject = s, Body = b\<rparr>]), err)"
    using E args plain fits by (simp add: SendMail_def PostMail_def ToCString_def plain_field_def mail_buf_size_def length_mail_form)
  then show ?thesis by (simp add: processMails_def mail_message_def)
qed

text \<open>A service reached by libcurl.\<close>

definition ref_mail_curl :: "mail_channels curl" where
  "ref_mail_curl = \<lparr>curl_easy_init = (\<lambda>_. True),
     curl_easy_perform = (\<lambda>m u f. case sendMail m f of Inr (Sent m') \<Rightarrow> (0, m') | _ \<Rightarrow> (52, m)), curl_easy_strerror = (\<lambda>n. dec_of_nat n)\<rparr>"

lemma ref_mail_curl_posts: "posts_to_service ref_mail_curl"
  by (simp add: posts_to_service_def ref_mail_curl_def)

theorem mail_arrives_witness:
  "SendMail ref_v8 ref_mail_curl ''app1'' [''a@b.c'', ''hello'', ''world''] ([''app1'' \<mapsto> []], [])
     = Inr ([''app1'' \<mapsto> [\<lparr>To = ''a@b.c'', Subject = ''hello'', Body = ''world''\<rparr>]], [])"
proof -
  let ?args = "[''a@b.c'', ''hello'', ''world'']"
  have s: "v8_is_string ref_v8 x" for x by (simp add: ref_v8_def)
  have args: "v8_utf8 ref_v8 (argument ref_v8 ?args 0) = Some ''a@b.c''" "v8_utf8 ref_v8 (argument ref_v8 ?args 1) = Some ''hello''"
    "v8_utf8 ref_v8 (argument ref_v8 ?args 2) = Some ''world''"
    by (simp_all add: ref_v8_def argument_def)
  have p: "plain_field ''app1''" "plain_field ''a@b.c''" "plain_field ''hello''" "plain_field ''world''"
    by (simp_all add: plain_field_def NUL_def)
  show ?thesis
    using mail_arrives [OF ref_mail_curl_posts s s s args p, of "[''app1'' \<mapsto> []]" "[]" "[]"] by simp
qed

text \<open>
  The form is not encoded, so the texts can break out of their fields: what follows an equals sign in
  the body is dropped, a subject that contains an ampersand and the name of the body field replaces the
  body; and a mail of an application without mail settings waits forever on a channel that does not
  exist.
\<close>

theorem mail_torn:
  assumes plain: "plain_field a" "plain_field t" "plain_field s" "plain_field b" "plain_field r"
  shows "sendMail chans (mail_form a t s (b @ CHR ''='' # r)) = sendMail chans (mail_form a t s b)
    \<and> sendMail chans (mail_form a t (s @ ''&body='' @ r) b) = sendMail chans (mail_form a t s r)
    \<and> (chans a = None \<longrightarrow> sendMail chans (mail_form a t s b) = Inr Blocks)"
proof -
  note P = plain [unfolded plain_field_def]
  have "Split (CHR ''&'') (mail_form a t s (b @ CHR ''='' # r))
      = [''app_name='' @ a, ''to='' @ t, ''subject='' @ s, ''body='' @ b @ CHR ''='' # r]"
    using mail_form_Split [of a t s "b @ CHR ''='' # r"] body_Split [of "b @ CHR ''='' # r"] P by (simp del: Split.simps)
  from sendMail_values [OF this, of a t s b chans] P named_field body_field_cut [of b r]
  have cut: "sendMail chans (mail_form a t s (b @ CHR ''='' # r)) = sendMail chans (mail_form a t s b)"
    unfolding sendMail_form [OF plain(1-4)] by blast
  have form: "mail_form a t (s @ ''&body='' @ r) b = (''app_name='' @ a) @ CHR ''&'' # (''to='' @ t) @ CHR ''&'' # (''subject='' @ s) @ CHR ''&''
      # (''body='' @ r) @ CHR ''&'' # (''body='' @ b)" by (simp add: mail_form_def)
  have free: "CHR ''&'' \<notin> set (''app_name='' @ a)" "CHR ''&'' \<notin> set (''to='' @ t)" "CHR ''&'' \<notin> set (''subject='' @ s)"
    "CHR ''&'' \<notin> set (''body='' @ r)" using P by simp_all
  have "Split (CHR ''&'') (mail_form a t (s @ ''&body='' @ r) b)
      = (''app_name='' @ a) # (''to='' @ t) # (''subject='' @ s) # (''body='' @ r) # Split (CHR ''&'') (''body='' @ b)"
    unfolding form Split_item [OF free(1)] Split_item [OF free(2)] Split_item [OF free(3)] Split_item [OF free(4)] ..
  from sendMail_values [OF this, of a t s r chans] P named_field
  have "sendMail chans (mail_form a t (s @ ''&body='' @ r) b) = sendMail chans (mail_form a t s r)"
    unfolding sendMail_form [OF plain(1-3,5)] by blast
  then show ?thesis using cut sendMail_form [OF plain(1-4), of chans] by simp
qed

theorem mail_torn_witness:
  "sendMail [''app1'' \<mapsto> []] (mail_form ''app1'' ''a@b.c'' ''hi&body=evil'' ''good'')
     = sendMail [''app1'' \<mapsto> []] (mail_form ''app1'' ''a@b.c'' ''hi'' ''evil'')"
proof -
  have p: "plain_field ''app1''" "plain_field ''a@b.c''" "plain_field ''hi''" "plain_field ''good''" "plain_field ''evil''"
    by (simp_all add: plain_field_def NUL_def)
  show ?thesis using mail_torn [OF p, of "[''app1'' \<mapsto> []]"] by simp
qed

end
