(* ===== verification/Lifecycle.thy ===== *)
theory Lifecycle
  imports Prelude
begin

text \<open>
  Deploying an application again while it runs: \<open>storeAppSetup\<close> of src/go_eventing/http_handlers.go asks
  the running worker to quit and starts \<open>setUpEventingApp\<close> of app_setup.go; \<open>runWorker\<close> of v8_worker.go
  handles the request; \<open>startDcp\<close> of dcp_client.go and \<open>processTimerEvent\<close> of
  proccess_timer_callbacks.go wait for the closing messages. They run as goroutines of their own and
  share \<open>appDoneChans\<close> and \<open>workerTable\<close> under \<open>tableLock\<close>, so the theory is a step relation over all
  their interleavings, for one application. Of \<open>storeAppSetup\<close> it has the part that replaces the running
  worker; the assets, the file, the HTTP listeners and the mail channel that it also replaces do
  not touch the channels of this theory and are in the theories Assets, AppFile, HttpServers and MailPump.
\<close>

section \<open>State\<close>

text \<open>
  One run of \<open>setUpEventingApp\<close>: where it is (connecting; its channels in \<open>appDoneChans\<close> and \<open>startBucket\<close>
  started; its handle in \<open>workerTable\<close> with \<open>runWorker\<close> and the timer routine running; \<open>runWorker\<close>
  returned), the messages in \<open>Quit\<close>, \<open>dcpStreamClose\<close> and
  \<open>timerEventClose\<close> (channels with room for one), the state of its DCP feed and whether its timer
  routine runs. The feed is not opened yet, open, ended by itself (\<open>startDcp\<close> still waits for the closing message) or
  closed by \<open>startDcp\<close>, which has returned.
\<close>

datatype phase = Starting | Registered | Serving | Stopped

datatype feed_state = NotOpened | Opened | Ended | Closed

record inst =
  phase :: phase
  quit_msgs :: nat
  dcp_close :: nat
  timer_close :: nat
  dcp_feed :: feed_state
  timer_on :: bool

record app =
  insts :: "inst list"
  appDoneChans :: "nat option"
  appWorker :: "nat option"
  lock_held :: bool

definition inst_new :: inst where
  "inst_new = \<lparr>phase = Starting, quit_msgs = 0, dcp_close = 0, timer_close = 0, dcp_feed = NotOpened, timer_on = False\<rparr>"

definition app_init :: app where
  "app_init = \<lparr>insts = [inst_new], appDoneChans = None, appWorker = None, lock_held = False\<rparr>"

definition upd :: "nat \<Rightarrow> (inst \<Rightarrow> inst) \<Rightarrow> app \<Rightarrow> app" where
  "upd i f a = a\<lparr>insts := (insts a)[i := f (insts a ! i)]\<rparr>"

section \<open>Steps\<close>

datatype label =
    Store
  | Register nat
  | Load nat
  | Quit nat
  | DcpStop nat
  | TimerStop nat
  | OpenFeed nat
  | FeedLost nat
  | RchClosed nat
  | WorkerPanic nat

text \<open>
  \<open>storeAppSetup\<close>: a message for the handle of the table, if it has one, and a new run of
  \<open>setUpEventingApp\<close>. A full channel makes it wait with the lock held, for ever if the worker that would
  empty it has returned; while that worker runs, the step waits for its quit step (\<open>None\<close>).
\<close>

definition storeAppSetup :: "app \<Rightarrow> app option" where
  "storeAppSetup a =
     (case appWorker a of
        None \<Rightarrow> Some (a\<lparr>insts := insts a @ [inst_new]\<rparr>)
      | Some i \<Rightarrow>
          if quit_msgs (insts a ! i) = 0
          then Some (let a1 = upd i (quit_msgs_update Suc) a in a1\<lparr>insts := insts a1 @ [inst_new]\<rparr>)
          else if phase (insts a ! i) = Serving then None
          else Some (a\<lparr>lock_held := True\<rparr>))"

text \<open>
  The quit case of \<open>runWorker\<close>: it takes the channels that \<open>appDoneChans\<close> holds at that moment. A
  send on a missing or full channel blocks for ever with the lock held.
\<close>

definition quit_case :: "nat \<Rightarrow> app \<Rightarrow> app" where
  "quit_case i a =
     (let a1 = upd i (quit_msgs_update (\<lambda>n. n - 1)) a
      in case appDoneChans a1 of
           None \<Rightarrow> a1\<lparr>lock_held := True\<rparr>
         | Some j \<Rightarrow>
             if dcp_close (insts a1 ! j) = 0 \<and> timer_close (insts a1 ! j) = 0
             then (upd i (phase_update (\<lambda>_. Stopped))
                     (upd j (dcp_close_update Suc \<circ> timer_close_update Suc) a1))\<lparr>appDoneChans := None\<rparr>
             else a1\<lparr>lock_held := True\<rparr>)"

text \<open>
  The steps of the goroutines. \<open>startBucket\<close> opens the feed some time after the registration and starts \<open>startDcp\<close>, which waits for the
  closing message also when the feed has ended meanwhile. A feed that ended makes \<open>startBucket\<close> close \<open>rch\<close>, on which \<open>runWorker\<close> returns;
  it also returns by a panic of \<open>handleDcpEvent\<close> or of the nil ticker of \<open>-stats 0\<close>, from which it recovers.
\<close>

inductive life_step :: "label \<Rightarrow> app \<Rightarrow> app \<Rightarrow> bool" where
  store: "\<not> lock_held a \<Longrightarrow> storeAppSetup a = Some a' \<Longrightarrow> life_step Store a a'"
| register: "\<not> lock_held a \<Longrightarrow> i < length (insts a) \<Longrightarrow> phase (insts a ! i) = Starting \<Longrightarrow>
    life_step (Register i) a ((upd i (phase_update (\<lambda>_. Registered)) a)\<lparr>appDoneChans := Some i\<rparr>)"
| load: "\<not> lock_held a \<Longrightarrow> i < length (insts a) \<Longrightarrow> phase (insts a ! i) = Registered \<Longrightarrow>
    life_step (Load i) a ((upd i (phase_update (\<lambda>_. Serving) \<circ> timer_on_update (\<lambda>_. True)) a)\<lparr>appWorker := Some i\<rparr>)"
| quit: "\<not> lock_held a \<Longrightarrow> i < length (insts a) \<Longrightarrow> phase (insts a ! i) = Serving \<Longrightarrow> 0 < quit_msgs (insts a ! i) \<Longrightarrow>
    life_step (Quit i) a (quit_case i a)"
| open_feed: "i < length (insts a) \<Longrightarrow> phase (insts a ! i) \<noteq> Starting \<Longrightarrow> dcp_feed (insts a ! i) = NotOpened \<Longrightarrow>
    life_step (OpenFeed i) a (upd i (dcp_feed_update (\<lambda>_. Opened)) a)"
| dcp_stop: "i < length (insts a) \<Longrightarrow> dcp_feed (insts a ! i) \<in> {Opened, Ended} \<Longrightarrow> 0 < dcp_close (insts a ! i) \<Longrightarrow>
    life_step (DcpStop i) a (upd i (dcp_feed_update (\<lambda>_. Closed) \<circ> dcp_close_update (\<lambda>n. n - 1)) a)"
| timer_stop: "i < length (insts a) \<Longrightarrow> timer_on (insts a ! i) \<Longrightarrow> 0 < timer_close (insts a ! i) \<Longrightarrow>
    life_step (TimerStop i) a (upd i (timer_on_update (\<lambda>_. False) \<circ> timer_close_update (\<lambda>n. n - 1)) a)"
| feed_lost: "i < length (insts a) \<Longrightarrow> dcp_feed (insts a ! i) = Opened \<Longrightarrow>
    life_step (FeedLost i) a (upd i (dcp_feed_update (\<lambda>_. Ended)) a)"
| rch_closed: "i < length (insts a) \<Longrightarrow> phase (insts a ! i) = Serving \<Longrightarrow> dcp_feed (insts a ! i) \<in> {Ended, Closed} \<Longrightarrow>
    life_step (RchClosed i) a (upd i (phase_update (\<lambda>_. Stopped)) a)"
| worker_panic: "i < length (insts a) \<Longrightarrow> phase (insts a ! i) = Serving \<Longrightarrow>
    life_step (WorkerPanic i) a (upd i (phase_update (\<lambda>_. Stopped)) a)"

inductive_cases life_stepE: "life_step l a a'"

inductive life_run :: "app \<Rightarrow> label list \<Rightarrow> app \<Rightarrow> bool" where
  life_Nil: "life_run a [] a"
| life_Cons: "life_step l a a1 \<Longrightarrow> life_run a1 ls a' \<Longrightarrow> life_run a (l # ls) a'"

inductive_simps life_run_Nil [simp]: "life_run a [] a'"

inductive_simps life_run_Cons: "life_run a (l # ls) a'"

text \<open>The same steps as a function: a label determines the step.\<close>

definition life_exec :: "label \<Rightarrow> app \<Rightarrow> app option" where
  "life_exec l a =
     (let ok = (\<lambda>i. i < length (insts a)); at = (\<lambda>i. insts a ! i)
      in case l of
           Store \<Rightarrow> if lock_held a then None else storeAppSetup a
         | Register i \<Rightarrow>
             if \<not> lock_held a \<and> ok i \<and> phase (at i) = Starting
             then Some ((upd i (phase_update (\<lambda>_. Registered)) a)\<lparr>appDoneChans := Some i\<rparr>) else None
         | Load i \<Rightarrow>
             if \<not> lock_held a \<and> ok i \<and> phase (at i) = Registered
             then Some ((upd i (phase_update (\<lambda>_. Serving) \<circ> timer_on_update (\<lambda>_. True)) a)\<lparr>appWorker := Some i\<rparr>) else None
         | Quit i \<Rightarrow>
             if \<not> lock_held a \<and> ok i \<and> phase (at i) = Serving \<and> 0 < quit_msgs (at i) then Some (quit_case i a) else None
         | DcpStop i \<Rightarrow>
             if ok i \<and> dcp_feed (at i) \<in> {Opened, Ended} \<and> 0 < dcp_close (at i)
             then Some (upd i (dcp_feed_update (\<lambda>_. Closed) \<circ> dcp_close_update (\<lambda>n. n - 1)) a) else None
         | TimerStop i \<Rightarrow>
             if ok i \<and> timer_on (at i) \<and> 0 < timer_close (at i)
             then Some (upd i (timer_on_update (\<lambda>_. False) \<circ> timer_close_update (\<lambda>n. n - 1)) a) else None
         | OpenFeed i \<Rightarrow>
             if ok i \<and> phase (at i) \<noteq> Starting \<and> dcp_feed (at i) = NotOpened then Some (upd i (dcp_feed_update (\<lambda>_. Opened)) a) else None
         | FeedLost i \<Rightarrow> if ok i \<and> dcp_feed (at i) = Opened then Some (upd i (dcp_feed_update (\<lambda>_. Ended)) a) else None
         | RchClosed i \<Rightarrow>
             if ok i \<and> phase (at i) = Serving \<and> dcp_feed (at i) \<in> {Ended, Closed}
             then Some (upd i (phase_update (\<lambda>_. Stopped)) a) else None
         | WorkerPanic i \<Rightarrow> if ok i \<and> phase (at i) = Serving then Some (upd i (phase_update (\<lambda>_. Stopped)) a) else None)"

lemma life_exec_iff: "life_step l a a' \<longleftrightarrow> life_exec l a = Some a'"
proof
  assume "life_step l a a'"
  then show "life_exec l a = Some a'" by (cases rule: life_step.cases) (simp_all add: life_exec_def)
next
  assume "life_exec l a = Some a'"
  then show "life_step l a a'"
    by (cases l) (auto simp: life_exec_def Let_def simp del: One_nat_def split: if_splits intro: life_step.intros)
qed

fun life_execs :: "label list \<Rightarrow> app \<Rightarrow> app option" where
  "life_execs [] a = Some a"
| "life_execs (l # ls) a = (case life_exec l a of None \<Rightarrow> None | Some a1 \<Rightarrow> life_execs ls a1)"

lemma life_run_iff: "life_run a ls a' \<longleftrightarrow> life_execs ls a = Some a'"
  by (induction ls arbitrary: a) (auto simp: life_run_Cons life_exec_iff split: option.splits)

lemma life_run_append: "life_run a (ls @ ls') a' \<longleftrightarrow> (\<exists>a1. life_run a ls a1 \<and> life_run a1 ls' a')"
  unfolding life_run_iff by (induction ls arbitrary: a) (auto split: option.splits)

section \<open>Invariant\<close>

text \<open>
  What the interleavings keep: the registered channels belong to a run that has got so far and hold no
  message, the handle of the table belongs to a run that served, and no channel holds two messages.
\<close>

definition inst_ok :: "inst \<Rightarrow> bool" where
  "inst_ok s \<longleftrightarrow> quit_msgs s \<le> 1 \<and> dcp_close s \<le> 1 \<and> timer_close s \<le> 1 \<and> (phase s = Starting \<longrightarrow> s = inst_new)"

definition done_ok :: "app \<Rightarrow> bool" where
  "done_ok a \<longleftrightarrow> (case appDoneChans a of
     None \<Rightarrow> True
   | Some j \<Rightarrow> j < length (insts a) \<and> phase (insts a ! j) \<noteq> Starting \<and> dcp_close (insts a ! j) = 0 \<and> timer_close (insts a ! j) = 0)"

definition worker_ok :: "app \<Rightarrow> bool" where
  "worker_ok a \<longleftrightarrow> (case appWorker a of
     None \<Rightarrow> True | Some i \<Rightarrow> i < length (insts a) \<and> phase (insts a ! i) \<in> {Serving, Stopped})"

definition life_inv :: "app \<Rightarrow> bool" where
  "life_inv a \<longleftrightarrow> list_all inst_ok (insts a) \<and> done_ok a \<and> worker_ok a"

lemma upd_simps [simp]:
  "length (insts (upd i f a)) = length (insts a)" "appDoneChans (upd i f a) = appDoneChans a"
  "appWorker (upd i f a) = appWorker a" "lock_held (upd i f a) = lock_held a"
  by (simp_all add: upd_def)

lemma insts_upd: "k < length (insts a) \<Longrightarrow> insts (upd i f a) ! k = (if k = i then f (insts a ! i) else insts a ! k)"
  by (simp add: upd_def nth_list_update)

lemma insts_ok_nth: "list_all inst_ok (insts a) \<Longrightarrow> i < length (insts a) \<Longrightarrow> inst_ok (insts a ! i)"
  by (simp add: list_all_length)

lemma insts_ok_upd:
  "list_all inst_ok (insts a) \<Longrightarrow> (i < length (insts a) \<Longrightarrow> inst_ok (insts a ! i) \<Longrightarrow> inst_ok (f (insts a ! i))) \<Longrightarrow>
     list_all inst_ok (insts (upd i f a))"
  by (auto simp: list_all_length insts_upd)

lemma life_inv_upd:
  assumes "life_inv a" and "inst_ok (insts a ! i) \<Longrightarrow> inst_ok (f (insts a ! i))"
    and "phase (insts a ! i) \<noteq> Starting \<longrightarrow> phase (f (insts a ! i)) \<noteq> Starting"
    and "phase (insts a ! i) \<in> {Serving, Stopped} \<longrightarrow> phase (f (insts a ! i)) \<in> {Serving, Stopped}"
    and "dcp_close (f (insts a ! i)) \<le> dcp_close (insts a ! i)" "timer_close (f (insts a ! i)) \<le> timer_close (insts a ! i)"
  shows "life_inv (upd i f a)"
  using assms insts_ok_upd [of a i f]
  by (auto simp: life_inv_def done_ok_def worker_ok_def insts_upd split: option.splits)

lemma ok_simps [simp]:
  "worker_ok (a\<lparr>appDoneChans := d\<rparr>) = worker_ok a" "done_ok (a\<lparr>appWorker := w\<rparr>) = done_ok a" "done_ok (a\<lparr>appDoneChans := None\<rparr>)"
  by (simp_all add: done_ok_def worker_ok_def split: option.splits)

lemma life_inv_lock [simp]: "life_inv (a\<lparr>lock_held := l\<rparr>) = life_inv a"
  by (simp add: life_inv_def done_ok_def worker_ok_def split: option.splits)

lemma life_inv_grow: "life_inv a \<Longrightarrow> life_inv (a\<lparr>insts := insts a @ [inst_new]\<rparr>)"
  by (auto simp: life_inv_def done_ok_def worker_ok_def inst_ok_def inst_new_def nth_append split: option.splits)

lemma store_inv: "life_inv a \<Longrightarrow> storeAppSetup a = Some a' \<Longrightarrow> life_inv a'"
proof -
  assume inv: "life_inv a" and st: "storeAppSetup a = Some a'"
  have q: "life_inv (upd i (quit_msgs_update Suc) a)" if "appWorker a = Some i" "quit_msgs (insts a ! i) = 0" for i
    using inv that by (intro life_inv_upd) (auto simp: inst_ok_def life_inv_def worker_ok_def)
  show ?thesis
    using st life_inv_grow [OF inv] life_inv_grow [OF q] inv
    by (auto simp: storeAppSetup_def Let_def split: option.splits if_splits)
qed

lemma quit_inv:
  assumes inv: "life_inv a" and i: "i < length (insts a)" "phase (insts a ! i) = Serving"
  shows "life_inv (quit_case i a)"
proof -
  define a1 where "a1 = upd i (quit_msgs_update (\<lambda>n. n - 1)) a"
  have inv1: "life_inv a1" unfolding a1_def using inv i by (intro life_inv_upd) (auto simp: inst_ok_def)
  have p: "phase (insts a1 ! i) = Serving" using i by (simp add: a1_def insts_upd)
  show ?thesis
  proof (cases "appDoneChans a1")
    case None
    then have "quit_case i a = a1\<lparr>lock_held := True\<rparr>" unfolding quit_case_def Let_def a1_def [symmetric] by simp
    then show ?thesis using inv1 by simp
  next
    case (Some j)
    have j: "j < length (insts a1)" "phase (insts a1 ! j) \<noteq> Starting" "dcp_close (insts a1 ! j) = 0" "timer_close (insts a1 ! j) = 0"
      using inv1 Some by (auto simp: life_inv_def done_ok_def)
    define a2 where "a2 = (upd j (dcp_close_update Suc \<circ> timer_close_update Suc) a1)\<lparr>appDoneChans := None\<rparr>"
    have "list_all inst_ok (insts (upd j (dcp_close_update Suc \<circ> timer_close_update Suc) a1))"
      using inv1 j by (intro insts_ok_upd) (auto simp: life_inv_def inst_ok_def)
    moreover have "worker_ok (upd j (dcp_close_update Suc \<circ> timer_close_update Suc) a1)"
      using inv1 by (auto simp: life_inv_def worker_ok_def insts_upd split: option.splits)
    ultimately have inv2: "life_inv a2" by (simp add: life_inv_def a2_def)
    have "phase (insts a2 ! i) = Serving" using p i by (auto simp: a2_def insts_upd a1_def)
    then have "life_inv (upd i (phase_update (\<lambda>_. Stopped)) a2)" using inv2 by (intro life_inv_upd) (auto simp: inst_ok_def)
    moreover have "quit_case i a = upd i (phase_update (\<lambda>_. Stopped)) a2"
      using Some j unfolding quit_case_def Let_def a1_def [symmetric] by (simp add: a2_def upd_def)
    ultimately show ?thesis by simp
  qed
qed

lemma life_step_inv: "life_step l a a' \<Longrightarrow> life_inv a \<Longrightarrow> life_inv a'"
proof (induction rule: life_step.induct)
  case (store a a')
  then show ?case using store_inv by blast
next
  case (register a i)
  let ?a = "upd i (phase_update (\<lambda>_. Registered)) a"
  have new: "insts a ! i = inst_new" using register insts_ok_nth [of a i] by (simp add: life_inv_def inst_ok_def)
  then have "life_inv ?a"
    using register by (intro life_inv_upd) (auto simp: inst_ok_def inst_new_def)
  then show ?case using register new by (simp add: life_inv_def done_ok_def [of "_\<lparr>appDoneChans := _\<rparr>"] insts_upd inst_new_def)
next
  case (load a i)
  then have "life_inv (upd i (phase_update (\<lambda>_. Serving) \<circ> timer_on_update (\<lambda>_. True)) a)"
    by (intro life_inv_upd) (auto simp: inst_ok_def)
  then show ?case using load by (simp add: life_inv_def worker_ok_def [of "_\<lparr>appWorker := _\<rparr>"] insts_upd)
next
  case (quit a i)
  then show ?case using quit_inv by blast
next
  case (dcp_stop i a)
  then show ?case by (intro life_inv_upd) (auto simp: inst_ok_def inst_new_def)
next
  case (timer_stop i a)
  then show ?case by (intro life_inv_upd) (auto simp: inst_ok_def inst_new_def)
next
  case (feed_lost i a)
  then show ?case by (intro life_inv_upd) (auto simp: inst_ok_def inst_new_def)
next
  case (open_feed i a)
  then show ?case by (intro life_inv_upd) (auto simp: inst_ok_def)
next
  case (rch_closed i a)
  then show ?case by (intro life_inv_upd) (auto simp: inst_ok_def)
next
  case (worker_panic i a)
  then show ?case by (intro life_inv_upd) (auto simp: inst_ok_def)
qed

lemma life_run_inv: "life_run a ls a' \<Longrightarrow> life_inv a \<Longrightarrow> life_inv a'"
  by (induction rule: life_run.induct) (auto intro: life_step_inv)

lemma life_inv_init: "life_inv app_init"
  by (simp add: life_inv_def app_init_def inst_ok_def inst_new_def done_ok_def worker_ok_def)

section \<open>Properties\<close>



text \<open>
  An application of which one run serves, with its feed and its timer routine, while every earlier one
  has stopped and left neither behind.
\<close>

definition idle :: "inst \<Rightarrow> bool" where
  "idle s \<longleftrightarrow> phase s = Stopped \<and> dcp_feed s = Closed \<and> \<not> timer_on s"

definition serving_alone :: "nat \<Rightarrow> app \<Rightarrow> bool" where
  "serving_alone i a \<longleftrightarrow>
     i < length (insts a) \<and> appWorker a = Some i \<and> appDoneChans a = Some i \<and> \<not> lock_held a \<and>
     insts a ! i = \<lparr>phase = Serving, quit_msgs = 0, dcp_close = 0, timer_close = 0, dcp_feed = Opened, timer_on = True\<rparr> \<and>
     (\<forall>k < length (insts a). k \<noteq> i \<longrightarrow> idle (insts a ! k))"

text \<open>
  C17. Redeploying in order: when the old run handles its quit request before the new one has registered
  its channels, then whatever the interleaving of the old feed's and the old timer routine's closing with
  the new run's start and the opening of its feed, exactly the new run serves at the end and nothing of an earlier run is left.
\<close>

theorem redeploy_in_order:
  assumes "serving_alone i a" and "n = length (insts a)"
    and "ls \<in> shuffles [DcpStop i] ms" and "ms \<in> shuffles [TimerStop i] (Register n # ks)"
    and "ks \<in> shuffles [OpenFeed n] [Load n]"
  shows "\<exists>a'. life_run a (Store # Quit i # ls) a' \<and> serving_alone n a'"
proof -
  define q where "q = \<lparr>phase = Stopped, quit_msgs = 0, dcp_close = 0, timer_close = 0, dcp_feed = Closed, timer_on = False\<rparr>"
  define a' where "a' = a\<lparr>insts := (insts a)[i := q] @ [\<lparr>phase = Serving, quit_msgs = 0, dcp_close = 0, timer_close = 0, dcp_feed = Opened, timer_on = True\<rparr>],
    appWorker := Some n, appDoneChans := Some n\<rparr>"
  have "life_run a (Store # Quit i # ls) a'"
    using assms unfolding life_run_iff
    by (auto simp: life_exec_def serving_alone_def storeAppSetup_def quit_case_def upd_def a'_def q_def inst_new_def
        nth_append list_update_append)
  moreover have "serving_alone n a'"
    using assms by (auto simp: serving_alone_def a'_def nth_append nth_list_update idle_def q_def)
  ultimately show ?thesis by blast
qed

definition app_served :: app where
  "app_served = \<lparr>insts = [\<lparr>phase = Serving, quit_msgs = 0, dcp_close = 0, timer_close = 0, dcp_feed = Opened, timer_on = True\<rparr>],
     appDoneChans = Some 0, appWorker = Some 0, lock_held = False\<rparr>"

lemma app_served: "life_run app_init [Register 0, OpenFeed 0, Load 0] app_served" "serving_alone 0 app_served" "length (insts app_served) = 1"
  by (simp_all add: life_run_iff life_exec_def app_init_def inst_new_def upd_def app_served_def serving_alone_def)

theorem redeploy_in_order_witness:
  "\<exists>a. life_run app_init [Register 0, OpenFeed 0, Load 0, Store, Quit 0, Register 1, TimerStop 0, DcpStop 0, Load 1, OpenFeed 1] a \<and> serving_alone 1 a"
proof -
  have "\<exists>a. life_run app_served (Store # Quit 0 # [Register 1, TimerStop 0, DcpStop 0, Load 1, OpenFeed 1]) a \<and> serving_alone 1 a"
    using app_served by (intro redeploy_in_order [where ms = "[Register 1, TimerStop 0, Load 1, OpenFeed 1]" and ks = "[Load 1, OpenFeed 1]"]) simp_all
  then obtain a where a: "life_run app_served [Store, Quit 0, Register 1, TimerStop 0, DcpStop 0, Load 1, OpenFeed 1] a" "serving_alone 1 a" by blast
  from app_served(1) a(1) have "life_run app_init ([Register 0, OpenFeed 0, Load 0] @ [Store, Quit 0, Register 1, TimerStop 0, DcpStop 0, Load 1, OpenFeed 1]) a"
    unfolding life_run_append by blast
  then show ?thesis using a(2) by auto
qed

text \<open>
  A run whose feed and timer routine nobody will close: it is past its registration, its channels are
  empty and no longer in \<open>appDoneChans\<close>. Only the feed's own end changes that.
\<close>

definition orphan :: "nat \<Rightarrow> app \<Rightarrow> bool" where
  "orphan i a \<longleftrightarrow> i < length (insts a) \<and> appDoneChans a \<noteq> Some i \<and> phase (insts a ! i) \<noteq> Starting \<and>
     dcp_close (insts a ! i) = 0 \<and> timer_close (insts a ! i) = 0 \<and> dcp_feed (insts a ! i) = Opened \<and> timer_on (insts a ! i)"

lemma orphan_upd:
  assumes "orphan i a" and "k = i \<Longrightarrow> phase (f (insts a ! i)) \<noteq> Starting \<and> dcp_close (f (insts a ! i)) = 0 \<and>
     timer_close (f (insts a ! i)) = 0 \<and> dcp_feed (f (insts a ! i)) = Opened \<and> timer_on (f (insts a ! i))"
  shows "orphan i (upd k f a)"
  using assms by (auto simp: orphan_def insts_upd)

lemma orphan_store: "orphan i a \<Longrightarrow> storeAppSetup a = Some a' \<Longrightarrow> orphan i a'"
  by (auto simp: storeAppSetup_def Let_def orphan_def insts_upd nth_append split: option.splits if_splits)

lemma orphan_quit: "orphan i a \<Longrightarrow> k < length (insts a) \<Longrightarrow> phase (insts a ! k) = Serving \<Longrightarrow> orphan i (quit_case k a)"
  by (auto simp: quit_case_def Let_def orphan_def insts_upd split: option.splits if_splits)

lemma orphan_step: "life_step l a a' \<Longrightarrow> orphan i a \<Longrightarrow> l \<noteq> FeedLost i \<Longrightarrow> orphan i a'"
proof (induction rule: life_step.induct)
  case (store a a')
  then show ?case using orphan_store by blast
next
  case (quit a k)
  then show ?case using orphan_quit by blast
qed (auto simp: orphan_def insts_upd)

lemma orphan_run: "life_run a ls a' \<Longrightarrow> orphan i a \<Longrightarrow> FeedLost i \<notin> set ls \<Longrightarrow> orphan i a'"
  by (induction rule: life_run.induct) (auto dest: orphan_step)

text \<open>
  Redeploying out of order: when the new run registers its channels before the old one handles its
  quit request, the old run takes the new run's channels. The new run's feed and timer routine are closed
  and its worker returns, while the old run's stay open, and stay so under every further deployment and
  in every interleaving, until that feed ends by itself. The application is deployed and no run serves it.
\<close>

theorem redeploy_race:
  assumes "serving_alone i a" and "n = length (insts a)"
  shows "\<exists>a1. life_run a [Store, Register n, Quit i, OpenFeed n, DcpStop n, Load n, TimerStop n, RchClosed n] a1 \<and>
           list_all (\<lambda>s. phase s = Stopped) (insts a1) \<and> idle (insts a1 ! n) \<and>
           (\<forall>ls a2. life_run a1 ls a2 \<longrightarrow> FeedLost i \<notin> set ls \<longrightarrow> dcp_feed (insts a2 ! i) = Opened \<and> timer_on (insts a2 ! i))"
proof -
  define s where "s = \<lparr>phase = Stopped, quit_msgs = 0, dcp_close = 0, timer_close = 0, dcp_feed = Closed, timer_on = False\<rparr>"
  define a1 where "a1 = a\<lparr>insts := (insts a)[i := s\<lparr>dcp_feed := Opened, timer_on := True\<rparr>] @ [s], appWorker := Some n, appDoneChans := None\<rparr>"
  have "life_run a [Store, Register n, Quit i, OpenFeed n, DcpStop n, Load n, TimerStop n, RchClosed n] a1"
    using assms unfolding life_run_iff
    by (auto simp: life_exec_def serving_alone_def storeAppSetup_def quit_case_def upd_def a1_def s_def inst_new_def
        nth_append list_update_append)
  moreover have "list_all (\<lambda>s. phase s = Stopped) (insts a1)" "idle (insts a1 ! n)"
    using assms by (auto simp: list_all_length serving_alone_def a1_def nth_append nth_list_update idle_def s_def)
  moreover have orphan: "orphan i a1"
    using assms by (simp add: orphan_def a1_def serving_alone_def nth_append s_def)
  have "dcp_feed (insts a2 ! i) = Opened \<and> timer_on (insts a2 ! i)" if "life_run a1 ls a2" "FeedLost i \<notin> set ls" for ls a2
    using orphan_run [OF that(1) orphan that(2)] by (simp add: orphan_def)
  ultimately show ?thesis by blast
qed

theorem redeploy_race_witness:
  "\<exists>a1 a2. life_run app_served [Store, Register 1, Quit 0, OpenFeed 1, DcpStop 1, Load 1, TimerStop 1, RchClosed 1] a1 \<and>
     life_run a1 [Store, Register 2, Load 2] a2 \<and> dcp_feed (insts a2 ! 0) = Opened \<and> timer_on (insts a2 ! 0)"
proof -
  from redeploy_race [OF app_served(2) app_served(3) [symmetric]] obtain a1
    where a1: "life_run app_served [Store, Register 1, Quit 0, OpenFeed 1, DcpStop 1, Load 1, TimerStop 1, RchClosed 1] a1"
      and kept: "\<And>ls a2. life_run a1 ls a2 \<Longrightarrow> FeedLost 0 \<notin> set ls \<Longrightarrow> dcp_feed (insts a2 ! 0) = Opened \<and> timer_on (insts a2 ! 0)"
    by blast
  from a1 have "\<exists>a2. life_run a1 [Store, Register 2, Load 2] a2"
    unfolding life_run_iff by (auto simp: life_exec_def app_served_def inst_new_def storeAppSetup_def quit_case_def upd_def)
  then obtain a2 where a2: "life_run a1 [Store, Register 2, Load 2] a2" ..
  show ?thesis using a1 a2 kept [OF a2] by (intro exI [of _ a1] exI [of _ a2]) simp
qed

text \<open>Once a goroutine waits for ever with the lock held, every operation that takes the lock waits too.\<close>

definition takes_lock :: "label \<Rightarrow> bool" where
  "takes_lock l \<longleftrightarrow> (case l of Store \<Rightarrow> True | Register _ \<Rightarrow> True | Load _ \<Rightarrow> True | Quit _ \<Rightarrow> True | _ \<Rightarrow> False)"

lemma locked_step: "life_step l a a' \<Longrightarrow> lock_held a \<Longrightarrow> \<not> takes_lock l \<and> lock_held a'"
  by (induction rule: life_step.induct) (auto simp: takes_lock_def)

lemma locked_run: "life_run a ls a' \<Longrightarrow> lock_held a \<Longrightarrow> list_all (\<lambda>l. \<not> takes_lock l) ls \<and> lock_held a'"
  by (induction rule: life_run.induct) (auto dest: locked_step)

text \<open>
  Two ways in which deployments stop the service for good. Three deployments before the first new
  run has loaded: the second message stays in the channel of the stopped worker, and the third
  \<open>storeAppSetup\<close> waits for room in it with \<open>tableLock\<close> held. A quit request handled after the new run
  registered, then a quit request for the new run: \<open>appDoneChans\<close> has no entry any more, and \<open>runWorker\<close>
  sends on a nil channel with \<open>tableLock\<close> held. From then on no deployment, registration, load or quit
  of the application happens in any interleaving.
\<close>

theorem redeploy_deadlock:
  assumes "serving_alone i a" and "n = length (insts a)"
    and "ls = [Store, Quit i, Store, Store] \<or> ls = [Store, Register n, Quit i, Load n, Store, Quit n]"
  shows "\<exists>a1. life_run a ls a1 \<and> (\<forall>ms a2. life_run a1 ms a2 \<longrightarrow> list_all (\<lambda>l. \<not> takes_lock l) ms)"
proof -
  have "\<exists>a1. life_run a ls a1 \<and> lock_held a1"
    using assms unfolding life_run_iff
    by (auto simp: life_exec_def serving_alone_def storeAppSetup_def quit_case_def upd_def inst_new_def
        nth_append list_update_append)
  then show ?thesis using locked_run by blast
qed

theorem redeploy_deadlock_witness:
  "\<exists>a1. life_run app_served [Store, Quit 0, Store, Store] a1 \<and> \<not> (\<exists>a2. life_run a1 [Store] a2)"
proof -
  from redeploy_deadlock [OF app_served(2) app_served(3) [symmetric], of "[Store, Quit 0, Store, Store]"] obtain a1
    where a1: "life_run app_served [Store, Quit 0, Store, Store] a1"
      and stuck: "\<And>ms a2. life_run a1 ms a2 \<Longrightarrow> list_all (\<lambda>l. \<not> takes_lock l) ms"
    by blast
  have "\<not> (\<exists>a2. life_run a1 [Store] a2)" using stuck [of "[Store]"] by (auto simp: takes_lock_def)
  then show ?thesis using a1 by blast
qed

end
