(* ===== verification/DcpClient.thy ===== *)
theory DcpClient
  imports Prelude "HOL-Library.Word"
begin

text \<open>
  src/go_eventing/dcp_client.go: \<open>startBucket\<close> connects to the bucket, fetches its failover logs and opens a
  feed, each until it succeeds, and \<open>startDcp\<close> asks for the stream of every vbucket. The DCP client
  library of the indexing service is a parameter. What the events of the feed then do is the matter of
  the theory Dcp, how the feed ends that of Lifecycle.
\<close>

section \<open>Retrying\<close>

text \<open>
  The three retry loops of dcp_client.go and the two of app_setup.go have one shape: a first attempt, then,
  while it failed, a pause and another attempt; the pause doubles until it is eight seconds. The loop
  need not end, so its result is an option. The pauses taken are part of it.
\<close>

partial_function (option) retry_loop ::
  "('s \<Rightarrow> 'b option \<times> 's) \<Rightarrow> 'b option \<Rightarrow> 's \<Rightarrow> int \<Rightarrow> int list \<Rightarrow> ('b \<times> int list \<times> 's) option" where
  "retry_loop again r s sleep slept =
     (case r of
        Some b \<Rightarrow> Some (b, slept, s)
      | None \<Rightarrow> retry_loop again (fst (again s)) (snd (again s)) (if sleep < 8 then sleep * 2 else sleep) (slept @ [sleep]))"

definition retry :: "('s \<Rightarrow> 'b option \<times> 's) \<Rightarrow> ('s \<Rightarrow> 'b option \<times> 's) \<Rightarrow> 's \<Rightarrow> ('b \<times> int list \<times> 's) option" where
  "retry first again s = retry_loop again (fst (first s)) (snd (first s)) 1 []"

section \<open>Vbuckets and streams\<close>

function vbnos_loop :: "int \<Rightarrow> int \<Rightarrow> 16 word list \<Rightarrow> 16 word list" where
  "vbnos_loop i maxVbno vbnos = (if i < maxVbno then vbnos_loop (i + 1) maxVbno (vbnos @ [word_of_int i]) else vbnos)"
  by pat_completeness auto
termination by (relation "measure (\<lambda>(i, m, _). nat (m - i))") auto

declare vbnos_loop.simps [simp del]

definition listOfVbnos :: "int \<Rightarrow> 16 word list result" where
  "listOfVbnos maxVbno =
     (if maxVbno < 0 then Inl (Go_panic ''makeslice: cap out of range'') else Inr (vbnos_loop 0 maxVbno []))"

record stream_request =
  req_vbno :: "16 word"
  req_opaque :: "16 word"
  req_flags :: "32 word"
  req_vbuuid :: "64 word"
  req_start :: "64 word"
  req_end :: "64 word"
  req_snapStart :: "64 word"
  req_snapEnd :: "64 word"

text \<open>The failover log of each vbucket, in the order in which \<open>range\<close> visits the map.\<close>

type_synonym flogs = "(16 word \<times> (64 word \<times> 64 word) list) list"

definition stream_of :: "16 word \<times> (64 word \<times> 64 word) list \<Rightarrow> stream_request result" where
  "stream_of = (\<lambda>(vbno, flog).
     if flog = [] then Inl (Go_panic ''index out of range'')
     else Inr \<lparr>req_vbno = vbno, req_opaque = vbno, req_flags = 0, req_vbuuid = fst (last flog),
               req_start = 0, req_end = 0xFFFFFFFFFFFFFFFF, req_snapStart = 0, req_snapEnd = 0\<rparr>)"

definition startDcp :: "flogs \<Rightarrow> stream_request list result" where
  "startDcp flogs = res_map stream_of flogs"

text \<open>
  The library: connecting (\<open>None\<close> is an error), the failover logs of the vbuckets asked for, refreshing
  the bucket, and opening a feed. The options of the feed are constants.
\<close>

record ('s, 'b, 'f) dcp_library =
  ConnectBucket :: "string \<Rightarrow> string \<Rightarrow> 's \<Rightarrow> 'b option \<times> 's"
  GetFailoverLogs :: "'b \<Rightarrow> 16 word list \<Rightarrow> 's \<Rightarrow> flogs option \<times> 's"
  Refresh :: "'b \<Rightarrow> 's \<Rightarrow> 's"
  StartDcpFeedOver :: "'b \<Rightarrow> 's \<Rightarrow> 'f option \<times> 's"

text \<open>
  \<open>startBucket\<close> up to its loop: the feed, the stream requests made on it and the pauses taken. A panic
  of \<open>listOfVbnos\<close> is recovered by the deferred function, which ends the routine; one in \<open>startDcp\<close>, a
  goroutine of its own, ends the process.
\<close>

definition startBucket ::
  "('s, 'b, 'f) dcp_library \<Rightarrow> int \<Rightarrow> string \<Rightarrow> string \<Rightarrow> 's \<Rightarrow> ('f \<times> stream_request list \<times> int list \<times> 's) result option" where
  "startBucket D maxVbno cluster bucketn s =
     Option.bind (retry (ConnectBucket D cluster bucketn) (ConnectBucket D cluster bucketn) s) (\<lambda>(b, t1, s1).
       case listOfVbnos maxVbno of
         Inl e \<Rightarrow> Some (Inl e)
       | Inr vbnos \<Rightarrow>
           Option.bind (retry (GetFailoverLogs D b vbnos) (\<lambda>s. GetFailoverLogs D b vbnos (Refresh D b s)) s1) (\<lambda>(flogs, t2, s2).
           Option.bind (retry (StartDcpFeedOver D b) (StartDcpFeedOver D b) s2) (\<lambda>(feed, t3, s3).
             Some (res_bind (startDcp flogs) (\<lambda>reqs. Inr (feed, reqs, t1 @ t2 @ t3, s3))))))"

section \<open>A retry loop\<close>

primrec attempt :: "('s \<Rightarrow> 'b option \<times> 's) \<Rightarrow> ('s \<Rightarrow> 'b option \<times> 's) \<Rightarrow> 's \<Rightarrow> nat \<Rightarrow> 'b option \<times> 's" where
  "attempt first again s 0 = first s"
| "attempt first again s (Suc n) = again (snd (attempt first again s n))"

definition pauses :: "nat \<Rightarrow> int list" where
  "pauses k = map (\<lambda>i. min 8 (2 ^ i)) [0..<k]"

definition failing :: "('s \<Rightarrow> 'b option \<times> 's) \<Rightarrow> ('s \<Rightarrow> 'b option \<times> 's) \<Rightarrow> 's \<Rightarrow> nat \<Rightarrow> bool" where
  "failing first again s k \<longleftrightarrow> (\<forall>j < k. fst (attempt first again s j) = None)"

lemma pause_next: "(if min 8 (2 ^ n) < (8 :: int) then min 8 (2 ^ n) * 2 else min 8 (2 ^ n)) = (min 8 (2 ^ Suc n) :: int)"
proof (cases "n < 3")
  case True
  then have "n \<in> {0, 1, 2}" by auto
  then show ?thesis by auto
next
  case False
  then have "(2 :: int) ^ 3 \<le> 2 ^ n" by (intro power_increasing) auto
  then show ?thesis by (simp add: min_def)
qed

text \<open>Where the loop stands before attempt \<open>n\<close> is looked at, if it has not succeeded yet.\<close>

definition retry_at :: "('s \<Rightarrow> 'b option \<times> 's) \<Rightarrow> ('s \<Rightarrow> 'b option \<times> 's) \<Rightarrow> 's \<Rightarrow> nat \<Rightarrow> ('b \<times> int list \<times> 's) option" where
  "retry_at first again s n =
     retry_loop again (fst (attempt first again s n)) (snd (attempt first again s n)) (min 8 (2 ^ n)) (pauses n)"

lemma retry_at_0: "retry first again s = retry_at first again s 0"
  by (simp add: retry_def retry_at_def pauses_def)

lemma retry_at_Suc: "fst (attempt first again s n) = None \<Longrightarrow> retry_at first again s n = retry_at first again s (Suc n)"
  unfolding retry_at_def by (subst retry_loop.simps) (simp add: pause_next [symmetric] pauses_def del: power_Suc)

lemma retry_at: "failing first again s n \<Longrightarrow> retry first again s = retry_at first again s n"
  by (induction n) (auto simp: retry_at_0 failing_def retry_at_Suc less_Suc_eq)

lemma retry_loop_attempts:
  fixes again :: "'s \<Rightarrow> 'b option \<times> 's"
  assumes "retry_loop again r s sleep slept = Some y"
  shows "r \<noteq> None \<or> (\<exists>k. fst (attempt again again s k) \<noteq> None)"
proof (rule retry_loop.raw_induct
    [where P = "\<lambda>again r s sleep slept y. r \<noteq> None \<or> (\<exists>k. fst (attempt again again s k) \<noteq> None)", OF _ assms])
  fix loop :: "('s \<Rightarrow> 'b option \<times> 's) \<Rightarrow> 'b option \<Rightarrow> 's \<Rightarrow> int \<Rightarrow> int list \<Rightarrow> ('b \<times> int list \<times> 's) option"
    and again :: "'s \<Rightarrow> 'b option \<times> 's" and r s sleep slept y
  assume IH: "\<And>again r s sleep slept y. loop again r s sleep slept = Some y \<Longrightarrow>
      r \<noteq> None \<or> (\<exists>k. fst (attempt again again s k) \<noteq> None)"
    and step: "(case r of Some b \<Rightarrow> Some (b, slept, s)
       | None \<Rightarrow> loop again (fst (again s)) (snd (again s)) (if sleep < 8 then sleep * 2 else sleep) (slept @ [sleep])) = Some y"
  show "r \<noteq> None \<or> (\<exists>k. fst (attempt again again s k) \<noteq> None)"
  proof (cases r)
    case None
    have shift: "attempt again again (snd (again s)) k = attempt again again s (Suc k)" for k by (induction k) auto
    from None step IH have "fst (again s) \<noteq> None \<or> (\<exists>k. fst (attempt again again (snd (again s)) k) \<noteq> None)" by auto
    then have "fst (attempt again again s 0) \<noteq> None \<or> (\<exists>k. fst (attempt again again s (Suc k)) \<noteq> None)"
      using shift by simp
    then show ?thesis by blast
  qed simp
qed

lemma attempt_shift: "attempt again again (snd (first s)) k = attempt first again s (Suc k)"
  by (induction k) auto

lemma first_success:
  assumes "fst (attempt first again s k) \<noteq> None"
  obtains j b where "failing first again s j" "fst (attempt first again s j) = Some b"
proof -
  define j where "j = (LEAST k. fst (attempt first again s k) \<noteq> None)"
  have j: "fst (attempt first again s j) \<noteq> None" unfolding j_def by (rule LeastI [where P = "\<lambda>k. fst (attempt first again s k) \<noteq> None", OF assms])
  have "failing first again s j" unfolding failing_def j_def using not_less_Least by blast
  then show thesis using that j by blast
qed

lemma retry_success:
  assumes "failing first again s k" "fst (attempt first again s k) = Some b"
  shows "retry first again s = Some (b, pauses k, snd (attempt first again s k))"
  using assms(2) unfolding retry_at [OF assms(1)] retry_at_def by (subst retry_loop.simps) simp

lemma pauses_Suc: "pauses (Suc k) = pauses k @ [min 8 (2 ^ k)]"
  by (simp add: pauses_def)

lemma pauses_sum: "sum_list (pauses k) = (if k \<le> 3 then 2 ^ k - 1 else 8 * int k - 17)"
proof (induction k)
  case (Suc k)
  consider "k \<in> {0, 1, 2, 3}" | "3 < k" by fastforce
  then show ?case
  proof cases
    case 1
    then show ?thesis using Suc by (auto simp: pauses_Suc)
  next
    case 2
    then have "(2 :: int) ^ 3 \<le> 2 ^ k" by (intro power_increasing) auto
    with 2 Suc show ?thesis by (auto simp: pauses_Suc min_def)
  qed
qed (simp add: pauses_def)

text \<open>
  C24. A retry loop of \<open>startBucket\<close> or \<open>setUpEventingApp\<close> returns exactly if some attempt succeeds. If
  the first \<open>k\<close> attempts fail and the next one succeeds, it returns what that one gave after \<open>k\<close> pauses
  of 1, 2, 4 and then always 8 seconds: \<open>2 ^ k - 1\<close> seconds up to three failures, \<open>8 * k - 17\<close> from there on.
\<close>

theorem retry_returns:
  "((\<exists>y. retry first again s = Some y) \<longleftrightarrow> (\<exists>k. fst (attempt first again s k) \<noteq> None)) \<and>
   (\<forall>k b. failing first again s k \<and> fst (attempt first again s k) = Some b \<longrightarrow>
      (\<exists>slept. retry first again s = Some (b, slept, snd (attempt first again s k)) \<and> list_all (\<lambda>p. 1 \<le> p \<and> p \<le> 8) slept \<and>
         length slept = k \<and> sum_list slept = (if k \<le> 3 then 2 ^ k - 1 else 8 * int k - 17)))"
proof (intro conjI allI impI iffI)
  assume "\<exists>y. retry first again s = Some y"
  then obtain y where "retry_loop again (fst (first s)) (snd (first s)) 1 [] = Some y" unfolding retry_def ..
  from retry_loop_attempts [OF this] show "\<exists>k. fst (attempt first again s k) \<noteq> None"
    using attempt_shift [of again first s] attempt.simps(1) [of first again s] by metis
next
  assume "\<exists>k. fst (attempt first again s k) \<noteq> None"
  then show "\<exists>y. retry first again s = Some y" using first_success retry_success by metis
next
  fix k b assume k: "failing first again s k \<and> fst (attempt first again s k) = Some b"
  show "\<exists>slept. retry first again s = Some (b, slept, snd (attempt first again s k)) \<and> list_all (\<lambda>p. 1 \<le> p \<and> p \<le> 8) slept \<and>
      length slept = k \<and> sum_list slept = (if k \<le> 3 then 2 ^ k - 1 else 8 * int k - 17)"
    using retry_success [of first again s k b] k pauses_sum [of k]
    by (intro exI [of _ "pauses k"]) (auto simp: pauses_def list_all_iff)
qed

text \<open>A server that is there from the fourth attempt on.\<close>

theorem retry_returns_witness:
  "\<exists>slept. retry (\<lambda>n :: nat. (if n < 3 then None else Some ''bucket'', n + 1)) (\<lambda>n. (if n < 3 then None else Some ''bucket'', n + 1)) 0
     = Some (''bucket'', slept, 4) \<and> sum_list slept = 7"
proof -
  let ?c = "\<lambda>n :: nat. (if n < 3 then None else Some ''bucket'', n + 1)"
  have a: "attempt ?c ?c 0 k = (if k < 3 then None else Some ''bucket'', Suc k)" for k by (induction k) auto
  have "failing ?c ?c 0 3 \<and> fst (attempt ?c ?c 0 3) = Some ''bucket''" unfolding failing_def a by simp
  then show ?thesis using conjunct2 [OF retry_returns [of ?c ?c 0], THEN spec, THEN spec, THEN mp, of 3 "''bucket''"] unfolding a by auto
qed

section \<open>The streams that are asked for\<close>

lemma vbnos_loop_eq: "0 \<le> i \<Longrightarrow> vbnos_loop i m vbnos = vbnos @ map word_of_nat [nat i..<nat m]"
proof (induction i m vbnos rule: vbnos_loop.induct)
  case (1 i m vbnos)
  show ?case
  proof (cases "i < m")
    case True
    then have "[nat i..<nat m] = nat i # [nat (i + 1)..<nat m]" using 1(2) by (simp add: upt_conv_Cons nat_add_distrib)
    then show ?thesis using True 1 by (subst vbnos_loop.simps) simp
  next
    case False
    then show ?thesis by (subst vbnos_loop.simps) simp
  qed
qed

lemma listOfVbnos_eq: "0 \<le> m \<Longrightarrow> listOfVbnos m = Inr (map word_of_nat [0..<nat m])"
  by (simp add: listOfVbnos_def vbnos_loop_eq)

lemma vbnos_set: "0 \<le> m \<Longrightarrow> \<exists>vbnos. listOfVbnos m = Inr vbnos \<and> vbnos = map word_of_nat [0..<nat m] \<and> set vbnos = {v. unat v < nat m}"
proof -
  assume "0 \<le> m"
  let ?l = "map word_of_nat [0..<nat m] :: 16 word list"
  have "set ?l = {v. unat v < nat m}"
  proof (intro set_eqI iffI)
    fix v assume "v \<in> set ?l"
    then obtain i where i: "i < nat m" "v = word_of_nat i" by auto
    have "unat v \<le> i" unfolding i(2) unat_of_nat by simp
    then show "v \<in> {v. unat v < nat m}" using i(1) by simp
  next
    fix v :: "16 word" assume "v \<in> {v. unat v < nat m}"
    then have "word_of_nat (unat v) \<in> set ?l" by (simp only: set_map set_upt) (intro imageI, simp)
    then show "v \<in> set ?l" by (simp only: of_nat_unat ucast_id)
  qed
  then show ?thesis using listOfVbnos_eq [OF \<open>0 \<le> m\<close>] by auto
qed

text \<open>
  \<open>listOfVbnos\<close> lists every vbucket number below its argument, in order and once, as long as the numbers
  fit 16 bits; above 65536 they wrap around and vbuckets are listed twice. A negative \<open>-maxvb\<close> panics.
\<close>

theorem listOfVbnos_correct:
  "if m < 0 then listOfVbnos m = Inl (Go_panic ''makeslice: cap out of range'')
   else (\<exists>vbnos. listOfVbnos m = Inr vbnos \<and> map unat vbnos = map (\<lambda>i. i mod 65536) [0..<nat m] \<and>
     set vbnos = {v. unat v < nat m} \<and> (distinct vbnos \<longleftrightarrow> m \<le> 65536))"
proof (cases "m < 0")
  case True
  then show ?thesis by (simp add: listOfVbnos_def)
next
  case False
  let ?l = "map word_of_nat [0..<nat m] :: 16 word list"
  have unats: "map unat ?l = map (\<lambda>i. i mod 65536) [0..<nat m]" by (simp add: unat_of_nat)
  have "set ?l = {v. unat v < nat m}" using vbnos_set [of m] False by auto
  moreover have "distinct ?l \<longleftrightarrow> m \<le> 65536"
  proof
    assume "distinct ?l"
    then have "distinct (map unat ?l)" unfolding distinct_map [of unat ?l] by (simp add: inj_on_def word_unat_eq_iff [symmetric] del: set_map)
    then have "card (set (map unat ?l)) = nat m" using distinct_card by fastforce
    moreover have "card (set (map unat ?l)) \<le> card {0..<65536 :: nat}" unfolding unats by (intro card_mono) auto
    ultimately show "m \<le> 65536" by simp
  next
    assume "m \<le> 65536"
    then have "map unat ?l = [0..<nat m]" unfolding unats by (intro nth_equalityI) auto
    then show "distinct ?l" by (metis distinct_map distinct_upt)
  qed
  ultimately show ?thesis using False listOfVbnos_eq [of m] unats by auto
qed

text \<open>
  What the library promises: failover logs cover exactly the vbuckets asked for, each with an entry, and
  once.
\<close>

definition logs_complete :: "('s, 'b, 'f) dcp_library \<Rightarrow> bool" where
  "logs_complete D \<longleftrightarrow> (\<forall>b vbnos s flogs s'. GetFailoverLogs D b vbnos s = (Some flogs, s') \<longrightarrow>
     distinct (map fst flogs) \<and> set (map fst flogs) = set vbnos \<and> list_all (\<lambda>(v, flog). flog \<noteq> []) flogs)"

lemma startDcp_eq:
  "list_all (\<lambda>(v, flog). flog \<noteq> []) flogs \<Longrightarrow>
     \<exists>reqs. startDcp flogs = Inr reqs \<and> map req_vbno reqs = map fst flogs \<and> map req_vbuuid reqs = map (fst \<circ> last \<circ> snd) flogs \<and>
       list_all (\<lambda>r. req_start r = 0 \<and> req_end r = - 1) reqs"
  unfolding startDcp_def by (induction flogs) (auto simp: stream_of_def)

lemma attempt_logs:
  assumes "logs_complete D"
    and "fst (attempt (GetFailoverLogs D b vbnos) (\<lambda>s. GetFailoverLogs D b vbnos (Refresh D b s)) s k) = Some flogs"
  shows "distinct (map fst flogs) \<and> set (map fst flogs) = set vbnos \<and> list_all (\<lambda>(v, flog). flog \<noteq> []) flogs"
proof -
  have ok: "distinct (map fst flogs) \<and> set (map fst flogs) = set vbnos \<and> list_all (\<lambda>(v, flog). flog \<noteq> []) flogs"
    if "fst (GetFailoverLogs D b vbnos s') = Some flogs" for s'
  proof -
    have "GetFailoverLogs D b vbnos s' = (Some flogs, snd (GetFailoverLogs D b vbnos s'))" using that by (simp add: prod_eq_iff)
    then show ?thesis using assms(1) unfolding logs_complete_def by blast
  qed
  show ?thesis using assms(2) by (cases k) (simp_all only: attempt.simps ok)
qed

text \<open>
  C25. If connecting, fetching the failover logs and opening the feed each succeed at some attempt,
  \<open>startBucket\<close> gets to its loop, having asked for a stream of every vbucket below \<open>-maxvb\<close> exactly
  once, each over all sequence numbers.
\<close>

theorem startBucket_streams:
  assumes "logs_complete D" and "0 \<le> m"
    and connects: "failing (ConnectBucket D cl bn) (ConnectBucket D cl bn) s k1" "attempt (ConnectBucket D cl bn) (ConnectBucket D cl bn) s k1 = (Some b, s1)"
    and logs: "\<And>vbnos. fst (attempt (GetFailoverLogs D b vbnos) (\<lambda>s. GetFailoverLogs D b vbnos (Refresh D b s)) s1 k2) \<noteq> None"
    and feeds: "\<And>s. fst (attempt (StartDcpFeedOver D b) (StartDcpFeedOver D b) s k3) \<noteq> None"
  shows "\<exists>feed reqs slept s'. startBucket D m cl bn s = Some (Inr (feed, reqs, slept, s')) \<and>
     distinct (map req_vbno reqs) \<and> set (map req_vbno reqs) = {v. unat v < nat m} \<and>
     list_all (\<lambda>r. req_start r = 0 \<and> req_end r = - 1) reqs"
proof -
  obtain vbnos where v: "listOfVbnos m = Inr vbnos" "set vbnos = {v. unat v < nat m}"
    using vbnos_set [OF assms(2)] by blast
  let ?logs = "GetFailoverLogs D b vbnos" and ?again = "\<lambda>s. GetFailoverLogs D b vbnos (Refresh D b s)"
  from logs [of vbnos] obtain j2 flogs where 2: "failing ?logs ?again s1 j2" "fst (attempt ?logs ?again s1 j2) = Some flogs"
    by (rule first_success)
  let ?s2 = "snd (attempt ?logs ?again s1 j2)"
  from feeds [of ?s2] obtain j3 feed where 3: "failing (StartDcpFeedOver D b) (StartDcpFeedOver D b) ?s2 j3"
    "fst (attempt (StartDcpFeedOver D b) (StartDcpFeedOver D b) ?s2 j3) = Some feed"
    by (rule first_success)
  note flogs = attempt_logs [OF assms(1) 2(2)]
  from flogs obtain reqs where r: "startDcp flogs = Inr reqs" "map req_vbno reqs = map fst flogs"
    "list_all (\<lambda>r. req_start r = 0 \<and> req_end r = - 1) reqs"
    using startDcp_eq by blast
  have "retry (ConnectBucket D cl bn) (ConnectBucket D cl bn) s = Some (b, pauses k1, s1)"
    using retry_success [OF connects(1), of b] connects(2) by simp
  then obtain slept s' where st: "startBucket D m cl bn s = Some (Inr (feed, reqs, slept, s'))"
    using retry_success [OF 2] retry_success [OF 3] v(1) r(1) by (simp add: startBucket_def)
  have "distinct (map req_vbno reqs)" "set (map req_vbno reqs) = {v. unat v < nat m}"
    unfolding r(2) using flogs v(2) by blast+
  then show ?thesis using r(3) st by blast
qed

text \<open>A library that fails once with each call.\<close>

definition ref_dcp :: "(nat, string, nat) dcp_library" where
  "ref_dcp = \<lparr>ConnectBucket = (\<lambda>cl b n. (if n = 0 then None else Some b, n + 1)),
     GetFailoverLogs = (\<lambda>b vbnos n. (if n < 3 then None else Some (map (\<lambda>v. (v, [(7, 0)])) (remdups vbnos)), n + 1)),
     Refresh = (\<lambda>b n. n), StartDcpFeedOver = (\<lambda>b n. (Some n, n + 1))\<rparr>"

theorem startBucket_streams_witness:
  "\<exists>feed reqs slept s'. startBucket ref_dcp 1024 ''localhost:9000'' ''default'' 0 = Some (Inr (feed, reqs, slept, s')) \<and>
     distinct (map req_vbno reqs) \<and> set (map req_vbno reqs) = {v. unat v < 1024}"
proof -
  let ?c = "ConnectBucket ref_dcp ''localhost:9000'' ''default''"
  have 1: "logs_complete ref_dcp"
    by (auto simp: logs_complete_def ref_dcp_def list_all_iff comp_def image_image split: if_splits)
  have 2: "failing ?c ?c 0 1" "attempt ?c ?c 0 1 = (Some ''default'', 2)" by (simp_all add: failing_def ref_dcp_def)
  have 3: "fst (attempt (GetFailoverLogs ref_dcp b vbnos) (\<lambda>s. GetFailoverLogs ref_dcp b vbnos (Refresh ref_dcp b s)) 2 1) \<noteq> None"
    for b vbnos by (simp add: ref_dcp_def)
  have 4: "fst (attempt (StartDcpFeedOver ref_dcp b) (StartDcpFeedOver ref_dcp b) s 0) \<noteq> None" for b s
    by (simp add: ref_dcp_def)
  have "\<exists>feed reqs slept s'. startBucket ref_dcp 1024 ''localhost:9000'' ''default'' 0 = Some (Inr (feed, reqs, slept, s')) \<and>
     distinct (map req_vbno reqs) \<and> set (map req_vbno reqs) = {v. unat v < nat 1024} \<and>
     list_all (\<lambda>r. req_start r = 0 \<and> req_end r = - 1) reqs"
    using 1 _ 2 3 4 by (rule startBucket_streams) simp
  then show ?thesis unfolding nat_numeral by blast
qed

end
