(* ===== verification/Lifetime.thy ===== *)
theory Lifetime
  imports Delivery "HOL-Library.Multiset"
begin

text \<open>
  What a worker acquires and releases: the connections that the constructors of worker.cc, bucket.cc,
  n1ql.cc and queue.cc open, the destructors that would close them, \<open>WorkerDispose\<close>, and the memory that
  \<open>ArrayBufferAllocator\<close> of worker.h gives to V8. The lemmas count what is opened, what a worker can
  still reach, and what is left open when it is disposed of.
\<close>

section \<open>Connections\<close>

text \<open>
  An lcb handle is named by its connection string as elsewhere, a redis context by the queue that owns
  it. The open connections of the process are a multiset: two handles to one bucket are two connections.
\<close>

datatype connection = LcbConn string | RedisConn string

definition Bucket_conn :: "Bucket \<Rightarrow> connection" where
  "Bucket_conn b = LcbConn (bucket_lcb_obj b)"

definition N1QL_conn :: "N1QL \<Rightarrow> connection" where
  "N1QL_conn n = LcbConn (n1ql_lcb_obj n)"

definition Queue_conn :: "Queue \<Rightarrow> connection" where
  "Queue_conn q = RedisConn (queue_name q)"

text \<open>
  The connections that the loops of the constructor open for one component, in their order: one for each
  bucket, one for a query object whatever the component is, one for each queue.
\<close>

definition component_opens :: "deployment_config \<Rightarrow> string \<times> (string, string list) std_map \<Rightarrow> connection list" where
  "component_opens cfg = (\<lambda>(first, second).
     (if first = ''buckets''
      then map (\<lambda>(al, info). Bucket_conn (Bucket_new (metadata_connstr cfg) (c_str (info ! 0)) (c_str (source_endpoint cfg)) (c_str al))) second
      else [])
     @ [N1QL_conn (N1QL_new (c_str (source_bucket cfg)) (c_str (source_endpoint cfg)) ''_n1ql'')]
     @ (if first = ''queue'' then map (\<lambda>(provider, info). RedisConn (c_str (c_str (info ! 3)))) second else []))"

definition Worker_opens :: "deployment_config \<Rightarrow> connection list" where
  "Worker_opens cfg = concat (map (component_opens cfg) (component_configs cfg)) @ [LcbConn (metadata_connstr cfg)]"

text \<open>The connections that the members of a worker lead to.\<close>

definition Worker_holds :: "('h, 'v) Worker \<Rightarrow> connection list" where
  "Worker_holds w =
     (case bucket_handle w of Ptr b \<Rightarrow> [Bucket_conn b] | _ \<Rightarrow> [])
     @ (case n1ql_handle w of Ptr n \<Rightarrow> [N1QL_conn n] | _ \<Rightarrow> [])
     @ (case queue_handle w of Ptr q \<Rightarrow> [Queue_conn q] | _ \<Rightarrow> [])
     @ [LcbConn (cb_instance w)]"

text \<open>The destructors. That of the worker resets persistent handles and deletes none of the three objects.\<close>

definition Bucket_destroy :: "Bucket \<Rightarrow> connection multiset \<Rightarrow> connection multiset" where
  "Bucket_destroy b conns = conns - {#Bucket_conn b#}"

definition N1QL_destroy :: "N1QL \<Rightarrow> connection multiset \<Rightarrow> connection multiset" where
  "N1QL_destroy n conns = conns - {#N1QL_conn n#}"

definition Queue_destroy :: "Queue \<Rightarrow> connection multiset \<Rightarrow> connection multiset" where
  "Queue_destroy q conns = conns - {#Queue_conn q#}"

definition Worker_destroy :: "('h, 'v) Worker \<Rightarrow> connection multiset \<Rightarrow> ('h, 'v) Worker \<times> connection multiset" where
  "Worker_destroy w conns = (w\<lparr>on_delete := None, on_update := None\<rparr>, conns)"

text \<open>\<open>worker_new\<close> and \<open>worker_dispose\<close> with the connections of the process.\<close>

definition worker_new_conns ::
  "('h, 'v, 's, 'r, 'm) libs \<Rightarrow> int \<Rightarrow> string \<Rightarrow> ('s, 'r, 'm) world \<times> connection multiset
     \<Rightarrow> (('h, 'v) Worker \<times> ('s, 'r, 'm) world \<times> connection multiset) result" where
  "worker_new_conns L i app = (\<lambda>(x, conns).
     res_bind (Worker_new L i app x) (\<lambda>(w, x').
     res_bind (ParseDeployment (lib_json L) (lib_files L) app) (\<lambda>cfg.
       Inr (w, x', conns + mset (Worker_opens cfg)))))"

definition WorkerDispose :: "('h, 'v) Worker \<Rightarrow> connection multiset \<Rightarrow> ('h, 'v) c_worker \<times> connection multiset" where
  "WorkerDispose w conns = (Disposed w, conns)"

fun deploy_cycles ::
  "('h, 'v, 's, 'r, 'm) libs \<Rightarrow> int \<Rightarrow> string \<Rightarrow> nat \<Rightarrow> ('s, 'r, 'm) world \<times> connection multiset
     \<Rightarrow> (('s, 'r, 'm) world \<times> connection multiset) result" where
  "deploy_cycles L i app 0 st = Inr st"
| "deploy_cycles L i app (Suc n) st =
     res_bind (worker_new_conns L i app st) (\<lambda>(w, x', conns).
       deploy_cycles L i app n (x', snd (WorkerDispose w conns)))"

section \<open>Memory for V8\<close>

text \<open>
  \<open>malloc\<close> gives a block with arbitrary contents, or none; \<open>memset\<close> past the end of a block is an
  overrun.
\<close>

definition memset :: "8 word list \<Rightarrow> 8 word \<Rightarrow> nat \<Rightarrow> 8 word list result" where
  "memset block c n = (if n \<le> length block then Inr (replicate n c @ drop n block) else Inl Buffer_overrun)"

definition AllocateUninitialized :: "(nat \<Rightarrow> 8 word list option) \<Rightarrow> nat \<Rightarrow> 8 word list option" where
  "AllocateUninitialized malloc n = malloc n"

definition Allocate :: "(nat \<Rightarrow> 8 word list option) \<Rightarrow> nat \<Rightarrow> 8 word list option result" where
  "Allocate malloc n =
     (case AllocateUninitialized malloc n of
        None \<Rightarrow> Inr None
      | Some block \<Rightarrow> res_bind (memset block 0 n) (\<lambda>block. Inr (Some block)))"

text \<open>Whatever \<open>malloc\<close> leaves in the block, the bytes asked for are zero, and nothing is written past its end.\<close>

lemma Allocate_zeroed:
  assumes "\<And>n block. malloc n = Some block \<Longrightarrow> n \<le> length block"
  shows "\<exists>r. Allocate malloc n = Inr r \<and> (r = None \<longleftrightarrow> malloc n = None)
    \<and> (\<forall>block. r = Some block \<longrightarrow> length block = length (the (malloc n)) \<and> take n block = replicate n 0)"
  using assms [of n] by (cases "malloc n") (auto simp: Allocate_def AllocateUninitialized_def memset_def)

section \<open>What stays open\<close>

lemma Worker_opens_eq:
  assumes "component_configs cfg = [(''buckets'', bm), (''queue'', qm)]"
  shows "Worker_opens cfg =
     map (\<lambda>(al, info). Bucket_conn (Bucket_new (metadata_connstr cfg) (c_str (info ! 0)) (c_str (source_endpoint cfg)) (c_str al))) bm
     @ [N1QL_conn (N1QL_new (c_str (source_bucket cfg)) (c_str (source_endpoint cfg)) ''_n1ql''),
        N1QL_conn (N1QL_new (c_str (source_bucket cfg)) (c_str (source_endpoint cfg)) ''_n1ql'')]
     @ map (\<lambda>(provider, info). RedisConn (c_str (c_str (info ! 3)))) qm @ [LcbConn (metadata_connstr cfg)]"
  using assms by (simp add: Worker_opens_def component_opens_def)

lemma Worker_new_holds:
  assumes cfg: "ParseDeployment (lib_json L) (lib_files L) app = Inr cfg"
    and comps: "component_configs cfg = [(''buckets'', bm), (''queue'', qm)]"
    and new: "Worker_new L i app x = Inr (w, x')"
  shows "Worker_holds w =
     (if bm = [] then [] else [last (map (\<lambda>(al, info). Bucket_conn (Bucket_new (metadata_connstr cfg) (c_str (info ! 0)) (c_str (source_endpoint cfg)) (c_str al))) bm)])
     @ [N1QL_conn (N1QL_new (c_str (source_bucket cfg)) (c_str (source_endpoint cfg)) ''_n1ql'')]
     @ (if qm = [] then [] else [last (map (\<lambda>(provider, info). RedisConn (c_str (c_str (info ! 3)))) qm)])
     @ [LcbConn (metadata_connstr cfg)]"
proof -
  obtain bh qh where w: "w = (Worker_raw (js_new_context (lib_engine L)) i app)\<lparr>bucket_handle := bh,
        n1ql_handle := Ptr (N1QL_new (c_str (source_bucket cfg)) (c_str (source_endpoint cfg)) ''_n1ql''),
        queue_handle := qh, cb_instance := metadata_connstr cfg\<rparr>"
    and bh: "bh = (if bm = [] then Indeterminate
            else Ptr (Bucket_new (metadata_connstr cfg) (c_str (snd (last bm) ! 0)) (c_str (source_endpoint cfg)) (c_str (fst (last bm)))))"
    and q0: "qm = [] \<longrightarrow> qh = Indeterminate"
    and q1: "qm \<noteq> [] \<longrightarrow> (\<exists>q. qh = Ptr q \<and> Queue_wf q \<and> queue_alias q = c_str (snd (last qm) ! 2) \<and> queue_name q = c_str (snd (last qm) ! 3))"
    using Worker_new_shape [OF cfg comps new] by blast
  have "(case qh of Ptr q \<Rightarrow> [Queue_conn q] | _ \<Rightarrow> [])
      = (if qm = [] then [] else [last (map (\<lambda>(provider, info). RedisConn (c_str (c_str (info ! 3)))) qm)])"
    using q0 q1 by (auto simp: Queue_conn_def last_map split: prod.splits)
  then show ?thesis by (auto simp: Worker_holds_def w bh last_map split: prod.splits)
qed

lemma last_in_mset: "xs \<noteq> [] \<Longrightarrow> {#last xs#} + mset (butlast xs) = mset xs"
  by (metis append_butlast_last_id mset_append mset_single_iff_right union_commute mset.simps)

text \<open>
  The constructor opens one connection for every configured bucket and queue, two for queries and
  one for the metadata bucket. The new worker can still reach at most four of them: all but the last
  bucket, the first query object and all but the last queue are lost. Running every destructor
  that the sources have on what the worker holds would close three, never the metadata connection.
\<close>

theorem worker_connections:
  assumes cfg: "ParseDeployment (lib_json L) (lib_files L) app = Inr cfg" and new: "Worker_new L i app x = Inr (w, x')"
  shows "\<exists>bm qm. component_configs cfg = [(''buckets'', bm), (''queue'', qm)]
    \<and> length (Worker_opens cfg) = length bm + length qm + 3
    \<and> mset (Worker_holds w) \<subseteq># mset (Worker_opens cfg)
    \<and> size (mset (Worker_opens cfg) - mset (Worker_holds w)) = (length bm - 1) + 1 + (length qm - 1)
    \<and> (\<forall>b n q. bucket_handle w = Ptr b \<and> n1ql_handle w = Ptr n \<and> queue_handle w = Ptr q \<longrightarrow>
         size (Queue_destroy q (N1QL_destroy n (Bucket_destroy b (snd (Worker_destroy w (mset (Worker_opens cfg))))))) = length bm + length qm)"
proof -
  obtain bm qm where c: "component_configs cfg = [(''buckets'', bm), (''queue'', qm)]"
    using ParseDeployment_components [OF cfg] by blast
  define bs qs n m where "bs = map (\<lambda>(al, info). Bucket_conn (Bucket_new (metadata_connstr cfg) (c_str (info ! 0)) (c_str (source_endpoint cfg)) (c_str al))) bm"
    and "qs = map (\<lambda>(provider, info). RedisConn (c_str (c_str (info ! 3)))) (qm :: (string \<times> string list) list)"
    and "n = N1QL_conn (N1QL_new (c_str (source_bucket cfg)) (c_str (source_endpoint cfg)) ''_n1ql'')"
    and "m = LcbConn (metadata_connstr cfg)"
  have o: "Worker_opens cfg = bs @ [n, n] @ qs @ [m]" by (simp add: Worker_opens_eq [OF c] bs_def qs_def n_def m_def)
  have h: "Worker_holds w = (if bs = [] then [] else [last bs]) @ [n] @ (if qs = [] then [] else [last qs]) @ [m]"
    unfolding Worker_new_holds [OF cfg c new] by (simp add: bs_def qs_def n_def m_def)
  have "mset (Worker_opens cfg) = mset (Worker_holds w) + (mset (butlast bs) + {#n#} + mset (butlast qs))"
    unfolding o h using last_in_mset [of bs] last_in_mset [of qs] by (cases "bs = []"; cases "qs = []") (auto simp: ac_simps)
  note split = this
  have lens: "length bs = length bm" "length qs = length qm" by (simp_all add: bs_def qs_def)
  have "size (Queue_destroy q (N1QL_destroy n' (Bucket_destroy b (snd (Worker_destroy w (mset (Worker_opens cfg))))))) = length bm + length qm"
    if "bucket_handle w = Ptr b \<and> n1ql_handle w = Ptr n' \<and> queue_handle w = Ptr q" for b n' q
  proof -
    let ?held = "{#Queue_conn q, N1QL_conn n', Bucket_conn b#}"
    have "mset (Worker_holds w) = ?held + {#LcbConn (cb_instance w)#}" using that by (simp add: Worker_holds_def)
    then have "?held \<subseteq># mset (Worker_opens cfg)" unfolding split by (simp add: mset_subset_eq_add_left subset_mset.add_increasing2)
    then have "size (mset (Worker_opens cfg) - ?held) = length (Worker_opens cfg) - 3" by (simp add: size_Diff_submset)
    then show ?thesis by (simp add: Queue_destroy_def N1QL_destroy_def Bucket_destroy_def Worker_destroy_def o lens)
  qed
  then show ?thesis using c o split lens by (intro exI [of _ bm] exI [of _ qm]) simp
qed

theorem worker_connections_witness:
  "\<exists>w x cfg. Worker_new (ref_libs ends_quietly) 0 ''app1'' ref_world = Inr (w, x) \<and> length (Worker_opens cfg) = 6
    \<and> size (mset (Worker_opens cfg) - mset (Worker_holds w)) = 2"
proof -
  obtain w x where new: "Worker_new (ref_libs ends_quietly) 0 ''app1'' ref_world = Inr (w, x)" using ref_Worker_new by blast
  obtain cfg where cfg: "ParseDeployment (lib_json (ref_libs ends_quietly)) (lib_files (ref_libs ends_quietly)) ''app1'' = Inr cfg"
    and comps: "component_configs cfg = [(''buckets'', [(''beers'', [''beer'', ''beers'']), (''credit'', [''default'', ''credit''])]),
      (''queue'', [(''redis'', [''redis'', ''127.0.0.1:6379'', ''orders'', ''order_queue''])])]"
    using ref_ParseDeployment by fastforce
  show ?thesis using worker_connections [OF cfg new] comps new by (intro exI [of _ w] exI [of _ x] exI [of _ cfg]) auto
qed

text \<open>
  Disposing of a worker closes nothing: after any number of workers were made and disposed of, every
  connection they opened is still open, one for each bucket and queue and three more each time.
\<close>

theorem dispose_closes_nothing:
  assumes cfg: "ParseDeployment (lib_json L) (lib_files L) app = Inr cfg"
    and run: "deploy_cycles L i app n (x, conns) = Inr (x', conns')"
  shows "conns' = conns + repeat_mset n (mset (Worker_opens cfg))"
  using run
proof (induction n arbitrary: x conns)
  case 0
  then show ?case by simp
next
  case (Suc n)
  from Suc.prems obtain x1 where "deploy_cycles L i app n (x1, conns + mset (Worker_opens cfg)) = Inr (x', conns')"
    by (auto simp: worker_new_conns_def WorkerDispose_def cfg res_bind_eq_Inr_iff)
  from Suc.IH [OF this] show ?case by simp
qed

lemma deploy_cycles_total:
  assumes "\<And>x. \<exists>w x'. Worker_new L i app x = Inr (w, x')"
  shows "\<exists>x' conns'. deploy_cycles L i app n (x, conns) = Inr (x', conns')"
proof (induction n arbitrary: x conns)
  case (Suc n)
  obtain w x1 where w: "Worker_new L i app x = Inr (w, x1)" using assms by blast
  then obtain cfg where "ParseDeployment (lib_json L) (lib_files L) app = Inr cfg"
    by (auto simp: Worker_new_def res_bind_eq_Inr_iff)
  then show ?case using Suc w by (simp add: worker_new_conns_def WorkerDispose_def)
qed simp

theorem dispose_closes_nothing_witness:
  "\<exists>x' conns. deploy_cycles (ref_libs ends_quietly) 0 ''app1'' 3 (ref_world, {#}) = Inr (x', conns) \<and> size conns = 18"
proof -
  let ?L = "ref_libs ends_quietly"
  obtain cfg where cfg: "ParseDeployment (lib_json ?L) (lib_files ?L) ''app1'' = Inr cfg"
    and comps: "component_configs cfg = [(''buckets'', [(''beers'', [''beer'', ''beers'']), (''credit'', [''default'', ''credit''])]),
      (''queue'', [(''redis'', [''redis'', ''127.0.0.1:6379'', ''orders'', ''order_queue''])])]"
    using ref_ParseDeployment by fastforce
  obtain x' conns where run: "deploy_cycles ?L 0 ''app1'' 3 (ref_world, {#}) = Inr (x', conns)"
    using deploy_cycles_total ref_Worker_new_any by blast
  show ?thesis using dispose_closes_nothing [OF cfg run] run by (simp add: Worker_opens_eq [OF comps])
qed

end
