(* ===== verification/GoJson.thy ===== *)
theory GoJson
  imports GoLib
begin

text \<open>
  \<open>json.Unmarshal\<close> of the Go library, as far as the sources use it: a JSON text decoded into a struct whose
  fields are strings (src/go_eventing/communication_protocol.go and the static assets of http_handlers.go).
  The lemmas show that decoding gives back what \<open>json.Marshal\<close> was given, with the bytes outside UTF-8 replaced.
\<close>

section \<open>Strings\<close>

definition REPLACEMENT :: string where
  "REPLACEMENT = [CHR 0xEF, CHR 0xBF, CHR 0xBD]"

definition utf8_encode :: "nat \<Rightarrow> string" where
  "utf8_encode u =
     map char_of
       (if u < 0x80 then [u]
        else if u < 0x800 then [0xC0 + u div 64, 0x80 + u mod 64]
        else if u < 0x10000 then [0xE0 + u div 4096, 0x80 + u div 64 mod 64, 0x80 + u mod 64]
        else [0xF0 + u div 262144, 0x80 + u div 4096 mod 64, 0x80 + u div 64 mod 64, 0x80 + u mod 64])"

definition hex_value :: "char \<Rightarrow> nat option" where
  "hex_value c =
     (let n = of_char c
      in if 48 \<le> n \<and> n \<le> 57 then Some (n - 48)
         else if 97 \<le> n \<and> n \<le> 102 then Some (n - 87)
         else if 65 \<le> n \<and> n \<le> 70 then Some (n - 55)
         else None)"

fun hex4 :: "string \<Rightarrow> (nat \<times> string) option" where
  "hex4 (a # b # c # d # s) =
     (case (hex_value a, hex_value b, hex_value c, hex_value d) of
        (Some i, Some j, Some k, Some l) \<Rightarrow> Some (4096 * i + 256 * j + 16 * k + l, s)
      | _ \<Rightarrow> None)"
| "hex4 _ = None"

definition simple_escape :: "char \<Rightarrow> char option" where
  "simple_escape c =
     map_of [(CHR ''\"'', CHR ''\"''), (CHR 0x5C, CHR 0x5C), (CHR ''/'', CHR ''/''), (CHR ''b'', CHR 0x08), (CHR ''f'', CHR 0x0C),
             (CHR ''n'', CHR 0x0A), (CHR ''r'', CHR 0x0D), (CHR ''t'', CHR 0x09)] c"

text \<open>
  The unit of an escape \<open>\u\<close> whose four digits have been read: a high surrogate followed by the escape of a low one is
  one character of both, and a surrogate that stands alone is replaced.
\<close>

definition decode_unit :: "nat \<Rightarrow> string \<Rightarrow> string \<times> string" where
  "decode_unit u s =
     (if u < 0xD800 \<or> 0xDFFF < u then (utf8_encode u, s)
      else case s of
             x # y # t \<Rightarrow>
               (case if x = CHR 0x5C \<and> y = CHR ''u'' then hex4 t else None of
                  Some (v, t') \<Rightarrow>
                    if u < 0xDC00 \<and> 0xDC00 \<le> v \<and> v \<le> 0xDFFF
                    then (utf8_encode (0x10000 + (u - 0xD800) * 0x400 + (v - 0xDC00)), t')
                    else (REPLACEMENT, s)
                | None \<Rightarrow> (REPLACEMENT, s))
           | _ \<Rightarrow> (REPLACEMENT, s))"

lemma hex4_length: "hex4 s = Some (u, t) \<Longrightarrow> length s = length t + 4"
  by (cases s rule: hex4.cases) (auto split: option.splits)

lemma decode_unit_length: "decode_unit u s = (x, t) \<Longrightarrow> length t \<le> length s"
  by (auto simp: decode_unit_def dest!: hex4_length split: if_splits list.splits option.splits)

text \<open>The rest of a string after its opening quotation mark: its bytes and what follows the closing one.\<close>

function unquote_string :: "string \<Rightarrow> (string \<times> string) option" where
  "unquote_string [] = None"
| "unquote_string (c # s) =
     (if c = CHR ''\"'' then Some ([], s)
      else if c = CHR 0x5C
      then (case s of
              [] \<Rightarrow> None
            | e # s1 \<Rightarrow>
                if e = CHR ''u''
                then (case hex4 s1 of
                        None \<Rightarrow> None
                      | Some (u, s2) \<Rightarrow> map_option (apfst (append (fst (decode_unit u s2)))) (unquote_string (snd (decode_unit u s2))))
                else (case simple_escape e of
                        None \<Rightarrow> None
                      | Some x \<Rightarrow> map_option (apfst (Cons x)) (unquote_string s1)))
      else if of_char c < (32::nat) then None
      else if of_char c < (128::nat) then map_option (apfst (Cons c)) (unquote_string s)
      else let n = utf8_sequence (c # s)
           in if n = 0 then map_option (apfst (append REPLACEMENT)) (unquote_string s)
              else map_option (apfst (append (take n (c # s)))) (unquote_string (drop n (c # s))))"
  by pat_completeness auto
termination
proof (relation "measure length", goal_cases)
  case (2 c s e s1 x2 u s2)
  then have "length (snd (decode_unit u s2)) \<le> length s2" using decode_unit_length [of u s2] by (metis prod.collapse)
  moreover have "length s1 = length s2 + 4" using 2 hex4_length by fastforce
  ultimately show ?case using 2 by simp
qed auto

declare unquote_string.simps [simp del]

section \<open>Values\<close>

definition skip_ws :: "string \<Rightarrow> string" where
  "skip_ws = dropWhile (\<lambda>c. c \<in> {CHR '' '', CHR 0x09, CHR 0x0A, CHR 0x0D})"

fun expect_char :: "char \<Rightarrow> string \<Rightarrow> string option" where
  "expect_char c [] = None"
| "expect_char c (x # s) = (if x = c then Some s else None)"

text \<open>A number: sign, integer part without leading zeros, fraction, exponent.\<close>

definition digits_of :: "string \<Rightarrow> (string \<times> string) option" where
  "digits_of s = (let d = takeWhile is_digit s in if d = [] then None else Some (d, drop (length d) s))"

definition sign_part :: "string \<Rightarrow> string \<times> string" where
  "sign_part s = (case expect_char (CHR ''-'') s of Some t \<Rightarrow> (''-'', t) | None \<Rightarrow> ([], s))"

definition integer_part :: "string \<Rightarrow> (string \<times> string) option" where
  "integer_part s = (case expect_char (CHR ''0'') s of Some t \<Rightarrow> Some (''0'', t) | None \<Rightarrow> digits_of s)"

definition fraction_part :: "string \<Rightarrow> (string \<times> string) option" where
  "fraction_part s =
     (case expect_char (CHR ''.'') s of Some t \<Rightarrow> map_option (apfst (Cons (CHR ''.''))) (digits_of t) | None \<Rightarrow> Some ([], s))"

definition exponent_part :: "string \<Rightarrow> (string \<times> string) option" where
  "exponent_part s =
     (case s of
        [] \<Rightarrow> Some ([], [])
      | e # t \<Rightarrow>
          if e = CHR ''e'' \<or> e = CHR ''E''
          then (case t of
                  c # u \<Rightarrow> if c = CHR ''+'' \<or> c = CHR ''-'' then map_option (apfst (\<lambda>d. e # c # d)) (digits_of u)
                           else map_option (apfst (Cons e)) (digits_of t)
                | [] \<Rightarrow> None)
          else Some ([], s))"

definition json_number :: "string \<Rightarrow> (json \<times> string) option" where
  "json_number s =
     Option.bind (integer_part (snd (sign_part s))) (\<lambda>(i, s1).
     Option.bind (fraction_part s1) (\<lambda>(f, s2).
     Option.bind (exponent_part s2) (\<lambda>(e, s3). Some (JReal (fst (sign_part s) @ i @ f @ e), s3))))"

definition json_word :: "string \<Rightarrow> json \<Rightarrow> string \<Rightarrow> (json \<times> string) option" where
  "json_word w v s = (if take (length w) s = w then Some (v, drop (length w) s) else None)"

text \<open>
  The grammar. The fuel bounds the nesting and the number of members; a text never needs more than twice
  its length.
\<close>

fun json_value :: "nat \<Rightarrow> string \<Rightarrow> (json \<times> string) option"
  and json_members :: "nat \<Rightarrow> string \<Rightarrow> ((string \<times> json) list \<times> string) option"
  and json_items :: "nat \<Rightarrow> string \<Rightarrow> (json list \<times> string) option" where
  "json_value 0 s = None"
| "json_value (Suc n) s =
     (case skip_ws s of
        [] \<Rightarrow> None
      | c # t \<Rightarrow>
          if c = CHR ''\"'' then map_option (apfst JStr) (unquote_string t)
          else if c = CHR ''{''
          then (case expect_char (CHR ''}'') (skip_ws t) of
                  Some r \<Rightarrow> Some (JObj [], r)
                | None \<Rightarrow> map_option (apfst JObj) (json_members n t))
          else if c = CHR ''[''
          then (case expect_char (CHR '']'') (skip_ws t) of
                  Some r \<Rightarrow> Some (JArr [], r)
                | None \<Rightarrow> map_option (apfst JArr) (json_items n t))
          else if c = CHR ''t'' then json_word ''true'' (JBool True) (c # t)
          else if c = CHR ''f'' then json_word ''false'' (JBool False) (c # t)
          else if c = CHR ''n'' then json_word ''null'' JNull (c # t)
          else json_number (c # t))"
| "json_members 0 s = None"
| "json_members (Suc n) s =
     Option.bind (expect_char (CHR ''\"'') (skip_ws s)) (\<lambda>t.
     Option.bind (unquote_string t) (\<lambda>(k, t1).
     Option.bind (expect_char (CHR '':'') (skip_ws t1)) (\<lambda>t2.
     Option.bind (json_value n t2) (\<lambda>(v, t3).
       case expect_char (CHR '','') (skip_ws t3) of
         Some t4 \<Rightarrow> map_option (apfst (Cons (k, v))) (json_members n t4)
       | None \<Rightarrow> map_option (Pair [(k, v)]) (expect_char (CHR ''}'') (skip_ws t3))))))"
| "json_items 0 s = None"
| "json_items (Suc n) s =
     Option.bind (json_value n s) (\<lambda>(v, t).
       case expect_char (CHR '','') (skip_ws t) of
         Some t1 \<Rightarrow> map_option (apfst (Cons v)) (json_items n t1)
       | None \<Rightarrow> map_option (Pair [v]) (expect_char (CHR '']'') (skip_ws t)))"

definition json_text :: "string \<Rightarrow> json option" where
  "json_text s = Option.bind (json_value (2 * length s + 2) s) (\<lambda>(v, r). if skip_ws r = [] then Some v else None)"

section \<open>Unmarshal\<close>

text \<open>
  Decoding into a struct of strings with the given JSON names. A key goes to the field of its name, or
  to the first whose name is equal up to case (\<open>EqualFold\<close>); other keys are ignored. Null leaves a field as
  it is, any other value that is not a string is reported and the rest decoded all the same. The
  result has the fields and whether there was an error.
\<close>

definition field_of :: "(string \<Rightarrow> string \<Rightarrow> bool) \<Rightarrow> string list \<Rightarrow> string \<Rightarrow> string option" where
  "field_of EqualFold names k = (if k \<in> set names then Some k else find (\<lambda>n. EqualFold n k) names)"

fun set_member ::
  "(string \<Rightarrow> string \<Rightarrow> bool) \<Rightarrow> string list \<Rightarrow> string \<times> json \<Rightarrow> (string \<Rightarrow> string) \<times> bool \<Rightarrow> (string \<Rightarrow> string) \<times> bool" where
  "set_member EqualFold names (k, v) (st, err) =
     (case field_of EqualFold names k of
        None \<Rightarrow> (st, err)
      | Some f \<Rightarrow> (case v of JStr x \<Rightarrow> (st(f := x), err) | JNull \<Rightarrow> (st, err) | _ \<Rightarrow> (st, True)))"

definition Unmarshal ::
  "(string \<Rightarrow> string \<Rightarrow> bool) \<Rightarrow> string list \<Rightarrow> string \<Rightarrow> (string \<Rightarrow> string) \<Rightarrow> (string \<Rightarrow> string) \<times> bool" where
  "Unmarshal EqualFold names text st =
     (case json_text text of
        None \<Rightarrow> (st, True)
      | Some (JObj ms) \<Rightarrow> fold (set_member EqualFold names) ms (st, False)
      | Some JNull \<Rightarrow> (st, False)
      | Some _ \<Rightarrow> (st, True))"

section \<open>The fuel is enough\<close>

lemma skip_ws_length: "length (skip_ws s) \<le> length s"
  by (simp add: skip_ws_def length_dropWhile_le)

lemma skip_ws_Cons_length: "skip_ws s = c # t \<Longrightarrow> length t < length s"
  using skip_ws_length [of s] by simp

lemma unquote_string_length: "unquote_string s = Some (x, r) \<Longrightarrow> length r < length s"
proof (induction s arbitrary: x r rule: unquote_string.induct)
  case 1
  then show ?case by (simp add: unquote_string.simps)
next
  case (2 c s)
  consider "c = CHR ''\"''" | "c = CHR 0x5C" "c \<noteq> CHR ''\"''" | "c \<noteq> CHR ''\"''" "c \<noteq> CHR 0x5C" by blast
  then show ?case
  proof cases
    case 1
    then show ?thesis using 2(6) by (simp add: unquote_string.simps)
  next
    case 2
    note esc = 2
    obtain e s1 where s: "s = e # s1" using esc "2.prems" by (cases s) (auto simp: unquote_string.simps)
    show ?thesis
    proof (cases "e = CHR ''u''")
      case True
      then obtain u s2 where h: "hex4 s1 = Some (u, s2)" using "2.prems" esc s by (cases "hex4 s1") (auto simp: unquote_string.simps)
      obtain y where "unquote_string (snd (decode_unit u s2)) = Some (y, r)"
        using "2.prems" esc True h unfolding s unquote_string.simps(2) by auto
      then have "length r < length (snd (decode_unit u s2))" using "2.IH"(1) esc s True h by blast
      also have "\<dots> \<le> length s2" using decode_unit_length [of u s2] by (metis prod.collapse)
      also have "\<dots> < length (c # s)" using hex4_length [OF h] s by simp
      finally show ?thesis .
    next
      case False
      then obtain z y where z: "simple_escape e = Some z" "unquote_string s1 = Some (y, r)"
        using "2.prems" esc unfolding s unquote_string.simps(2) by (auto split: option.splits)
      then have "length r < length s1" using "2.IH"(2) esc s False by blast
      then show ?thesis by (simp add: s)
    qed
  next
    case 3
    show ?thesis
    proof (cases "of_char c < (128::nat)")
      case True
      then obtain y where "unquote_string s = Some (y, r)" "\<not> of_char c < (32::nat)"
        using "2.prems" 3 by (auto simp: unquote_string.simps(2) [of c s] split: if_splits)
      then show ?thesis using "2.IH"(3) 3 True by fastforce
    next
      case False
      show ?thesis
      proof (cases "utf8_sequence (c # s) = 0")
        case True
        then obtain y where "unquote_string s = Some (y, r)"
          using "2.prems" 3 False by (auto simp: unquote_string.simps(2) [of c s] split: if_splits)
        then show ?thesis using "2.IH"(4) 3 False True by fastforce
      next
        case n: False
        then obtain y where "unquote_string (drop (utf8_sequence (c # s)) (c # s)) = Some (y, r)"
          using "2.prems" 3 False by (auto simp: unquote_string.simps(2) [of c s] Let_def split: if_splits)
        then have "length r < length (drop (utf8_sequence (c # s)) (c # s))" using "2.IH"(5) 3 False n by fastforce
        then show ?thesis by simp
      qed
    qed
  qed
qed

lemma digits_of_length: "digits_of s = Some (d, r) \<Longrightarrow> length r < length s"
proof -
  assume "digits_of s = Some (d, r)"
  then have "takeWhile is_digit s \<noteq> []" "r = drop (length (takeWhile is_digit s)) s"
    by (auto simp: digits_of_def Let_def split: if_splits)
  then show ?thesis by (cases s) (auto split: if_splits)
qed

lemma expect_length: "expect_char c s = Some t \<Longrightarrow> length s = Suc (length t)"
  by (cases s) (auto split: if_splits)

lemma expect_ws_length: "expect_char c (skip_ws s) = Some t \<Longrightarrow> length t < length s"
  using expect_length [of c "skip_ws s" t] skip_ws_length [of s] by simp

lemma number_parts_length:
  "length (snd (sign_part s)) \<le> length s" "integer_part s = Some (d, r) \<Longrightarrow> length r < length s"
  "fraction_part s = Some (d, r) \<Longrightarrow> length r \<le> length s" "exponent_part s = Some (d, r) \<Longrightarrow> length r \<le> length s"
  by (auto simp: sign_part_def integer_part_def fraction_part_def exponent_part_def split: list.splits option.splits if_splits
      dest!: digits_of_length expect_length)

lemma json_number_length: "json_number s = Some (v, r) \<Longrightarrow> length r < length s"
proof -
  assume "json_number s = Some (v, r)"
  then obtain i s1 f s2 e where "integer_part (snd (sign_part s)) = Some (i, s1)" "fraction_part s1 = Some (f, s2)"
    "exponent_part s2 = Some (e, r)"
    by (auto simp: json_number_def bind_eq_Some_conv)
  then show ?thesis using number_parts_length by (meson le_less_trans less_le_trans)
qed

lemma json_word_length: "json_word w v s = Some (x, r) \<Longrightarrow> w \<noteq> [] \<Longrightarrow> length r < length s"
  by (cases s) (auto simp: json_word_def split: if_splits)

lemma json_length:
  "json_value n s = Some (v, r) \<Longrightarrow> length r < length s"
  "json_members n s = Some (ms, r) \<Longrightarrow> length r < length s"
  "json_items n s = Some (xs, r) \<Longrightarrow> length r < length s"
proof (induction n s and n s and n s arbitrary: v r and ms r and xs r rule: json_value_json_members_json_items.induct)
  case (2 n s)
  obtain c t where s: "skip_ws s = c # t" using "2.prems" by (cases "skip_ws s") auto
  have t: "length t < length s" by (rule skip_ws_Cons_length [OF s])
  consider "c = CHR ''\"''" | "c = CHR ''{''" | "c = CHR ''[''" | "c \<notin> {CHR ''\"'', CHR ''{'', CHR ''[''}" by blast
  then show ?case
  proof cases
    case 1
    then show ?thesis using "2.prems" s t unquote_string_length by fastforce
  next
    case 2
    then show ?thesis using "2.prems" s t "2.IH"(1) [OF s] expect_ws_length [of "CHR ''}''" t]
      by (fastforce split: option.splits)
  next
    case 3
    then show ?thesis using "2.prems" s t "2.IH"(2) [OF s] expect_ws_length [of "CHR '']''" t]
      by (fastforce split: option.splits)
  next
    case 4
    then have "length r < length (c # t)"
      using "2.prems" s json_number_length [of "c # t"] json_word_length [of "''true''" _ "c # t"]
        json_word_length [of "''false''" _ "c # t"] json_word_length [of "''null''" _ "c # t"]
      by (auto split: if_splits)
    then show ?thesis using skip_ws_length [of s] s by simp
  qed
next
  case (4 n s)
  from "4.prems" obtain t k t1 t2 v t3 where
    p: "expect_char (CHR ''\"'') (skip_ws s) = Some t" "unquote_string t = Some (k, t1)" "expect_char (CHR '':'') (skip_ws t1) = Some t2"
      "json_value n t2 = Some (v, t3)" "(case expect_char (CHR '','') (skip_ws t3) of
         Some t4 \<Rightarrow> map_option (apfst (Cons (k, v))) (json_members n t4)
       | None \<Rightarrow> map_option (Pair [(k, v)]) (expect_char (CHR ''}'') (skip_ws t3))) = Some (ms, r)"
    by (auto simp: bind_eq_Some_conv)
  have "length t3 < length s"
    using "4.IH"(1) p expect_ws_length unquote_string_length by (metis less_trans prod.collapse)
  moreover have "length r < length t3"
    using p(5) "4.IH"(2) p expect_ws_length [of _ t3] by (fastforce split: option.splits)
  ultimately show ?case by simp
next
  case (6 n s)
  from "6.prems" obtain v t where p: "json_value n s = Some (v, t)" "(case expect_char (CHR '','') (skip_ws t) of
         Some t1 \<Rightarrow> map_option (apfst (Cons v)) (json_items n t1)
       | None \<Rightarrow> map_option (Pair [v]) (expect_char (CHR '']'') (skip_ws t))) = Some (xs, r)"
    by (auto simp: bind_eq_Some_conv)
  have "length t < length s" using "6.IH"(1) p(1) by blast
  moreover have "length r < length t"
    using p "6.IH"(2) expect_ws_length [of _ t] by (fastforce split: option.splits)
  ultimately show ?case by simp
qed simp_all

lemma json_fuel:
  "(\<forall>m s. 2 * length s < n \<longrightarrow> 2 * length s < m \<longrightarrow> json_value n s = json_value m s)
   \<and> (\<forall>m s. 2 * length s + 1 < n \<longrightarrow> 2 * length s + 1 < m \<longrightarrow> json_members n s = json_members m s)
   \<and> (\<forall>m s. 2 * length s + 1 < n \<longrightarrow> 2 * length s + 1 < m \<longrightarrow> json_items n s = json_items m s)"
proof (induction n)
  case 0
  then show ?case by simp
next
  case (Suc n)
  note IH = Suc
  have value_ih: "json_value n t = json_value m t" if "2 * length t < n" "2 * length t < m" for m t using IH that by blast
  have members_ih: "json_members n t = json_members m t" if "2 * length t + 1 < n" "2 * length t + 1 < m" for m t using IH that by blast
  have items_ih: "json_items n t = json_items m t" if "2 * length t + 1 < n" "2 * length t + 1 < m" for m t using IH that by blast
  show ?case
  proof (intro conjI allI impI)
    fix m s assume l: "2 * length s < Suc n" "2 * length (s :: string) < m"
    then obtain k where m: "m = Suc k" by (cases m) auto
    have "json_members n t = json_members k t \<and> json_items n t = json_items k t" if "skip_ws s = c # t" for c t
      using skip_ws_Cons_length [OF that] l m members_ih items_ih by simp
    then show "json_value (Suc n) s = json_value m s" unfolding m by (cases "skip_ws s") (simp_all split: option.split)
  next
    fix m s assume l: "2 * length s + 1 < Suc n" "2 * length (s :: string) + 1 < m"
    then obtain k where m: "m = Suc k" by (cases m) auto
    have v: "json_value n t2 = json_value k t2"
      if "expect_char (CHR ''\"'') (skip_ws s) = Some t" "unquote_string t = Some (x, t1)" "expect_char (CHR '':'') (skip_ws t1) = Some t2" for t x t1 t2
    proof -
      have "length t2 < length s"
        using expect_ws_length [OF that(1)] unquote_string_length [OF that(2)] expect_ws_length [OF that(3)] by simp
      then show ?thesis using l m value_ih by simp
    qed
    have r: "json_members n t4 = json_members k t4"
      if "expect_char (CHR ''\"'') (skip_ws s) = Some t" "unquote_string t = Some (x, t1)" "expect_char (CHR '':'') (skip_ws t1) = Some t2"
        "json_value k t2 = Some (y, t3)" "expect_char (CHR '','') (skip_ws t3) = Some t4" for t x t1 t2 y t3 t4
    proof -
      have "length t4 < length s"
        using expect_ws_length [OF that(1)] unquote_string_length [OF that(2)] expect_ws_length [OF that(3)] json_length(1) [OF that(4)]
          expect_ws_length [OF that(5)] by simp
      then show ?thesis using l m members_ih by simp
    qed
    show "json_members (Suc n) s = json_members m s"
      unfolding m json_members.simps
    proof (rule bind_option_cong [OF refl], rule bind_option_cong [OF refl], clarsimp, rule bind_option_cong [OF refl])
      fix t x t1 t2
      assume a: "expect_char (CHR ''\"'') (skip_ws s) = Some t" "unquote_string t = Some (x, t1)"
        "t2 \<in> set_option (expect_char (CHR '':'') (skip_ws t1))"
      then have p: "expect_char (CHR ''\"'') (skip_ws s) = Some t" "expect_char (CHR '':'') (skip_ws t1) = Some t2" by auto
      show "Option.bind (json_value n t2) (\<lambda>(v, t3). case expect_char (CHR '','') (skip_ws t3) of
             None \<Rightarrow> map_option (Pair [(x, v)]) (expect_char (CHR ''}'') (skip_ws t3))
           | Some t4 \<Rightarrow> map_option (apfst (Cons (x, v))) (json_members n t4)) =
         Option.bind (json_value k t2) (\<lambda>(v, t3). case expect_char (CHR '','') (skip_ws t3) of
             None \<Rightarrow> map_option (Pair [(x, v)]) (expect_char (CHR ''}'') (skip_ws t3))
           | Some t4 \<Rightarrow> map_option (apfst (Cons (x, v))) (json_members k t4))"
        unfolding v [OF p(1) a(2) p(2)]
      proof (rule bind_option_cong [OF refl])
        fix y assume "y \<in> set_option (json_value k t2)"
        then have some: "json_value k t2 = Some y" by auto
        obtain u t3 where y1: "y = (u, t3)" by (rule prod.exhaust)
        note y = y1 some [unfolded y1]
        have "json_members n t4 = json_members k t4" if "expect_char (CHR '','') (skip_ws t3) = Some t4" for t4
          using r [OF p(1) a(2) p(2) y(2) that] .
        then show "(case y of (v, t3) \<Rightarrow> case expect_char (CHR '','') (skip_ws t3) of
             None \<Rightarrow> map_option (Pair [(x, v)]) (expect_char (CHR ''}'') (skip_ws t3))
           | Some t4 \<Rightarrow> map_option (apfst (Cons (x, v))) (json_members n t4)) =
          (case y of (v, t3) \<Rightarrow> case expect_char (CHR '','') (skip_ws t3) of
             None \<Rightarrow> map_option (Pair [(x, v)]) (expect_char (CHR ''}'') (skip_ws t3))
           | Some t4 \<Rightarrow> map_option (apfst (Cons (x, v))) (json_members k t4))"
          unfolding y(1) by (cases "expect_char (CHR '','') (skip_ws t3)") simp_all
      qed
    qed
  next
    fix m s assume l: "2 * length s + 1 < Suc n" "2 * length (s :: string) + 1 < m"
    then obtain k where m: "m = Suc k" by (cases m) auto
    have v: "json_value n s = json_value k s" using l m by (intro value_ih) simp_all
    have r: "json_items n t1 = json_items k t1"
      if "json_value k s = Some (y, t)" "expect_char (CHR '','') (skip_ws t) = Some t1" for y t t1
    proof -
      have "length t1 < length s" using json_length(1) [OF that(1)] expect_ws_length [OF that(2)] by simp
      then show ?thesis using l m items_ih by simp
    qed
    show "json_items (Suc n) s = json_items m s"
      unfolding m json_items.simps v
    proof (rule bind_option_cong [OF refl])
      fix y assume "y \<in> set_option (json_value k s)"
      then have some: "json_value k s = Some y" by auto
      obtain u t where y: "y = (u, t)" by (rule prod.exhaust)
      show "(case y of (v, t) \<Rightarrow> case expect_char (CHR '','') (skip_ws t) of
             None \<Rightarrow> map_option (Pair [v]) (expect_char (CHR '']'') (skip_ws t))
           | Some t1 \<Rightarrow> map_option (apfst (Cons v)) (json_items n t1)) =
         (case y of (v, t) \<Rightarrow> case expect_char (CHR '','') (skip_ws t) of
             None \<Rightarrow> map_option (Pair [v]) (expect_char (CHR '']'') (skip_ws t))
           | Some t1 \<Rightarrow> map_option (apfst (Cons v)) (json_items k t1))"
        using r [OF some [unfolded y]] unfolding y by (cases "expect_char (CHR '','') (skip_ws t)") simp_all
    qed
  qed
qed

text \<open>More fuel than the text needs changes nothing.\<close>

lemma json_text_fuel: "2 * length s < n \<Longrightarrow> json_text s = Option.bind (json_value n s) (\<lambda>(v, r). if skip_ws r = [] then Some v else None)"
  using json_fuel [of n] unfolding json_text_def by (metis add_2_eq_Suc' less_Suc_eq)

section \<open>Round trip\<close>

text \<open>Well-formed UTF-8, as \<open>quote_body\<close> reads it.\<close>

function valid_utf8 :: "string \<Rightarrow> bool" where
  "valid_utf8 [] = True"
| "valid_utf8 (c # s) =
     (if of_char c < (128::nat) then valid_utf8 s
      else if utf8_sequence (c # s) = 0 then False
      else valid_utf8 (drop (utf8_sequence (c # s)) (c # s)))"
  by pat_completeness auto
termination
  by (relation "measure length") auto

declare valid_utf8.simps [simp del]

text \<open>What a string becomes on its way: a byte outside a well-formed sequence is replaced.\<close>

function to_utf8 :: "string \<Rightarrow> string" where
  "to_utf8 [] = []"
| "to_utf8 (c # s) =
     (if of_char c < (128::nat) then c # to_utf8 s
      else if utf8_sequence (c # s) = 0 then REPLACEMENT @ to_utf8 s
      else take (utf8_sequence (c # s)) (c # s) @ to_utf8 (drop (utf8_sequence (c # s)) (c # s)))"
  by pat_completeness auto
termination
  by (relation "measure length") auto

declare to_utf8.simps [simp del]

lemma to_utf8_valid [simp]: "valid_utf8 s \<Longrightarrow> to_utf8 s = s"
proof (induction s rule: to_utf8.induct)
  case (2 c s)
  then show ?case by (simp add: to_utf8.simps(2) valid_utf8.simps(2) split: if_splits)
qed (simp add: to_utf8.simps)

lemma ascii_valid: "\<forall>c \<in> set s. of_char c < (128::nat) \<Longrightarrow> valid_utf8 s"
  by (induction s) (auto simp: valid_utf8.simps)

text \<open>The length of the first sequence does not depend on what follows it.\<close>

lemma utf8_matches_take:
  assumes "n \<le> k" "k \<le> length s" "2 \<le> n"
  shows "utf8_matches (take k s @ t) (a, b, c, d, n) = utf8_matches s (a, b, c, d, n)"
  using assms by (auto simp: utf8_matches_def nth_append list_all_iff)

lemma utf8_sequence_entry:
  assumes "utf8_sequence s = n" "n \<noteq> 0"
  obtains a b c d where "(a, b, c, d, n) \<in> set utf8_table" "utf8_matches s (a, b, c, d, n)" "n \<le> length s" "2 \<le> n"
proof -
  obtain a b c d m where f: "find (utf8_matches s) utf8_table = Some (a, b, c, d, m)"
    using assms by (cases "find (utf8_matches s) utf8_table") (auto simp: utf8_sequence_def)
  then have "m = n" using assms by (simp add: utf8_sequence_def)
  with f have "(a, b, c, d, n) \<in> set utf8_table" "utf8_matches s (a, b, c, d, n)" by (auto simp: find_Some_iff)
  moreover from this(1) have "2 \<le> n" by (auto simp: utf8_table_def)
  ultimately show thesis using that by (auto simp: utf8_matches_def)
qed

text \<open>The first byte determines the entry.\<close>

lemma utf8_table_first:
  "(a, b, c, d, n) \<in> set utf8_table \<Longrightarrow> (a', b', c', d', n') \<in> set utf8_table \<Longrightarrow> in_range a b x \<Longrightarrow> in_range a' b' x \<Longrightarrow>
     (a, b, c, d, n) = (a', b', c', d', n')"
  unfolding utf8_table_def in_range_def by auto

lemma utf8_sequence_unique:
  assumes "(a, b, c, d, n) \<in> set utf8_table" "utf8_matches s (a, b, c, d, n)"
  shows "utf8_sequence s = n"
proof -
  obtain a' b' c' d' n' where f: "find (utf8_matches s) utf8_table = Some (a', b', c', d', n')"
    using assms by (cases "find (utf8_matches s) utf8_table") (auto simp: find_None_iff)
  then have "(a', b', c', d', n') \<in> set utf8_table" "utf8_matches s (a', b', c', d', n')" by (auto simp: find_Some_iff)
  then have "(a, b, c, d, n) = (a', b', c', d', n')"
    using assms utf8_table_first [of a b c d n a' b' c' d' n' "s ! 0"] by (simp add: utf8_matches_def)
  then show ?thesis using f by (simp add: utf8_sequence_def)
qed

lemma utf8_sequence_take:
  assumes "utf8_sequence s = n" "n \<noteq> 0"
  shows "utf8_sequence (take n s @ t) = n"
proof -
  obtain a b c d where e: "(a, b, c, d, n) \<in> set utf8_table" "utf8_matches s (a, b, c, d, n)" "n \<le> length s" "2 \<le> n"
    using utf8_sequence_entry [OF assms] .
  then show ?thesis using utf8_sequence_unique [OF e(1)] utf8_matches_take [of n n s] by simp
qed

lemma valid_utf8_append: "valid_utf8 x \<Longrightarrow> valid_utf8 y \<Longrightarrow> valid_utf8 (x @ y)"
proof (induction x rule: valid_utf8.induct)
  case (2 c s)
  let ?n = "utf8_sequence (c # s)"
  show ?case
  proof (cases "of_char c < (128::nat)")
    case True
    then show ?thesis using 2 by (simp add: valid_utf8.simps(2))
  next
    case False
    then have n: "?n \<noteq> 0" and v: "valid_utf8 (drop ?n (c # s))" using "2.prems" by (auto simp: valid_utf8.simps(2) split: if_splits)
    have le: "?n \<le> length (c # s)" using utf8_sequence_entry [OF refl n] by blast
    have "take ?n (c # s) @ drop ?n (c # s) @ y = c # s @ y" by (metis append.assoc append_Cons append_take_drop_id)
    then have "utf8_sequence (c # s @ y) = ?n" using utf8_sequence_take [OF refl n, of "drop ?n (c # s) @ y"] by metis
    moreover have "valid_utf8 (drop ?n (c # s) @ y)" using "2.IH"(2) False n v "2.prems"(2) by blast
    moreover have "drop ?n (c # s @ y) = drop ?n (c # s) @ y" using le drop_append [of ?n "c # s" y] by simp
    ultimately show ?thesis using False n by (simp add: valid_utf8.simps(2) [of c "s @ y"])
  qed
qed simp

lemma hex_value_chars: "n < 16 \<Longrightarrow> hex_value (hex_chars ! n) = Some n"
proof -
  assume "n < 16"
  then have "n \<in> {0, 1, 2, 3, 4, 5, 6, 7, 8, 9, 10, 11, 12, 13, 14, 15}" by (simp only: insert_iff empty_iff) arith
  then show ?thesis by (auto simp: hex_chars_def hex_value_def)
qed

lemma append_single: "(@) [c] = (#) c"
  by (simp add: fun_eq_iff)

text \<open>A character below 128 comes back from its escape.\<close>

lemma unquote_escape_ascii:
  assumes c: "of_char c < (128::nat)"
  shows "unquote_string (escape_ascii c @ s) = map_option (apfst (Cons c)) (unquote_string s)"
proof -
  let ?n = "of_char c :: nat"
  consider (quote) "c = CHR ''\"'' \<or> c = CHR 0x5C" | (ws) "c \<in> {CHR 0x0A, CHR 0x0D, CHR 0x09}"
    | (hex) "c \<notin> {CHR 0x0A, CHR 0x0D, CHR 0x09}" "?n < 32 \<or> c = CHR ''<'' \<or> c = CHR ''>'' \<or> c = CHR ''&''"
    | (plain) "\<not> ?n < 32" "c \<notin> {CHR ''\"'', CHR 0x5C, CHR ''<'', CHR ''>'', CHR ''&''}" by blast
  then show ?thesis
  proof cases
    case quote
    then show ?thesis by (auto simp: escape_ascii_def unquote_string.simps simple_escape_def)
  next
    case ws
    then show ?thesis by (auto simp: escape_ascii_def unquote_string.simps simple_escape_def)
  next
    case hex
    then have nq: "c \<noteq> CHR ''\"''" "c \<noteq> CHR 0x5C" by auto
    have h: "hex_value (hex_chars ! (?n div 16)) = Some (?n div 16)" "hex_value (hex_chars ! (?n mod 16)) = Some (?n mod 16)"
      using c by (simp_all add: hex_value_chars)
    have z: "hex_value (CHR ''0'') = Some 0" by (simp add: hex_value_def)
    have "hex4 (CHR ''0'' # CHR ''0'' # hex_chars ! (?n div 16) # hex_chars ! (?n mod 16) # s) = Some (?n, s)"
      by (simp add: h z)
    moreover have "decode_unit ?n s = ([c], s)" using c by (simp add: decode_unit_def utf8_encode_def)
    ultimately show ?thesis
      using hex nq unfolding escape_ascii_def by (simp add: append_single unquote_string.simps(2) [of "CHR 0x5C"] del: hex4.simps)
  next
    case plain
    have "c \<noteq> CHR 0x0A" using plain(1) by (rule contrapos_nn) simp
    moreover have "c \<noteq> CHR 0x0D" using plain(1) by (rule contrapos_nn) simp
    moreover have "c \<noteq> CHR 0x09" using plain(1) by (rule contrapos_nn) simp
    ultimately show ?thesis using plain c by (simp add: escape_ascii_def unquote_string.simps(2) [of c])
  qed
qed

lemma unquote_unicode_escapes:
  "unquote_string (CHR 0x5C # ''u2028'' @ s) = map_option (apfst (append [CHR 0xE2, CHR 0x80, CHR 0xA8])) (unquote_string s)"
  "unquote_string (CHR 0x5C # ''u2029'' @ s) = map_option (apfst (append [CHR 0xE2, CHR 0x80, CHR 0xA9])) (unquote_string s)"
  "unquote_string (CHR 0x5C # ''ufffd'' @ s) = map_option (apfst (append REPLACEMENT)) (unquote_string s)"
  by (simp_all add: unquote_string.simps(2) [of "CHR 0x5C"] hex_value_def decode_unit_def utf8_encode_def char_of_def bit_0 REPLACEMENT_def)

text \<open>The escapes that \<open>quote_body\<close> writes for a sequence of several bytes, or none.\<close>

lemma unquote_sequence:
  assumes c: "\<not> of_char c < (128::nat)" and n: "n = utf8_sequence (c # s)" "n \<noteq> 0"
    and ih: "unquote_string (quote_body (drop n (c # s)) @ q) = Some (x, r)"
  shows "unquote_string (quote_body (c # s) @ q) = Some (take n (c # s) @ x, r)"
proof -
  obtain a b c' d where e: "(a, b, c', d, n) \<in> set utf8_table" "utf8_matches (c # s) (a, b, c', d, n)" "n \<le> length (c # s)" "2 \<le> n"
    using utf8_sequence_entry [OF n(1) [symmetric] n(2)] .
  have e2: "n = 3" if "c = CHR 0xE2"
    using e(1,2) that by (auto simp: utf8_matches_def utf8_table_def in_range_def)
  let ?rest = "quote_body (drop n (c # s)) @ q"
  note body = quote_body.simps(2) [of c s, unfolded Let_def, folded n(1)]
  consider (a) "take 3 (c # s) = [CHR 0xE2, CHR 0x80, CHR 0xA8]"
    | (b) "take 3 (c # s) = [CHR 0xE2, CHR 0x80, CHR 0xA9]" "take 3 (c # s) \<noteq> [CHR 0xE2, CHR 0x80, CHR 0xA8]"
    | (c) "take 3 (c # s) \<noteq> [CHR 0xE2, CHR 0x80, CHR 0xA8]" "take 3 (c # s) \<noteq> [CHR 0xE2, CHR 0x80, CHR 0xA9]"
    by blast
  then show ?thesis
  proof cases
    case a
    then have "n = 3" using e2 by simp
    then have t: "take n (c # s) = [CHR 0xE2, CHR 0x80, CHR 0xA8]" using a by simp
    have "quote_body (c # s) @ q = CHR 0x5C # ''u2028'' @ ?rest"
      using c n(2) a unfolding body by simp
    then show ?thesis unfolding t using ih by (simp only: unquote_unicode_escapes) simp
  next
    case b
    then have "n = 3" using e2 by simp
    then have t: "take n (c # s) = [CHR 0xE2, CHR 0x80, CHR 0xA9]" using b by simp
    have "quote_body (c # s) @ q = CHR 0x5C # ''u2029'' @ ?rest"
      using c n(2) b unfolding body by simp
    then show ?thesis unfolding t using ih by (simp only: unquote_unicode_escapes) simp
  next
    case c3: c
    obtain t where t: "take n (c # s) = c # t" using n(2) by (cases n) auto
    have len: "length (c # t) = n" using t e(3) by (metis length_take min.absorb2)
    have "utf8_sequence (c # t @ ?rest) = n" using utf8_sequence_take [OF n(1) [symmetric] n(2), of ?rest] t by simp
    then have "unquote_string (c # t @ ?rest) = map_option (apfst (append (take n (c # t @ ?rest)))) (unquote_string (drop n (c # t @ ?rest)))"
      using c n(2) by (auto simp: unquote_string.simps(2) [of c] Let_def)
    moreover have "take n (c # t @ ?rest) = c # t" "drop n (c # t @ ?rest) = ?rest"
      using len by (metis append_Cons append_eq_conv_conj)+
    moreover have "quote_body (c # s) @ q = c # t @ ?rest"
      using c n(2) c3 unfolding body by (simp add: t)
    ultimately show ?thesis using ih t by simp
  qed
qed

lemma unquote_quote_body: "unquote_string (quote_body s @ CHR ''\"'' # r) = Some (to_utf8 s, r)"
proof (induction s rule: to_utf8.induct)
  case 1
  then show ?case by (simp add: unquote_string.simps to_utf8.simps)
next
  case (2 c s)
  let ?n = "utf8_sequence (c # s)"
  consider "of_char c < (128::nat)" | "\<not> of_char c < (128::nat)" "?n = 0" | "\<not> of_char c < (128::nat)" "?n \<noteq> 0" by blast
  then show ?case
  proof cases
    case 1
    then show ?thesis using 2 by (simp add: to_utf8.simps unquote_escape_ascii)
  next
    case bad: 2
    then have "quote_body (c # s) @ CHR ''\"'' # r = CHR 0x5C # ''ufffd'' @ (quote_body s @ CHR ''\"'' # r)" by simp
    then show ?thesis using 2 bad by (simp only: unquote_unicode_escapes) (simp add: to_utf8.simps)
  next
    case 3
    then show ?thesis using unquote_sequence [OF 3(1) refl 3(2) "2.IH"(3) [OF 3]] by (simp add: to_utf8.simps)
  qed
qed

text \<open>The members of an encoded struct, in their order.\<close>

lemma skip_ws_Cons [simp]: "c \<notin> {CHR '' '', CHR 0x09, CHR 0x0A, CHR 0x0D} \<Longrightarrow> skip_ws (c # s) = c # s"
  by (simp add: skip_ws_def)

lemma json_value_string: "json_value (Suc n) (marshal_string v @ r) = Some (JStr (to_utf8 v), r)"
  by (simp add: marshal_string_def unquote_quote_body)

abbreviation received :: "(string \<times> string) list \<Rightarrow> (string \<times> json) list" where
  "received kvs \<equiv> map (map_prod to_utf8 (\<lambda>v. JStr (to_utf8 v))) kvs"

lemma json_members_marshal:
  "kvs \<noteq> [] \<Longrightarrow> json_members (length kvs + Suc n) (marshal_members kvs @ CHR ''}'' # r) = Some (received kvs, r)"
proof (induction kvs rule: marshal_members.induct)
  case (2 k v)
  then show ?case
    using json_value_string [of n v "CHR ''}'' # r"]
    by (simp add: marshal_string_def [of k] unquote_quote_body del: json_value.simps)
next
  case (3 k v kv kvs)
  let ?rest = "marshal_members (kv # kvs) @ CHR ''}'' # r"
  have ih: "json_members (length (kv # kvs) + Suc n) ?rest = Some (received (kv # kvs), r)" using 3 by auto
  have "json_value (Suc (length kvs + Suc n)) (marshal_string v @ CHR '','' # ?rest) = Some (JStr (to_utf8 v), CHR '','' # ?rest)"
    by (rule json_value_string)
  then show ?case
    using ih by (simp add: marshal_string_def [of k] unquote_quote_body del: json_value.simps)
qed simp

lemma marshal_members_start: "kvs \<noteq> [] \<Longrightarrow> \<exists>t. marshal_members kvs = CHR ''\"'' # t"
  by (cases kvs rule: marshal_members.cases) (auto simp: marshal_string_def)

lemma marshal_members_length: "length kvs \<le> length (marshal_members kvs)"
  by (induction kvs rule: marshal_members.induct) (auto simp: marshal_string_def)

lemma json_text_marshal:
  assumes "kvs \<noteq> []"
  shows "json_text (marshal_struct kvs) = Some (JObj (received kvs))"
proof -
  obtain t where t: "marshal_members kvs = CHR ''\"'' # t" using marshal_members_start [OF assms] by blast
  obtain n where n: "2 * length (marshal_struct kvs) + 1 = length kvs + Suc n"
    using marshal_members_length [of kvs] by (intro that [of "2 * length (marshal_struct kvs) - length kvs"]) (simp add: marshal_struct_def)
  have "json_members (2 * length (marshal_struct kvs) + 1) (marshal_members kvs @ ''}'') = Some (received kvs, [])"
    unfolding n using json_members_marshal [OF assms, of n "[]"] by simp
  then have "json_value (2 * length (marshal_struct kvs) + 2) (marshal_struct kvs) = Some (JObj (received kvs), [])"
    using t by (simp add: marshal_struct_def)
  then show ?thesis by (simp add: json_text_def skip_ws_def)
qed

text \<open>Decoding what was encoded sets every field to its value and reports no error.\<close>

lemma set_members_marshal:
  "set (map fst kvs) \<subseteq> set names \<Longrightarrow> distinct (map fst kvs) \<Longrightarrow> \<forall>k \<in> set names. valid_utf8 k \<Longrightarrow>
     fold (set_member EF names) (received kvs) (st, err)
     = ((\<lambda>n. case map_of kvs n of Some v \<Rightarrow> to_utf8 v | None \<Rightarrow> st n), err)"
proof (induction kvs arbitrary: st)
  case Nil
  then show ?case by simp
next
  case (Cons kv kvs)
  obtain k v where kv: "kv = (k, v)" by (cases kv)
  have "map_of kvs k = None" "to_utf8 k = k" using Cons.prems by (simp_all add: kv map_of_eq_None_iff)
  then show ?case using Cons by (auto simp: kv field_of_def fun_eq_iff split: option.splits)
qed

lemma Unmarshal_Marshal:
  assumes "names \<noteq> []" "distinct names" "length vals = length names" "\<forall>x \<in> set names. valid_utf8 x"
  shows "Unmarshal EF names (marshal_struct (zip names vals)) (\<lambda>_. []) =
     ((\<lambda>n. case map_of (zip names vals) n of Some v \<Rightarrow> to_utf8 v | None \<Rightarrow> []), False)"
proof -
  have "zip names vals \<noteq> []" using assms by (cases names; cases vals) auto
  then show ?thesis
    using set_members_marshal [of "zip names vals" names EF "\<lambda>_. []" False] assms by (simp add: Unmarshal_def json_text_marshal)
qed

end
