(* ===== verification/Protocol.thy ===== *)
theory Protocol
  imports GoJson
begin

text \<open>
  src/go_eventing/communication_protocol.go: the message that the Go service and the C++ binding are to exchange, a
  struct of three strings sent as JSON. The lemmas show that a message arrives as it was sent, that
  bytes outside UTF-8 do not, and which texts end the process that reads them.
\<close>

section \<open>The message\<close>

record Message =
  CommandType :: string
  ExtraMetadata :: string
  RawMessage :: string

definition Message_fields :: "string list" where
  "Message_fields = [''CommandType'', ''ExtraMetadata'', ''RawMessage'']"

text \<open>Encoding a struct of strings never fails, so the branch with \<open>log.Fatal\<close> is not reached.\<close>

definition EncodeMessage :: "string \<Rightarrow> string \<Rightarrow> string \<Rightarrow> string" where
  "EncodeMessage commandType extraMetadata rawMessage =
     (let msg = \<lparr>CommandType = commandType, ExtraMetadata = extraMetadata, RawMessage = rawMessage\<rparr>
      in marshal_struct (zip Message_fields [CommandType msg, ExtraMetadata msg, RawMessage msg]))"

text \<open>\<open>log.Fatal\<close> ends the process with status 1, so the return statement after it is not reached.\<close>

definition DecodeMessage :: "(string \<Rightarrow> string \<Rightarrow> bool) \<Rightarrow> string \<Rightarrow> Message result" where
  "DecodeMessage EqualFold resp =
     (case Unmarshal EqualFold Message_fields resp (\<lambda>_. []) of
        (st, err) \<Rightarrow>
          if err then Inl (Exit 1)
          else Inr \<lparr>CommandType = st ''CommandType'', ExtraMetadata = st ''ExtraMetadata'', RawMessage = st ''RawMessage''\<rparr>)"

definition message_utf8 :: "Message \<Rightarrow> bool" where
  "message_utf8 m \<longleftrightarrow> valid_utf8 (CommandType m) \<and> valid_utf8 (ExtraMetadata m) \<and> valid_utf8 (RawMessage m)"

section \<open>Round trip\<close>

lemma Message_fields_props: "Message_fields \<noteq> []" "distinct Message_fields" "\<forall>x \<in> set Message_fields. valid_utf8 x"
  by (simp_all add: Message_fields_def valid_utf8.simps)

lemma Unmarshal_EncodeMessage:
  "Unmarshal EF Message_fields (EncodeMessage c e r) (\<lambda>_. []) =
    ((\<lambda>n. case map_of (zip Message_fields [c, e, r]) n of Some v \<Rightarrow> to_utf8 v | None \<Rightarrow> []), False)"
  using Unmarshal_Marshal [of Message_fields "[c, e, r]" EF] Message_fields_props
  by (simp add: EncodeMessage_def) (simp add: Message_fields_def)

lemma DecodeMessage_EncodeMessage:
  "DecodeMessage EF (EncodeMessage c e r) = Inr \<lparr>CommandType = to_utf8 c, ExtraMetadata = to_utf8 e, RawMessage = to_utf8 r\<rparr>"
  by (simp add: DecodeMessage_def Unmarshal_EncodeMessage) (simp add: Message_fields_def)

text \<open>The protocol is an encoding with a decoder, so two messages in UTF-8 never share a text.\<close>

interpretation protocol: codec "\<lambda>m. EncodeMessage (CommandType m) (ExtraMetadata m) (RawMessage m)"
  "\<lambda>s. case DecodeMessage (=) s of Inl _ \<Rightarrow> None | Inr m \<Rightarrow> Some (m :: Message)" message_utf8
  by unfold_locales (simp add: DecodeMessage_EncodeMessage message_utf8_def)

text \<open>
  A message whose three strings are UTF-8 is decoded to what was encoded, whatever the matching of names by the
  decoder, its text passes through a C string unharmed, and no other message has that text.
\<close>

theorem message_roundtrip:
  assumes "message_utf8 m"
  shows "DecodeMessage EF (EncodeMessage (CommandType m) (ExtraMetadata m) (RawMessage m)) = Inr m
    \<and> c_str (EncodeMessage (CommandType m) (ExtraMetadata m) (RawMessage m)) = EncodeMessage (CommandType m) (ExtraMetadata m) (RawMessage m)
    \<and> {m'. message_utf8 m' \<and> EncodeMessage (CommandType m') (ExtraMetadata m') (RawMessage m')
           = EncodeMessage (CommandType m) (ExtraMetadata m) (RawMessage m)} = {m}"
proof (intro conjI)
  show "DecodeMessage EF (EncodeMessage (CommandType m) (ExtraMetadata m) (RawMessage m)) = Inr m"
    using assms by (simp add: DecodeMessage_EncodeMessage message_utf8_def)
  have "NUL \<notin> set (EncodeMessage (CommandType m) (ExtraMetadata m) (RawMessage m))" by (simp add: EncodeMessage_def)
  then show "c_str (EncodeMessage (CommandType m) (ExtraMetadata m) (RawMessage m)) = EncodeMessage (CommandType m) (ExtraMetadata m) (RawMessage m)"
    by simp
  show "{m'. message_utf8 m' \<and> EncodeMessage (CommandType m') (ExtraMetadata m') (RawMessage m')
           = EncodeMessage (CommandType m) (ExtraMetadata m) (RawMessage m)} = {m}"
    using assms by (auto simp: protocol.enc_inject)
qed

definition sample_message :: Message where
  "sample_message = \<lparr>CommandType = ''dcp'', ExtraMetadata = [CHR ''\"'', CHR 0x0A], RawMessage = [CHR 0xC3, CHR 0xA9]\<rparr>"

theorem message_roundtrip_witness:
  "message_utf8 sample_message
    \<and> DecodeMessage (=) (EncodeMessage (CommandType sample_message) (ExtraMetadata sample_message) (RawMessage sample_message)) = Inr sample_message"
proof -
  have "message_utf8 sample_message"
    by (simp add: message_utf8_def sample_message_def valid_utf8.simps utf8_sequence_def utf8_table_def utf8_matches_def in_range_def)
  then show ?thesis using message_roundtrip [of sample_message "(=)"] by simp
qed

text \<open>
  Whatever the strings, the process that decodes a message that was encoded goes on, and the message it gets has
  every byte outside UTF-8 replaced; two messages that differ in such bytes only have one text.
\<close>

theorem message_bad_bytes:
  "DecodeMessage EF (EncodeMessage c e r) = Inr \<lparr>CommandType = to_utf8 c, ExtraMetadata = to_utf8 e, RawMessage = to_utf8 r\<rparr>
   \<and> EncodeMessage c e [CHR 0xFF] = EncodeMessage c e [CHR 0xFE]"
proof
  have "quote_body [CHR 0xFF] = quote_body [CHR 0xFE]"
    by (simp add: utf8_sequence_def utf8_table_def utf8_matches_def)
  then show "EncodeMessage c e [CHR 0xFF] = EncodeMessage c e [CHR 0xFE]"
    by (simp add: EncodeMessage_def Message_fields_def marshal_struct_def marshal_string_def)
qed (rule DecodeMessage_EncodeMessage)

lemma set_members_error:
  "snd (fold (set_member EF names) ms (st, err)) \<longleftrightarrow>
     err \<or> (\<exists>(k, v) \<in> set ms. field_of EF names k \<noteq> None \<and> v \<noteq> JNull \<and> (\<forall>x. v \<noteq> JStr x))"
proof (induction ms arbitrary: st err)
  case Nil
  then show ?case by simp
next
  case (Cons m ms)
  obtain k v where m: "m = (k, v)" by (cases m)
  show ?case
  proof (cases "field_of EF names k")
    case None
    then show ?thesis using Cons by (auto simp: m)
  next
    case (Some f)
    then show ?thesis using Cons by (cases v) (auto simp: m)
  qed
qed

text \<open>
  Decoding returns or ends the process with status 1. It ends it exactly on what is not JSON, on a value that is
  neither an object nor null, and on an object with a field that is neither a string nor null.
\<close>

theorem DecodeMessage_total:
  "(DecodeMessage EF s = Inl (Exit 1) \<longleftrightarrow>
      (case json_text s of
         Some (JObj ms) \<Rightarrow> \<exists>(k, v) \<in> set ms. field_of EF Message_fields k \<noteq> None \<and> v \<noteq> JNull \<and> (\<forall>x. v \<noteq> JStr x)
       | Some v \<Rightarrow> v \<noteq> JNull
       | None \<Rightarrow> True))
   \<and> (DecodeMessage EF s = Inl (Exit 1) \<or> (\<exists>m. DecodeMessage EF s = Inr m))"
proof
  have e: "DecodeMessage EF s = Inl (Exit 1) \<longleftrightarrow> snd (Unmarshal EF Message_fields s (\<lambda>_. []))"
    by (auto simp: DecodeMessage_def split: prod.splits)
  show "DecodeMessage EF s = Inl (Exit 1) \<longleftrightarrow>
      (case json_text s of
         Some (JObj ms) \<Rightarrow> \<exists>(k, v) \<in> set ms. field_of EF Message_fields k \<noteq> None \<and> v \<noteq> JNull \<and> (\<forall>x. v \<noteq> JStr x)
       | Some v \<Rightarrow> v \<noteq> JNull
       | None \<Rightarrow> True)"
    unfolding e by (simp add: Unmarshal_def set_members_error split: option.split json.split)
  show "DecodeMessage EF s = Inl (Exit 1) \<or> (\<exists>m. DecodeMessage EF s = Inr m)"
    by (simp add: DecodeMessage_def split: prod.split)
qed

end
