(* ===== verification/Base64.thy ===== *)
theory Base64
  imports Prelude
begin

text \<open>
  \<open>base64.StdEncoding.DecodeString\<close> of the Go library, which \<open>handleStaticAssets\<close> of src/go_eventing/http_handlers.go
  calls with its error ignored, and the encoding of RFC 4648, which a browser writes into a data URL. The lemmas show
  that decoding reads back every encoding, over line breaks too.
\<close>

section \<open>The alphabet\<close>

definition b64_alphabet :: string where
  "b64_alphabet = ''ABCDEFGHIJKLMNOPQRSTUVWXYZabcdefghijklmnopqrstuvwxyz0123456789+/''"

definition b64_char :: "nat \<Rightarrow> char" where
  "b64_char i = b64_alphabet ! i"

definition b64_val :: "char \<Rightarrow> nat option" where
  "b64_val = map_of (zip b64_alphabet [0..<64])"

lemma b64_alphabet_length: "length b64_alphabet = 64"
  by (simp add: b64_alphabet_def)

lemma b64_alphabet_distinct: "distinct b64_alphabet"
  by (simp add: b64_alphabet_def)

lemma b64_val_char [simp]: "i < 64 \<Longrightarrow> b64_val (b64_char i) = Some i"
  using map_of_zip_nth [OF _ b64_alphabet_distinct, of "[0..<64]" i]
  by (simp add: b64_val_def b64_char_def b64_alphabet_length)

lemma b64_char_in: "i < 64 \<Longrightarrow> b64_char i \<in> set b64_alphabet"
  by (simp add: b64_char_def b64_alphabet_length)

lemma b64_alphabet_plain: "CHR ''='' \<notin> set b64_alphabet" "CHR '','' \<notin> set b64_alphabet" "CHR 0x0A \<notin> set b64_alphabet" "CHR 0x0D \<notin> set b64_alphabet"
  by (simp_all add: b64_alphabet_def)

lemma b64_alphabet_ascii: "\<forall>c \<in> set b64_alphabet. of_char c < (128::nat)"
  by (simp add: b64_alphabet_def)

lemma b64_char_not_pad [simp]: "i < 64 \<Longrightarrow> b64_char i \<noteq> CHR ''=''"
  using b64_char_in b64_alphabet_plain(1) by metis

section \<open>Decoding\<close>

text \<open>
  Groups of four characters, the last one padded. At the first character that is out of place the
  decoder stops; the result has the bytes of the groups before, and whether there was an error.
\<close>

fun b64_decode :: "string \<Rightarrow> string \<times> bool" where
  "b64_decode [] = ([], False)"
| "b64_decode (a # b # c # d # s) =
     (case (b64_val a, b64_val b) of
        (Some i, Some j) \<Rightarrow>
          if c = CHR ''=''
          then if d = CHR ''='' then ([char_of (4 * i + j div 16)], s \<noteq> []) else ([], True)
          else (case b64_val c of
                  None \<Rightarrow> ([], True)
                | Some k \<Rightarrow>
                    if d = CHR ''='' then ([char_of (4 * i + j div 16), char_of (16 * j + k div 4)], s \<noteq> [])
                    else (case b64_val d of
                            None \<Rightarrow> ([], True)
                          | Some l \<Rightarrow> apfst (append [char_of (4 * i + j div 16), char_of (16 * j + k div 4), char_of (64 * k + l)]) (b64_decode s)))
      | _ \<Rightarrow> ([], True))"
| "b64_decode _ = ([], True)"

definition line_break :: "char \<Rightarrow> bool" where
  "line_break c \<longleftrightarrow> c = CHR 0x0A \<or> c = CHR 0x0D"

definition DecodeString :: "string \<Rightarrow> string \<times> bool" where
  "DecodeString s = b64_decode (filter (\<lambda>c. \<not> line_break c) s)"

section \<open>Encoding\<close>

fun b64_encode :: "string \<Rightarrow> string" where
  "b64_encode [] = []"
| "b64_encode [x] =
     (let a = of_char x in [b64_char (a div 4), b64_char (16 * (a mod 4)), CHR ''='', CHR ''=''])"
| "b64_encode [x, y] =
     (let a = of_char x; b = of_char y
      in [b64_char (a div 4), b64_char (16 * (a mod 4) + b div 16), b64_char (4 * (b mod 16)), CHR ''=''])"
| "b64_encode (x # y # z # s) =
     (let a = of_char x; b = of_char y; c = of_char z
      in [b64_char (a div 4), b64_char (16 * (a mod 4) + b div 16), b64_char (4 * (b mod 16) + c div 64), b64_char (c mod 64)] @ b64_encode s)"

lemma byte_bounds:
  fixes x :: char
  defines "a \<equiv> of_char x :: nat"
  shows "a < 256" "a div 4 < 64" "a mod 4 < 4" "a div 16 < 16" "a mod 16 < 16" "a div 64 < 4" "a mod 64 < 64"
proof -
  show "a < 256" by (simp add: a_def)
  then show "a div 4 < 64" "a mod 4 < 4" "a div 16 < 16" "a mod 16 < 16" "a div 64 < 4" "a mod 64 < 64" by simp_all
qed

text \<open>Three bytes as four groups of six bits, and back.\<close>

lemma sextets_all:
  fixes x y z :: char
  defines "a \<equiv> of_char x :: nat" and "b \<equiv> of_char y :: nat" and "c \<equiv> of_char z :: nat"
  shows "16 * (a mod 4) + b div 16 < 64 \<and> 4 * (b mod 16) + c div 64 < 64
    \<and> char_of (4 * (a div 4) + (16 * (a mod 4) + b div 16) div 16) = x
    \<and> char_of (16 * (16 * (a mod 4) + b div 16) + (4 * (b mod 16) + c div 64) div 4) = y
    \<and> char_of (64 * (4 * (b mod 16) + c div 64) + c mod 64) = z"
proof (intro conjI)
  note bd = byte_bounds [of x, folded a_def] byte_bounds [of y, folded b_def] byte_bounds [of z, folded c_def]
  show "16 * (a mod 4) + b div 16 < 64" "4 * (b mod 16) + c div 64 < 64" using bd by linarith+
  have "(16 * (a mod 4) + b div 16) div 16 = a mod 4" using bd by simp
  then have "4 * (a div 4) + (16 * (a mod 4) + b div 16) div 16 = a" by simp
  then show "char_of (4 * (a div 4) + (16 * (a mod 4) + b div 16) div 16) = x" by (simp add: a_def)
  have "(4 * (b mod 16) + c div 64) div 4 = b mod 16" using bd by simp
  then have "16 * (16 * (a mod 4) + b div 16) + (4 * (b mod 16) + c div 64) div 4 = 256 * (a mod 4) + b"
    by simp
  then show "char_of (16 * (16 * (a mod 4) + b div 16) + (4 * (b mod 16) + c div 64) div 4) = y"
    by (metis b_def char_of_mod_256 char_of_char mod_mult_self3 mult.commute add.commute mod_mult_self2)
  have "64 * (4 * (b mod 16) + c div 64) + c mod 64 = 256 * (b mod 16) + c" by simp
  then show "char_of (64 * (4 * (b mod 16) + c div 64) + c mod 64) = z"
    by (metis c_def char_of_mod_256 char_of_char mod_mult_self2 add.commute)
qed

lemma b64_decode_encode: "b64_decode (b64_encode s) = (s, False)"
proof (induction s rule: b64_encode.induct)
  case (2 x)
  then show ?case using sextets_all [of x "CHR 0x00" "CHR 0x00"] byte_bounds [of x] by (simp add: Let_def)
next
  case (3 x y)
  then show ?case using sextets_all [of x y "CHR 0x00"] byte_bounds [of x] by (simp add: Let_def)
next
  case (4 x y z s)
  then show ?case using sextets_all [of x y z] byte_bounds [of x] byte_bounds [of z] by (simp add: Let_def)
qed simp

lemma b64_encode_chars: "set (b64_encode s) \<subseteq> insert (CHR ''='') (set b64_alphabet)"
proof (induction s rule: b64_encode.induct)
  case (2 x)
  then show ?case using sextets_all [of x "CHR 0x00" "CHR 0x00"] byte_bounds [of x] by (simp add: b64_char_in Let_def)
next
  case (3 x y)
  then show ?case using sextets_all [of x y "CHR 0x00"] byte_bounds [of x] by (simp add: b64_char_in Let_def)
next
  case (4 x y z s)
  then show ?case using sextets_all [of x y z] byte_bounds [of x] byte_bounds [of z] by (simp add: b64_char_in Let_def)
qed simp

lemma b64_encode_plain:
  "CHR '','' \<notin> set (b64_encode s)" "\<forall>c \<in> set (b64_encode s). of_char c < (128::nat) \<and> \<not> line_break c"
  using b64_encode_chars [of s] b64_alphabet_plain b64_alphabet_ascii by (auto simp: line_break_def)

text \<open>Line breaks between the characters of the encoding make no difference.\<close>

lemma DecodeString_encode:
  assumes "filter (\<lambda>c. \<not> line_break c) t = b64_encode s"
  shows "DecodeString t = (s, False)"
  using assms by (simp add: DecodeString_def b64_decode_encode)

lemma filter_encode: "filter (\<lambda>c. \<not> line_break c) (b64_encode s) = b64_encode s"
  using b64_encode_plain(2) by (simp add: filter_id_conv)

interpretation base64: codec b64_encode "\<lambda>t. if snd (DecodeString t) then None else Some (fst (DecodeString t))" "\<lambda>_. True"
  by unfold_locales (simp add: DecodeString_encode filter_encode)

end
