(* ===== verification/Assets.thy ===== *)
theory Assets
  imports MailServer GoJson Base64
begin

text \<open>
  The static assets of an application, src/go_eventing/http_handlers.go: the loop of \<open>storeAppSetup\<close> over the assets of
  a new version, which stores, forgets and deletes their contents in the metadata bucket, and
  \<open>handleStaticAssets\<close>, which serves them. The lemmas follow an upload to its reader, and show what the loop does to the
  list that it changes while it iterates.
\<close>

section \<open>What the handlers use\<close>

text \<open>\<open>SetRaw\<close> of go-couchbase, besides what the other routines use; its error is ignored.\<close>

record 's go_store = "'s go_couchbase" +
  SetRaw :: "'s \<Rightarrow> string \<Rightarrow> string \<Rightarrow> nat \<Rightarrow> string \<Rightarrow> 's"

text \<open>A value that was set is read back, and the others are as before.\<close>

definition go_store_laws :: "'s go_store \<Rightarrow> bool" where
  "go_store_laws G \<longleftrightarrow>
     (\<forall>s b k e v b' k'. GetRaw G (SetRaw G s b k e v) b' k' = (if b' = b \<and> k' = k then Some v else GetRaw G s b' k'))
   \<and> (\<forall>s b k b' k'. GetRaw G (Delete G s b k) b' k' = (if b' = b \<and> k' = k then None else GetRaw G s b' k'))"

lemma go_store_lawsD:
  assumes "go_store_laws G"
  shows "GetRaw G (SetRaw G s b k e v) b' k' = (if b' = b \<and> k' = k then Some v else GetRaw G s b' k')"
    "GetRaw G (Delete G s b k) b' k' = (if b' = b \<and> k' = k then None else GetRaw G s b' k')"
  using assms by (auto simp: go_store_laws_def)

definition ref_go_store :: "(string \<Rightarrow> string \<Rightarrow> string option) go_store" where
  "ref_go_store =
     \<lparr>GetRaw = (\<lambda>s. s), GetsRaw = (\<lambda>s. s), Delete = (\<lambda>s b k. s(b := (s b)(k := None))),
      SetRaw = (\<lambda>s b k e v. s(b := (s b)(k := Some v)))\<rparr>"

lemma ref_go_store_laws [simp]: "go_store_laws ref_go_store"
  by (simp add: go_store_laws_def ref_go_store_def)

text \<open>
  A response: its content type, which can be set until the first write has sent the header, and
  its body.
\<close>

record response_writer =
  content_type :: "string option"
  wrote_header :: bool
  written :: string

definition response_new :: response_writer where
  "response_new = \<lparr>content_type = None, wrote_header = False, written = []\<rparr>"

definition Header_Set :: "string \<Rightarrow> response_writer \<Rightarrow> response_writer" where
  "Header_Set t w = (if wrote_header w then w else w\<lparr>content_type := Some t\<rparr>)"

definition Fprintf :: "string \<Rightarrow> response_writer \<Rightarrow> response_writer" where
  "Fprintf x w = w\<lparr>wrote_header := True, written := written w @ x\<rparr>"

section \<open>Storing\<close>

text \<open>
  An asset is a map of decoded JSON values. The list \<open>app.Assets\<close> is a slice: a backing array of pointers to the
  maps, and a length. \<open>assetList\<close> is the same array with the first length, so the loop sees what is
  moved in it.
\<close>

type_synonym asset = "string \<rightharpoonup> json"

record asset_slice =
  asset_heap :: "asset list"
  backing :: "nat list"
  Assets_len :: nat

definition assets_of :: "asset_slice \<Rightarrow> asset list" where
  "assets_of l = map (\<lambda>p. asset_heap l ! p) (take (Assets_len l) (backing l))"

definition assetCBKey :: "string \<Rightarrow> string \<Rightarrow> string" where
  "assetCBKey appName name = appName @ ''_'' @ name"

text \<open>
  \<open>append(app.Assets[:index], app.Assets[index+1:]...)\<close> moves the rest of the slice down in its array; slicing past
  the length panics.
\<close>

definition remove_asset :: "nat \<Rightarrow> asset_slice \<Rightarrow> asset_slice result" where
  "remove_asset index l =
     (let n = Assets_len l; a = backing l
      in if 1 < n
         then if n < index + 1 then Inl (Go_panic ''slice bounds out of range'')
              else Inr (l\<lparr>backing := take index a @ drop (index + 1) (take n a) @ drop (n - 1) a, Assets_len := n - 1\<rparr>)
         else Inr (l\<lparr>Assets_len := 0\<rparr>))"

definition staticAsset_fields :: "string list" where
  "staticAsset_fields = [''mime_type'', ''content'']"

text \<open>
  The case \<open>add\<close>. The bucket is that of \<open>info\<close>, a nil pointer if the application has no HTTP
  server. Encoding a struct of strings does not fail.
\<close>

definition add_asset ::
  "'s go_store \<Rightarrow> string option \<Rightarrow> string \<Rightarrow> asset \<Rightarrow> 's \<Rightarrow> (asset \<times> 's) result" where
  "add_asset G info key asset s =
     res_bind (as_string (asset ''content'')) (\<lambda>c.
     let splits = Split (CHR '','') c
     in res_bind (go_index splits 1) (\<lambda>content.
        res_bind (go_index (Split (CHR '':'') (hd splits)) 1) (\<lambda>mimeType.
          let asset1 = asset(''mimeType'' \<mapsto> JStr mimeType);
              assetBlob = marshal_struct (zip staticAsset_fields [mimeType, content])
          in case info of
               None \<Rightarrow> Inl Null_deref
             | Some bucket \<Rightarrow> Inr (asset1(''operation'' := None, ''content'' := None), SetRaw G s bucket key 0 assetBlob))))"

definition asset_step ::
  "'s go_store \<Rightarrow> string option \<Rightarrow> string \<Rightarrow> nat \<Rightarrow> asset_slice \<times> 's \<Rightarrow> (asset_slice \<times> 's) result" where
  "asset_step G info appName index = (\<lambda>(l, s).
     let p = backing l ! index; asset = asset_heap l ! p
     in res_bind (as_string (asset ''name'')) (\<lambda>name.
        let key = assetCBKey appName name
        in case asset ''operation'' of
             None \<Rightarrow> Inr (l, s)
           | Some op \<Rightarrow>
               res_bind (as_string (Some op)) (\<lambda>operation.
                 if operation = ''delete''
                 then (case info of
                         None \<Rightarrow> Inl Null_deref
                       | Some bucket \<Rightarrow> res_bind (remove_asset index l) (\<lambda>l'. Inr (l', Delete G s bucket key)))
                 else if operation = ''add''
                 then res_bind (add_asset G info key asset s) (\<lambda>(asset', s').
                        Inr (l\<lparr>asset_heap := (asset_heap l)[p := asset']\<rparr>, s'))
                 else Inr (l, s))))"

fun asset_loop ::
  "'s go_store \<Rightarrow> string option \<Rightarrow> string \<Rightarrow> nat list \<Rightarrow> asset_slice \<times> 's \<Rightarrow> (asset_slice \<times> 's) result" where
  "asset_loop G info appName [] st = Inr st"
| "asset_loop G info appName (i # is) st = res_bind (asset_step G info appName i st) (asset_loop G info appName is)"

text \<open>The assets that the file of the application gets, and the cluster.\<close>

definition storeAssets ::
  "'s go_store \<Rightarrow> string option \<Rightarrow> string \<Rightarrow> asset list \<Rightarrow> 's \<Rightarrow> (asset list \<times> 's) result" where
  "storeAssets G info appName assets s =
     res_bind (asset_loop G info appName [0..<length assets]
                 (\<lparr>asset_heap = assets, backing = [0..<length assets], Assets_len = length assets\<rparr>, s))
       (\<lambda>(l, s'). Inr (assets_of l, s'))"

section \<open>Serving\<close>

text \<open>
  \<open>uriPrefixAppMap\<close> has the application and the metadata bucket of a path. A text that does not decode is
  reported in the body and the rest of the function goes on.
\<close>

definition handleStaticAssets ::
  "(string \<Rightarrow> string \<Rightarrow> bool) \<Rightarrow> 's go_store \<Rightarrow> (string \<rightharpoonup> string \<times> string) \<Rightarrow> string \<Rightarrow> string \<Rightarrow> 's
     \<Rightarrow> response_writer result" where
  "handleStaticAssets EqualFold G uriPrefixAppMap Method RequestURI s =
     (if Method = ''GET''
      then let splits = Split (CHR ''/'') RequestURI
           in res_bind (go_index splits 1) (\<lambda>requestURI.
              res_bind (go_index splits 3) (\<lambda>assetName.
                case uriPrefixAppMap requestURI of
                  None \<Rightarrow> Inl Null_deref
                | Some (appName, bucket) \<Rightarrow>
                    (case GetRaw G s bucket (assetCBKey appName assetName) of
                       None \<Rightarrow> Inr (Fprintf (''Failed to fetch asset'' @ [CHR 0x0A]) response_new)
                     | Some content \<Rightarrow>
                         (case Unmarshal EqualFold staticAsset_fields content (\<lambda>_. []) of
                            (sAsset, err) \<Rightarrow>
                              let w = if err then Fprintf (''Failed to fetch asset'' @ [CHR 0x0A]) response_new else response_new;
                                  sDec = fst (DecodeString (sAsset ''content''))
                              in Inr (Fprintf sDec (Header_Set (sAsset ''mime_type'') w))))))
      else Inr (Fprintf (''Operation not supported for static assets'' @ [CHR 0x0A]) response_new))"

section \<open>Assets that are not deleted\<close>

text \<open>What an asset of a new version has to be for the loop to get over it.\<close>

definition data_mime :: "string \<Rightarrow> string" where
  "data_mime c = Split (CHR '':'') (hd (Split (CHR '','') c)) ! 1"

definition data_content :: "string \<Rightarrow> string" where
  "data_content c = Split (CHR '','') c ! 1"

definition is_data :: "json option \<Rightarrow> bool" where
  "is_data j = (case j of
     Some (JStr c) \<Rightarrow> 1 < length (Split (CHR '','') c) \<and> 1 < length (Split (CHR '':'') (hd (Split (CHR '','') c)))
   | _ \<Rightarrow> False)"

definition is_string :: "json option \<Rightarrow> bool" where
  "is_string j = (case j of Some (JStr _) \<Rightarrow> True | _ \<Rightarrow> False)"

definition is_add :: "asset \<Rightarrow> bool" where
  "is_add a \<longleftrightarrow> a ''operation'' = Some (JStr ''add'')"

definition asset_ok :: "asset \<Rightarrow> bool" where
  "asset_ok a \<longleftrightarrow> is_string (a ''name'') \<and> (a ''operation'' = None \<or> is_string (a ''operation'')) \<and> (is_add a \<longrightarrow> is_data (a ''content''))"

definition is_delete :: "asset \<Rightarrow> bool" where
  "is_delete a \<longleftrightarrow> a ''operation'' = Some (JStr ''delete'')"

definition string_at :: "asset \<Rightarrow> string \<Rightarrow> string" where
  "string_at a k = (case a k of Some (JStr x) \<Rightarrow> x | _ \<Rightarrow> [])"

text \<open>The entry that stays in the file, and the document that goes to the bucket.\<close>

definition asset_entry :: "asset \<Rightarrow> asset" where
  "asset_entry a =
     (if is_add a then a(''mimeType'' \<mapsto> JStr (data_mime (string_at a ''content'')), ''operation'' := None, ''content'' := None) else a)"

definition asset_blob :: "asset \<Rightarrow> string" where
  "asset_blob a = marshal_struct (zip staticAsset_fields [data_mime (string_at a ''content''), data_content (string_at a ''content'')])"

definition put_asset :: "'s go_store \<Rightarrow> string \<Rightarrow> string \<Rightarrow> asset \<Rightarrow> 's \<Rightarrow> 's" where
  "put_asset G b appName a s =
     (if is_add a then SetRaw G s b (assetCBKey appName (string_at a ''name'')) 0 (asset_blob a) else s)"

lemma asset_entry_ok:
  "asset_ok a \<Longrightarrow> \<not> is_delete a \<Longrightarrow> asset_ok (asset_entry a) \<and> \<not> is_delete (asset_entry a)"
  by (auto simp: asset_entry_def asset_ok_def is_add_def is_delete_def)

lemma asset_entry_again [simp]: "asset_entry (asset_entry a) = asset_entry a"
  by (simp add: asset_entry_def is_add_def)

lemma put_entry [simp]: "put_asset G b n (asset_entry a) s = s"
  by (simp add: asset_entry_def is_add_def put_asset_def)

lemma as_string_is_string: "is_string j \<Longrightarrow> \<exists>x. j = Some (JStr x)"
  by (auto simp: is_string_def split: option.splits json.splits)

lemma add_asset_ok:
  assumes "is_add a" "is_data (a ''content'')" "string_at a ''name'' = name"
  shows "add_asset G (Some b) (assetCBKey n name) a s = Inr (asset_entry a, put_asset G b n a s)"
proof -
  obtain c where c: "a ''content'' = Some (JStr c)" using assms(2) by (auto simp: is_data_def split: option.splits json.splits)
  then show ?thesis using assms
    by (simp add: add_asset_def as_string_def go_index_def is_data_def Let_def asset_entry_def put_asset_def string_at_def
        asset_blob_def data_mime_def data_content_def)
qed

lemma asset_step_ok:
  assumes p: "p = backing l ! i" and a: "asset_ok (asset_heap l ! p)" "\<not> is_delete (asset_heap l ! p)"
  shows "asset_step G (Some b) n i (l, s) =
    Inr (l\<lparr>asset_heap := (asset_heap l)[p := asset_entry (asset_heap l ! p)]\<rparr>, put_asset G b n (asset_heap l ! p) s)"
proof -
  define a where "a = asset_heap l ! p"
  obtain name where name: "a ''name'' = Some (JStr name)"
    using a(1) as_string_is_string unfolding asset_ok_def a_def [symmetric] by blast
  consider "a ''operation'' = None" | op where "a ''operation'' = Some (JStr op)"
    using a(1) as_string_is_string unfolding asset_ok_def a_def [symmetric] by metis
  then show ?thesis
  proof cases
    case 1
    then have "\<not> is_add a" by (simp add: is_add_def)
    then show ?thesis using 1 name unfolding a_def [symmetric]
      by (simp add: asset_step_def as_string_def Let_def p [symmetric] a_def [symmetric] asset_entry_def put_asset_def)
        (simp add: a_def)
  next
    case (2 op)
    then have d: "op \<noteq> ''delete''" using a(2) by (simp add: is_delete_def a_def)
    show ?thesis
    proof (cases "op = ''add''")
      case True
      then have "is_add a" "is_data (a ''content'')" using 2 a(1) by (auto simp: is_add_def asset_ok_def a_def)
      moreover have "string_at a ''name'' = name" using name by (simp add: string_at_def)
      ultimately have "add_asset G (Some b) (assetCBKey n name) a s = Inr (asset_entry a, put_asset G b n a s)" by (rule add_asset_ok)
      then show ?thesis using 2 name d True unfolding a_def [symmetric]
        by (simp add: asset_step_def as_string_def Let_def p [symmetric] a_def [symmetric])
    next
      case False
      then have "\<not> is_add a" using 2 by (simp add: is_add_def)
      then show ?thesis using 2 name d False unfolding a_def [symmetric]
        by (simp add: asset_step_def as_string_def Let_def p [symmetric] a_def [symmetric] asset_entry_def put_asset_def)
          (simp add: a_def)
    qed
  qed
qed

text \<open>A run of the loop that deletes nothing visits the pointers of its indices in turn.\<close>

definition visit :: "'s go_store \<Rightarrow> string \<Rightarrow> string \<Rightarrow> nat \<Rightarrow> asset list \<times> 's \<Rightarrow> asset list \<times> 's" where
  "visit G b n p = (\<lambda>(h, s). (h[p := asset_entry (h ! p)], put_asset G b n (h ! p) s))"

abbreviation asset_keep :: "asset \<Rightarrow> bool" where
  "asset_keep a \<equiv> asset_ok a \<and> \<not> is_delete a"

lemma asset_loop_visits:
  "\<forall>i \<in> set is. backing l ! i < length (asset_heap l) \<and> asset_keep (asset_heap l ! (backing l ! i)) \<Longrightarrow>
     asset_loop G (Some b) n is (l, s) =
       (case fold (visit G b n) (map ((!) (backing l)) is) (asset_heap l, s) of (h, s') \<Rightarrow> Inr (l\<lparr>asset_heap := h\<rparr>, s'))"
proof (induction "is" arbitrary: l s)
  case Nil
  then show ?case by simp
next
  case (Cons i "is")
  define p where "p = backing l ! i"
  define l1 where "l1 = l\<lparr>asset_heap := (asset_heap l)[p := asset_entry (asset_heap l ! p)]\<rparr>"
  have p: "p < length (asset_heap l)" "asset_keep (asset_heap l ! p)" using Cons.prems by (simp_all add: p_def)
  have step: "asset_step G (Some b) n i (l, s) = Inr (l1, put_asset G b n (asset_heap l ! p) s)"
    unfolding l1_def by (rule asset_step_ok) (use p in \<open>simp_all add: p_def\<close>)
  have "\<forall>j \<in> set is. backing l1 ! j < length (asset_heap l1) \<and> asset_keep (asset_heap l1 ! (backing l1 ! j))"
    using Cons.prems p asset_entry_ok [of "asset_heap l ! p"] by (auto simp: l1_def nth_list_update)
  note ih = Cons.IH [OF this, of "put_asset G b n (asset_heap l ! p) s"]
  show ?case unfolding asset_loop.simps step res_bind_simps ih
    by (simp add: visit_def [of _ _ _ p] l1_def p_def [symmetric] split: prod.split)
qed

text \<open>Different pointers are processed once each; a pointer that comes again changes nothing.\<close>

lemma visit_distinct:
  "distinct ps \<Longrightarrow> \<forall>p \<in> set ps. p < length h \<Longrightarrow>
     fold (visit G b n) ps (h, s) =
       (map (\<lambda>p. if p \<in> set ps then asset_entry (h ! p) else h ! p) [0..<length h], fold (put_asset G b n) (map ((!) h) ps) s)"
proof (induction ps arbitrary: h s)
  case Nil
  then show ?case by (simp add: map_nth)
next
  case (Cons p ps)
  then have m: "map ((!) (h[p := asset_entry (h ! p)])) ps = map ((!) h) ps" by (auto simp: nth_list_update)
  have v: "visit G b n p (h, s) = (h[p := asset_entry (h ! p)], put_asset G b n (h ! p) s)" by (simp add: visit_def)
  have "fold (visit G b n) (p # ps) (h, s) =
    (map (\<lambda>q. if q \<in> set ps then asset_entry (h[p := asset_entry (h ! p)] ! q) else h[p := asset_entry (h ! p)] ! q) [0..<length h],
     fold (put_asset G b n) (map ((!) h) (p # ps)) s)"
    using Cons.IH [of "h[p := asset_entry (h ! p)]" "put_asset G b n (h ! p) s"] Cons.prems m by (simp add: v)
  also have "\<dots> = (map (\<lambda>q. if q \<in> set (p # ps) then asset_entry (h ! q) else h ! q) [0..<length h],
     fold (put_asset G b n) (map ((!) h) (p # ps)) s)"
    using Cons.prems by (auto simp: nth_list_update)
  finally show ?case .
qed

lemma asset_loop_append:
  "asset_loop G info n (is @ js) st = res_bind (asset_loop G info n is st) (asset_loop G info n js)"
proof (induction "is" arbitrary: st)
  case (Cons i "is")
  then show ?case by (cases "asset_step G info n i st") simp_all
qed simp

lemma store_keep:
  assumes "\<forall>a \<in> set assets. asset_ok a \<and> \<not> is_delete a"
  shows "storeAssets G (Some b) n assets s = Inr (map asset_entry assets, fold (put_asset G b n) assets s)"
proof -
  let ?l = "\<lparr>asset_heap = assets, backing = [0..<length assets], Assets_len = length assets\<rparr>"
  have "asset_loop G (Some b) n [0..<length assets] (?l, s) =
      (case fold (visit G b n) (map ((!) [0..<length assets]) [0..<length assets]) (assets, s) of (h, s') \<Rightarrow> Inr (?l\<lparr>asset_heap := h\<rparr>, s'))"
    using asset_loop_visits [of "[0..<length assets]" ?l G b n s] assms by simp
  moreover have "map ((!) [0..<length assets]) [0..<length assets] = [0..<length assets]"
    using map_nth [of "[0..<length assets]"] by simp
  ultimately show ?thesis
    by (auto simp: storeAssets_def visit_distinct assets_of_def map_nth intro: nth_equalityI)
qed

text \<open>
  If every asset has a name and none is to be deleted, the loop goes through and keeps the list in its order: an
  added asset is in the file without its content and operation and with its type, and the bucket gets its
  document; the others are as they were.
\<close>

theorem assets_stored:
  assumes "\<forall>a \<in> set assets. asset_ok a \<and> \<not> is_delete a"
  shows "storeAssets G (Some b) n assets s = Inr (map asset_entry assets, fold (put_asset G b n) assets s)"
  using assms by (rule store_keep)

definition sample_asset :: "string \<Rightarrow> string \<Rightarrow> asset" where
  "sample_asset name operation =
     [''name'' \<mapsto> JStr name, ''operation'' \<mapsto> JStr operation, ''content'' \<mapsto> JStr ''data:text/plain;base64,aGk='']"

lemma sample_asset_ok [simp]:
  "asset_ok (sample_asset name operation)" "is_add (sample_asset name operation) = (operation = ''add'')"
  "is_delete (sample_asset name operation) = (operation = ''delete'')"
  by (simp_all add: sample_asset_def asset_ok_def is_string_def is_data_def is_add_def is_delete_def)

theorem assets_stored_witness:
  "storeAssets ref_go_store (Some ''meta'') ''app'' [sample_asset ''a'' ''add'', sample_asset ''b'' ''keep''] (\<lambda>_ _. None)
     = Inr ([[''name'' \<mapsto> JStr ''a'', ''mimeType'' \<mapsto> JStr ''text/plain;base64''], sample_asset ''b'' ''keep''],
            \<lambda>b. if b = ''meta'' then [''app_a'' \<mapsto> asset_blob (sample_asset ''a'' ''add'')] else Map.empty)"
proof -
  have "storeAssets ref_go_store (Some ''meta'') ''app'' [sample_asset ''a'' ''add'', sample_asset ''b'' ''keep''] (\<lambda>_ _. None)
     = Inr (map asset_entry [sample_asset ''a'' ''add'', sample_asset ''b'' ''keep''],
            fold (put_asset ref_go_store ''meta'' ''app'') [sample_asset ''a'' ''add'', sample_asset ''b'' ''keep''] (\<lambda>_ _. None))"
    by (rule assets_stored) simp
  moreover have "asset_entry (sample_asset ''a'' ''add'') = [''name'' \<mapsto> JStr ''a'', ''mimeType'' \<mapsto> JStr ''text/plain;base64'']"
    by (simp add: asset_entry_def fun_eq_iff) (simp add: sample_asset_def string_at_def data_mime_def)
  moreover have "asset_entry (sample_asset ''b'' ''keep'') = sample_asset ''b'' ''keep''" by (simp add: asset_entry_def)
  moreover have "fold (put_asset ref_go_store ''meta'' ''app'') [sample_asset ''a'' ''add'', sample_asset ''b'' ''keep''] (\<lambda>_ _. None)
      = (\<lambda>b. if b = ''meta'' then [''app_a'' \<mapsto> asset_blob (sample_asset ''a'' ''add'')] else Map.empty)"
    by (simp add: put_asset_def ref_go_store_def fun_eq_iff) (simp add: sample_asset_def string_at_def assetCBKey_def)
  ultimately show ?thesis by simp
qed

section \<open>Assets that are deleted\<close>

lemma asset_step_delete:
  assumes "asset_heap l ! (backing l ! i) = a" "asset_ok a" "is_delete a"
  shows "asset_step G (Some b) n i (l, s) =
    res_bind (remove_asset i l) (\<lambda>l'. Inr (l', Delete G s b (assetCBKey n (string_at a ''name''))))"
proof -
  obtain name where "a ''name'' = Some (JStr name)" using assms(2) as_string_is_string unfolding asset_ok_def by blast
  then show ?thesis using assms
    by (simp add: asset_step_def Let_def as_string_def is_delete_def string_at_def)
qed

text \<open>
  The pointers that the rest of the loop visits after the asset at \<open>i\<close> was deleted: the array has moved
  down by one, with the last pointer twice.
\<close>

lemma moved_pointers:
  assumes "Suc i < n"
  shows "map ((!) ([0..<i] @ [Suc i..<n] @ [n - 1])) [Suc i..<n] = [i + 2..<n] @ [n - 1]"
proof (rule nth_equalityI)
  show "length (map ((!) ([0..<i] @ [Suc i..<n] @ [n - 1])) [Suc i..<n]) = length ([i + 2..<n] @ [n - 1])" using assms by simp
qed (use assms in \<open>auto simp: nth_append\<close>)

lemma visit_again:
  assumes "distinct ps" "\<forall>p \<in> set ps. p < length h" "q \<in> set ps"
  shows "fold (visit G b n) (ps @ [q]) (h, s) = fold (visit G b n) ps (h, s)"
proof -
  define h' where "h' = map (\<lambda>p. if p \<in> set ps then asset_entry (h ! p) else h ! p) [0..<length h]"
  have q: "h' ! q = asset_entry (h ! q)" using assms by (simp add: h'_def)
  then have "h'[q := asset_entry (h ! q)] = h'" by (metis list_update_id)
  then have "visit G b n q (h', s') = (h', s')" for s'
    by (simp add: visit_def q)
  then show ?thesis by (simp only: fold_append o_apply visit_distinct [OF assms(1,2)] h'_def [symmetric] fold_simps)
qed

text \<open>The whole loop with one asset to delete, in the form of the pointers it visits.\<close>

lemma one_delete_loop:
  assumes keep: "\<forall>x \<in> set (xs @ ys). asset_keep x" and a: "asset_ok a" "is_delete a"
    and h: "h = xs @ a # ys" and i: "i = length xs" and n: "n = length h"
    and h1: "h1 = map asset_entry xs @ a # ys" and s1: "s1 = Delete G (fold (put_asset G b c) xs s) b (assetCBKey c (string_at a ''name''))"
  shows "asset_loop G (Some b) c [0..<n] (\<lparr>asset_heap = h, backing = [0..<n], Assets_len = n\<rparr>, s) =
    res_bind (remove_asset i \<lparr>asset_heap = h1, backing = [0..<n], Assets_len = n\<rparr>) (\<lambda>l. asset_loop G (Some b) c [Suc i..<n] (l, s1))"
proof -
  let ?l = "\<lparr>asset_heap = h, backing = [0..<n], Assets_len = n\<rparr>"
  let ?l1 = "\<lparr>asset_heap = h1, backing = [0..<n], Assets_len = n\<rparr>"
  have "[0..<n] = [0..<i] @ i # [Suc i..<n]"
    using upt_add_eq_append [of 0 i "n - i"] upt_conv_Cons [of i n] by (simp add: n h i)
  then have split: "asset_loop G (Some b) c [0..<n] (?l, s) = res_bind (asset_loop G (Some b) c [0..<i] (?l, s)) (asset_loop G (Some b) c (i # [Suc i..<n]))"
    by (simp only: asset_loop_append)
  have "i < n" by (simp add: n h i)
  then have p: "map ((!) [0..<n]) [0..<i] = [0..<i]" by (intro nth_equalityI) simp_all
  have pre: "\<forall>j \<in> set [0..<i]. [0..<n] ! j < length h \<and> asset_keep (h ! ([0..<n] ! j))"
    using keep by (auto simp: n h i nth_append)
  have "map ((!) h) [0..<i] = xs" by (rule nth_equalityI) (simp_all add: h i nth_append)
  moreover have "map (\<lambda>p. if p \<in> set [0..<i] then asset_entry (h ! p) else h ! p) [0..<length h] = h1"
    by (rule nth_equalityI) (auto simp: h h1 i nth_append simp del: upt_Suc)
  ultimately have "fold (visit G b c) [0..<i] (h, s) = (h1, fold (put_asset G b c) xs s)"
    using visit_distinct [of "[0..<i]" h G b c s] by (simp add: h i)
  then have first: "asset_loop G (Some b) c [0..<i] (?l, s) = Inr (?l1, fold (put_asset G b c) xs s)"
    using asset_loop_visits [of "[0..<i]" ?l G b c s] pre p by simp
  have "asset_heap ?l1 ! (backing ?l1 ! i) = a" by (simp add: n h h1 i nth_append)
  from asset_step_delete [OF this a, of G b c "fold (put_asset G b c) xs s"] show ?thesis
    unfolding split first by (cases "remove_asset i ?l1") (simp_all add: s1)
qed

text \<open>The rest of the loop after a deletion that assets follow.\<close>

lemma after_delete_loop:
  assumes keep: "\<forall>x \<in> set (y # zs). asset_keep x"
    and n: "n = Suc (Suc (length xs' + length zs))" and h1: "h1 = xs' @ a # y # zs"
    and l1: "l1 = \<lparr>asset_heap = h1, backing = [0..<length xs'] @ [Suc (length xs')..<n] @ [n - 1], Assets_len = n - 1\<rparr>"
  shows "asset_loop G (Some b) c [Suc (length xs')..<n] (l1, s) =
    Inr (l1\<lparr>asset_heap := xs' @ a # (if zs = [] then [asset_entry y] else y # map asset_entry zs)\<rparr>,
         fold (put_asset G b c) (if zs = [] then [y] else zs) s)"
proof -
  let ?i = "length xs'"
  have mp: "map ((!) ([0..<?i] @ [Suc ?i..<n] @ [n - 1])) [Suc ?i..<n] = [?i + 2..<n] @ [n - 1]"
    by (rule moved_pointers) (simp add: n)
  have "\<forall>p \<in> set ([?i + 2..<n] @ [n - 1]). p < length h1 \<and> asset_keep (h1 ! p)"
    using keep by (auto simp: n h1 nth_append nth_Cons')
  then have "\<forall>j \<in> set [Suc ?i..<n]. backing l1 ! j < length (asset_heap l1) \<and> asset_keep (asset_heap l1 ! (backing l1 ! j))"
    unfolding mp [symmetric] by (simp add: l1)
  from asset_loop_visits [OF this, of G b c s] have loop: "asset_loop G (Some b) c [Suc ?i..<n] (l1, s) =
      (case fold (visit G b c) ([?i + 2..<n] @ [n - 1]) (h1, s) of (h', s') \<Rightarrow> Inr (l1\<lparr>asset_heap := h'\<rparr>, s'))"
    unfolding l1 asset_slice.simps mp .
  define ps where "ps = (if zs = [] then [Suc ?i] else [?i + 2..<n])"
  have f: "fold (visit G b c) ([?i + 2..<n] @ [n - 1]) (h1, s) = fold (visit G b c) ps (h1, s)"
    using visit_again [of "[?i + 2..<n]" h1 "n - 1" G b c s] by (cases zs) (auto simp: ps_def n h1 simp del: upt_Suc)
  have "map (\<lambda>p. if p \<in> set ps then asset_entry (h1 ! p) else h1 ! p) [0..<length h1]
      = xs' @ a # (if zs = [] then [asset_entry y] else y # map asset_entry zs)"
    by (rule nth_equalityI) (auto simp: ps_def h1 n nth_append nth_Cons' simp del: upt_Suc)
  moreover have "map ((!) h1) ps = (if zs = [] then [y] else zs)"
    by (rule nth_equalityI) (auto simp: ps_def h1 n nth_append nth_Cons' simp del: upt_Suc)
  ultimately show ?thesis
    unfolding loop f using visit_distinct [of ps h1 G b c s] by (auto simp: ps_def n h1)
qed

text \<open>
  With one asset to delete, the bucket loses its document, the file its entry, and the assets before it are stored as
  they should. So is one that follows it alone; but of several that follow, the first is passed over: it stays in the
  file as it was sent, with its operation and content, and never gets to the bucket.
\<close>

theorem assets_delete_one:
  assumes keep: "\<forall>x \<in> set (xs @ ys). asset_ok x \<and> \<not> is_delete x" and a: "asset_ok a" "is_delete a"
  shows "storeAssets G (Some b) c (xs @ a # ys) s =
    (let s1 = Delete G (fold (put_asset G b c) xs s) b (assetCBKey c (string_at a ''name''))
     in Inr (if length ys \<le> 1
             then (map asset_entry (xs @ ys), fold (put_asset G b c) ys s1)
             else (map asset_entry xs @ hd ys # map asset_entry (tl ys), fold (put_asset G b c) (tl ys) s1)))"
proof -
  define h where "h = xs @ a # ys"
  define i where "i = length xs"
  define n where "n = length h"
  define h1 where "h1 = map asset_entry xs @ a # ys"
  define s1 where "s1 = Delete G (fold (put_asset G b c) xs s) b (assetCBKey c (string_at a ''name''))"
  note loop = one_delete_loop [OF keep a h_def i_def n_def h1_def s1_def]
  have n: "n = Suc (i + length ys)" by (simp add: n_def h_def i_def)
  show ?thesis
  proof (cases ys)
    case Nil
    have "take i [0..<n] @ [] @ drop (n - 1) [0..<n] = [0..<n]" by (simp add: n Nil)
    then have "remove_asset i \<lparr>asset_heap = h1, backing = [0..<n], Assets_len = n\<rparr>
        = Inr \<lparr>asset_heap = h1, backing = [0..<n], Assets_len = i\<rparr>"
      by (auto simp: remove_asset_def Let_def n Nil)
    moreover have "map ((!) h1) [0..<i] = map asset_entry xs" by (rule nth_equalityI) (simp_all add: h1_def i_def nth_append)
    ultimately show ?thesis using loop
      by (simp add: storeAssets_def h_def [symmetric] n_def [symmetric] assets_of_def s1_def [symmetric] Let_def)
        (simp add: n Nil)
  next
    case (Cons y zs)
    define l1 where "l1 = \<lparr>asset_heap = h1, backing = [0..<i] @ [Suc i..<n] @ [n - 1], Assets_len = n - 1\<rparr>"
    have "take i [0..<n] @ drop (i + 1) (take n [0..<n]) @ drop (n - 1) [0..<n] = [0..<i] @ [Suc i..<n] @ [n - 1]"
      by (simp add: n take_upt drop_upt)
    then have "remove_asset i \<lparr>asset_heap = h1, backing = [0..<n], Assets_len = n\<rparr> = Inr l1"
      by (simp add: remove_asset_def Let_def n Cons l1_def)
    then have "asset_loop G (Some b) c [0..<n] (\<lparr>asset_heap = h, backing = [0..<n], Assets_len = n\<rparr>, s) = asset_loop G (Some b) c [Suc i..<n] (l1, s1)"
      using loop by simp
    also have "\<dots> = Inr (l1\<lparr>asset_heap := map asset_entry xs @ a # (if zs = [] then [asset_entry y] else y # map asset_entry zs)\<rparr>,
        fold (put_asset G b c) (if zs = [] then ys else zs) s1)"
      using after_delete_loop [of y zs n "map asset_entry xs" h1 a l1 G b c s1] keep
      by (simp add: n Cons h1_def l1_def i_def del: upt_Suc)
    finally have res: "storeAssets G (Some b) c h s =
        Inr (assets_of (l1\<lparr>asset_heap := map asset_entry xs @ a # (if zs = [] then [asset_entry y] else y # map asset_entry zs)\<rparr>),
             fold (put_asset G b c) (if zs = [] then ys else zs) s1)"
      by (simp add: storeAssets_def n_def [symmetric])
    have "take (n - 1) ([0..<i] @ [Suc i..<n] @ [n - 1]) = [0..<i] @ [Suc i..<n]" by (simp add: n del: upt_Suc)
    then have "assets_of (l1\<lparr>asset_heap := map asset_entry xs @ a # r\<rparr>) = map asset_entry xs @ r" if "length r = length ys" for r
      unfolding assets_of_def l1_def asset_slice.simps
      by (intro nth_equalityI) (use that in \<open>auto simp: n i_def nth_append simp del: upt_Suc\<close>)
    then show ?thesis unfolding res h_def [symmetric] by (simp add: Cons s1_def Let_def)
  qed
qed

theorem assets_delete_one_witness:
  "storeAssets ref_go_store (Some ''meta'') ''app'' [sample_asset ''a'' ''delete'', sample_asset ''b'' ''add'', sample_asset ''c'' ''keep''] (\<lambda>_ _. None)
     = Inr ([sample_asset ''b'' ''add'', sample_asset ''c'' ''keep''], \<lambda>_ _. None)"
  using assets_delete_one [of "[]" "[sample_asset ''b'' ''add'', sample_asset ''c'' ''keep'']" "sample_asset ''a'' ''delete''"
      ref_go_store "''meta''" "''app''" "\<lambda>_ _. None"]
  by (simp add: Let_def asset_entry_def put_asset_def) (simp add: ref_go_store_def fun_eq_iff)

text \<open>
  Two deletions with one other asset between them remove that asset from the file too, whatever it is, although its
  document stays; with two assets between them the second deletion slices past the end, and the handler panics after it has
  deleted both documents.
\<close>

theorem assets_two_deletes:
  assumes "asset_ok a" "is_delete a" "asset_ok d" "is_delete d" "asset_ok x" "\<not> is_delete x" "asset_ok y" "\<not> is_delete y"
  shows "(\<exists>s'. storeAssets G (Some b) c [a, x, d] s = Inr ([], s'))
    \<and> storeAssets G (Some b) c [a, x, y, d] s = Inl (Go_panic ''slice bounds out of range'')"
proof
  have u: "[0..<3] = [0, 1, 2::nat]" "[0..<4] = [0, 1, 2, 3::nat]" by (simp_all add: upt_rec eval_nat_numeral)
  note eval = storeAssets_def u asset_step_delete asset_step_ok remove_asset_def assms Let_def eval_nat_numeral assets_of_def
  show "\<exists>s'. storeAssets G (Some b) c [a, x, d] s = Inr ([], s')" by (simp add: eval)
  show "storeAssets G (Some b) c [a, x, y, d] s = Inl (Go_panic ''slice bounds out of range'')"
    using asset_entry_ok [of y] by (simp add: eval)
qed

theorem assets_two_deletes_witness:
  "(\<exists>s'. storeAssets ref_go_store (Some ''meta'') ''app''
       [sample_asset ''a'' ''delete'', sample_asset ''x'' ''keep'', sample_asset ''d'' ''delete''] (\<lambda>_ _. None) = Inr ([], s'))
   \<and> storeAssets ref_go_store (Some ''meta'') ''app''
       [sample_asset ''a'' ''delete'', sample_asset ''x'' ''keep'', sample_asset ''y'' ''keep'', sample_asset ''d'' ''delete''] (\<lambda>_ _. None)
     = Inl (Go_panic ''slice bounds out of range'')"
  by (rule assets_two_deletes) simp_all

section \<open>From the upload to the reader\<close>

definition is_upload :: "asset \<Rightarrow> string \<Rightarrow> string \<Rightarrow> string \<Rightarrow> bool" where
  "is_upload a name mime bytes \<longleftrightarrow>
     is_add a \<and> a ''name'' = Some (JStr name) \<and> a ''content'' = Some (JStr (''data:'' @ mime @ '';base64,'' @ b64_encode bytes))"

lemma upload_parts:
  assumes "CHR '','' \<notin> set mime" "CHR '':'' \<notin> set mime"
  shows "Split (CHR '','') (''data:'' @ mime @ '';base64,'' @ b64_encode bytes) = [''data:'' @ mime @ '';base64'', b64_encode bytes]"
    "Split (CHR '':'') (''data:'' @ mime @ '';base64'') = [''data'', mime @ '';base64'']"
proof -
  have "Split (CHR '','') ((''data:'' @ mime @ '';base64'') @ CHR '','' # b64_encode bytes) = [''data:'' @ mime @ '';base64'', b64_encode bytes]"
    using assms b64_encode_plain(1) by (subst Split_item) auto
  then show "Split (CHR '','') (''data:'' @ mime @ '';base64,'' @ b64_encode bytes) = [''data:'' @ mime @ '';base64'', b64_encode bytes]" by simp
  have "Split (CHR '':'') (''data'' @ CHR '':'' # mime @ '';base64'') = [''data'', mime @ '';base64'']"
    using assms by (subst Split_item) auto
  then show "Split (CHR '':'') (''data:'' @ mime @ '';base64'') = [''data'', mime @ '';base64'']" by simp
qed

lemma upload_blob:
  assumes "is_upload a name mime bytes" "CHR '','' \<notin> set mime" "CHR '':'' \<notin> set mime"
  shows "asset_ok a \<and> \<not> is_delete a \<and> asset_blob a = marshal_struct (zip staticAsset_fields [mime @ '';base64'', b64_encode bytes])"
  using assms(1) upload_parts(1) [OF assms(2,3), of bytes] upload_parts(2) [OF assms(2,3)]
  by (simp add: is_upload_def asset_ok_def is_delete_def is_add_def is_string_def is_data_def asset_blob_def string_at_def data_mime_def data_content_def)

lemma put_others:
  assumes "go_store_laws G" "k \<notin> (\<lambda>a. string_at a ''name'') ` set as"
  shows "GetRaw G (fold (put_asset G b n) as s) b (assetCBKey n k) = GetRaw G s b (assetCBKey n k)"
  using assms(2)
proof (induction "as" arbitrary: s)
  case (Cons a "as")
  then show ?case by (simp add: put_asset_def go_store_lawsD [OF assms(1)] assetCBKey_def)
qed simp

lemma get_put_assets:
  assumes "go_store_laws G" "distinct (map (\<lambda>a. string_at a ''name'') as)" "a \<in> set as" "is_add a"
  shows "GetRaw G (fold (put_asset G b n) as s) b (assetCBKey n (string_at a ''name'')) = Some (asset_blob a)"
proof -
  obtain xs ys where "as = xs @ a # ys" using assms(3) by (meson split_list)
  then show ?thesis using assms by (simp add: put_others) (simp add: put_asset_def go_store_lawsD)
qed

lemma staticAsset_fields_props: "staticAsset_fields \<noteq> []" "distinct staticAsset_fields" "\<forall>x \<in> set staticAsset_fields. valid_utf8 x"
  by (simp_all add: staticAsset_fields_def valid_utf8.simps)

lemma served_blob:
  assumes "GetRaw G s b (assetCBKey app name) = Some (marshal_struct (zip staticAsset_fields [t, b64_encode bytes]))"
    and "valid_utf8 t" "m path = Some (app, b)" "CHR ''/'' \<notin> set path" "CHR ''/'' \<notin> set name"
  shows "handleStaticAssets EF G m ''GET'' (''/'' @ path @ ''/static_assets/'' @ name) s =
    Inr \<lparr>content_type = Some t, wrote_header = True, written = bytes\<rparr>"
proof -
  have "Split (CHR ''/'') (''/'' @ path @ ''/static_assets/'' @ name) = [[], path, ''static_assets'', name]"
    using assms(4,5) Split_item [of "CHR ''/''" path] Split_item [of "CHR ''/''" "''static_assets''" name] by simp
  moreover have "valid_utf8 (b64_encode bytes)" using b64_encode_plain(2) by (auto intro: ascii_valid)
  moreover have "Unmarshal EF staticAsset_fields (marshal_struct (zip staticAsset_fields [t, b64_encode bytes])) (\<lambda>_. [])
      = ((\<lambda>n. case map_of (zip staticAsset_fields [t, b64_encode bytes]) n of Some v \<Rightarrow> to_utf8 v | None \<Rightarrow> []), False)"
    by (rule Unmarshal_Marshal) (simp_all add: staticAsset_fields_props, simp add: staticAsset_fields_def)
  ultimately show ?thesis using assms
    by (simp add: handleStaticAssets_def go_index_def Let_def)
      (simp add: staticAsset_fields_def DecodeString_encode filter_encode Fprintf_def Header_Set_def response_new_def)
qed

text \<open>
  C35. What a browser uploads is what a browser gets: bytes sent as a base64 data URL in an asset of a new version are served
  byte for byte under the path of the application, whatever the other assets, if none is deleted and no two share a
  name. The content type has the encoding of the data URL still at its end.
\<close>

theorem asset_upload_served:
  assumes "go_store_laws G" "\<forall>a \<in> set assets. asset_ok a \<and> \<not> is_delete a" "distinct (map (\<lambda>a. string_at a ''name'') assets)"
    and "a \<in> set assets" "is_upload a name mime bytes" "CHR '','' \<notin> set mime" "CHR '':'' \<notin> set mime" "valid_utf8 mime"
    and "m path = Some (app, b)" "CHR ''/'' \<notin> set path" "CHR ''/'' \<notin> set name"
  shows "\<exists>l s'. storeAssets G (Some b) app assets s = Inr (l, s')
    \<and> handleStaticAssets EF G m ''GET'' (''/'' @ path @ ''/static_assets/'' @ name) s' =
        Inr \<lparr>content_type = Some (mime @ '';base64''), wrote_header = True, written = bytes\<rparr>"
proof -
  have "string_at a ''name'' = name" "is_add a" using assms(5) by (simp_all add: is_upload_def string_at_def)
  then have "GetRaw G (fold (put_asset G b app) assets s) b (assetCBKey app name) = Some (asset_blob a)"
    using get_put_assets [OF assms(1,3,4)] by simp
  moreover have "asset_blob a = marshal_struct (zip staticAsset_fields [mime @ '';base64'', b64_encode bytes])"
    using upload_blob [OF assms(5-7)] by simp
  moreover have "valid_utf8 (mime @ '';base64'')" using assms(8) by (simp add: valid_utf8_append ascii_valid)
  ultimately have "handleStaticAssets EF G m ''GET'' (''/'' @ path @ ''/static_assets/'' @ name) (fold (put_asset G b app) assets s) =
      Inr \<lparr>content_type = Some (mime @ '';base64''), wrote_header = True, written = bytes\<rparr>"
    by (intro served_blob [where m = m, OF _ _ assms(9-11)]) simp_all
  then show ?thesis unfolding store_keep [OF assms(2)] by blast
qed

theorem asset_upload_served_witness:
  "\<exists>l s'. storeAssets ref_go_store (Some ''meta'') ''app'' [sample_asset ''a'' ''add'', sample_asset ''b'' ''keep''] (\<lambda>_ _. None) = Inr (l, s')
    \<and> handleStaticAssets (=) ref_go_store [''root'' \<mapsto> (''app'', ''meta'')] ''GET'' ''/root/static_assets/a'' s' =
        Inr \<lparr>content_type = Some ''text/plain;base64'', wrote_header = True, written = ''hi''\<rparr>"
proof -
  have "b64_encode ''hi'' = ''aGk=''" by (simp add: b64_char_def b64_alphabet_def Let_def)
  then have "is_upload (sample_asset ''a'' ''add'') ''a'' ''text/plain'' ''hi''"
    unfolding is_upload_def sample_asset_ok by (simp add: sample_asset_def)
  moreover have "distinct (map (\<lambda>a. string_at a ''name'') [sample_asset ''a'' ''add'', sample_asset ''b'' ''keep''])"
    by (simp add: string_at_def sample_asset_def)
  moreover have "valid_utf8 ''text/plain''" by (rule ascii_valid) simp
  ultimately show ?thesis
    using asset_upload_served [of ref_go_store "[sample_asset ''a'' ''add'', sample_asset ''b'' ''keep'']" "sample_asset ''a'' ''add''" "''a''"
        "''text/plain''" "''hi''" "[''root'' \<mapsto> (''app'', ''meta'')]" "''root''" "''app''" "''meta''" "\<lambda>_ _. None" "(=)"]
    by simp
qed

text \<open>
  An asset that cannot be served. The documents of all applications lie in one bucket under
  keys that do not tell where the name of the application ends, so that one application overwrites an asset of another; a request without
  an asset's name, a path of no application, and the first version of an application with an asset end in a panic.
\<close>

theorem asset_key_ambiguous: "assetCBKey ''a_b'' ''c'' = assetCBKey ''a'' ''b_c''"
  by (simp add: assetCBKey_def)

theorem asset_panics:
  "handleStaticAssets EF G m ''GET'' ''/root/static_assets'' s = Inl (Go_panic ''index out of range'')
   \<and> handleStaticAssets EF G Map.empty ''GET'' ''/root/static_assets/a'' s = Inl Null_deref
   \<and> storeAssets G None n [sample_asset ''a'' ''add''] s = Inl Null_deref"
  by (simp add: handleStaticAssets_def go_index_def storeAssets_def asset_step_def add_asset_def as_string_def sample_asset_def)

end
