(* ===== verification/HttpServers.thy ===== *)
theory HttpServers
  imports Assets GoBinding
begin

text \<open>
  The HTTP servers of the applications: \<open>performAppHTTPSetup\<close> of src/go_eventing/app_setup.go, which opens them, the part of
  \<open>storeAppSetup\<close> of http_handlers.go that closes them before a new version, the dispatch of
  regex_http_handler.go, \<open>Accept\<close> of http_server.go and \<open>handleJsRequests\<close>. The lemmas show which listeners an
  application has after it was deployed again, which request goes to which handler, and how a
  request for a handler in JavaScript ends.
\<close>

section \<open>Dispatch\<close>

text \<open>
  \<open>regexp\<close>, for the two patterns that the sources build from a path without special characters: characters in a row, the
  last one possibly repeated any number of times. A pattern matches anywhere in the text.
\<close>

type_synonym pattern = "(char \<times> bool) list"

fun MustCompile :: "string \<Rightarrow> pattern" where
  "MustCompile [] = []"
| "MustCompile [c] = [(c, False)]"
| "MustCompile (c # d # s) = (if d = CHR ''*'' then (c, True) # MustCompile s else (c, False) # MustCompile (d # s))"

function match_here :: "pattern \<Rightarrow> string \<Rightarrow> bool" where
  "match_here [] s = True"
| "match_here ((c, False) # r) s = (case s of [] \<Rightarrow> False | x # t \<Rightarrow> if x = c then match_here r t else False)"
| "match_here ((c, True) # r) s =
     (if match_here r s then True
      else case s of [] \<Rightarrow> False | x # t \<Rightarrow> if x = c then match_here ((c, True) # r) t else False)"
  by pat_completeness auto
termination
  by (relation "measures [\<lambda>(r, s). length s, \<lambda>(r, s). length r]") auto

fun MatchString :: "pattern \<Rightarrow> string \<Rightarrow> bool" where
  "MatchString r [] = match_here r []"
| "MatchString r (x # s) = (if match_here r (x # s) then True else MatchString r s)"

datatype http_handler = StaticAssets | JsRequests

type_synonym route = "pattern \<times> http_handler"

definition HandleFunc :: "pattern \<Rightarrow> http_handler \<Rightarrow> route list \<Rightarrow> route list" where
  "HandleFunc p h routes = routes @ [(p, h)]"

text \<open>The first route that matches; \<open>None\<close> is \<open>http.NotFound\<close>.\<close>

fun ServeHTTP :: "route list \<Rightarrow> string \<Rightarrow> http_handler option" where
  "ServeHTTP [] path = None"
| "ServeHTTP ((p, h) # rs) path = (if MatchString p path then Some h else ServeHTTP rs path)"

definition app_routes :: "string \<Rightarrow> route list" where
  "app_routes URIPath =
     HandleFunc (MustCompile (URIPath @ ''*'')) JsRequests
       (HandleFunc (MustCompile (URIPath @ ''static_assets/'')) StaticAssets [])"

section \<open>Accepting\<close>

text \<open>
  What a listener with a deadline gives: a connection, a timeout, or another error. \<open>Accept\<close> tries
  again after a timeout; \<open>None\<close> is that it still waits after the results so far.
\<close>

datatype 'c accepted = Conn 'c | Timeout | Failed

fun Accept :: "'c accepted list \<Rightarrow> ('c accepted \<times> 'c accepted list) option" where
  "Accept [] = None"
| "Accept (Timeout # rs) = Accept rs"
| "Accept (r # rs) = Some (r, rs)"

section \<open>Opening and closing\<close>

text \<open>
  The state: the servers of each application, a server without a listener where \<open>net.Listen\<close> failed; the open
  listeners with their port, the application and the path they serve; the path tables.
\<close>

record http_front =
  appHTTPservers :: "string \<rightharpoonup> nat option list"
  listeners :: "nat \<rightharpoonup> string \<times> string \<times> string"
  next_listener :: nat
  uriPrefixAppMap :: "string \<rightharpoonup> string \<times> string"
  uriPrefixAppnameBackIndex :: "string \<rightharpoonup> string"

definition port_open :: "string \<Rightarrow> http_front \<Rightarrow> bool" where
  "port_open port f \<longleftrightarrow> list_ex (\<lambda>i. case listeners f i of None \<Rightarrow> False | Some (p, _) \<Rightarrow> p = port) [0..<next_listener f]"

text \<open>\<open>usable\<close> tells which ports the system gives to this process.\<close>

definition Listen :: "(string \<Rightarrow> bool) \<Rightarrow> string \<Rightarrow> string \<Rightarrow> string \<Rightarrow> http_front \<Rightarrow> nat option \<times> http_front" where
  "Listen usable port app uri f =
     (if usable port \<and> \<not> port_open port f
      then (Some (next_listener f),
            f\<lparr>listeners := (listeners f)(next_listener f \<mapsto> (port, app, uri)), next_listener := Suc (next_listener f)\<rparr>)
      else (None, f))"

definition as_list :: "json option \<Rightarrow> json list result" where
  "as_list j = (case j of Some (JArr xs) \<Rightarrow> Inr xs | _ \<Rightarrow> Inl (Go_panic ''interface conversion''))"

definition getSource :: "json option option \<Rightarrow> (string \<times> string \<times> string) result" where
  "getSource depcfg =
     (case depcfg of
        None \<Rightarrow> Inr ([], [], [])
      | Some cfg \<Rightarrow>
          res_bind (as_map cfg) (\<lambda>config.
          res_bind (as_map (config ''workspace'')) (\<lambda>workspace.
          res_bind (as_map (config ''source'')) (\<lambda>source.
          res_bind (as_string (source ''source_bucket'')) (\<lambda>srcBucket.
          res_bind (as_string (workspace ''metadata_bucket'')) (\<lambda>metaBucket.
            Inr (srcBucket, metaBucket, ''localhost'')))))))"

text \<open>
  The table of the servers: an application that is not in it gets a new table, with itself only.
\<close>

definition add_server :: "string \<Rightarrow> nat option \<Rightarrow> http_front \<Rightarrow> http_front" where
  "add_server appName server f =
     (case appHTTPservers f appName of
        Some vs \<Rightarrow> f\<lparr>appHTTPservers := (appHTTPservers f)(appName \<mapsto> vs @ [server])\<rparr>
      | None \<Rightarrow> f\<lparr>appHTTPservers := [appName \<mapsto> [server]]\<rparr>)"

text \<open>
  One turn of the loop of \<open>performAppHTTPSetup\<close>. The cluster is taken to be reachable; a handle of a bucket is
  named by the bucket.
\<close>

definition http_setup_one ::
  "(string \<Rightarrow> bool) \<Rightarrow> json option option \<Rightarrow> string \<Rightarrow> json \<Rightarrow> http_front \<Rightarrow> http_front result" where
  "http_setup_one usable depcfg appName c f =
     res_bind (as_map (Some c)) (\<lambda>httpConfig.
     res_bind (as_string (httpConfig ''root_uri_path'')) (\<lambda>URIPath.
     res_bind (as_string (httpConfig ''port'')) (\<lambda>port.
       let (server, f1) = Listen usable port appName URIPath f;
           f2 = add_server appName server f1
       in res_bind (getSource depcfg) (\<lambda>(_, metaBucket, _).
          res_bind (go_index (Split (CHR ''/'') URIPath) 1) (\<lambda>path.
            Inr (f2\<lparr>uriPrefixAppMap := (uriPrefixAppMap f2)(path \<mapsto> (appName, metaBucket)),
                    uriPrefixAppnameBackIndex := (uriPrefixAppnameBackIndex f2)(appName \<mapsto> path)\<rparr>))))))"

fun http_setup_loop ::
  "(string \<Rightarrow> bool) \<Rightarrow> json option option \<Rightarrow> string \<Rightarrow> json list \<Rightarrow> http_front \<Rightarrow> http_front result" where
  "http_setup_loop usable depcfg appName [] f = Inr f"
| "http_setup_loop usable depcfg appName (c # cs) f =
     res_bind (http_setup_one usable depcfg appName c f) (http_setup_loop usable depcfg appName cs)"

definition performAppHTTPSetup ::
  "(string \<Rightarrow> bool) \<Rightarrow> json option option \<Rightarrow> string \<Rightarrow> http_front \<Rightarrow> http_front result" where
  "performAppHTTPSetup usable depcfg appName f =
     (case depcfg of
        None \<Rightarrow> Inr f
      | Some cfg \<Rightarrow>
          res_bind (as_map cfg) (\<lambda>config.
          res_bind (as_list (config ''http'')) (\<lambda>httpConfigs.
            http_setup_loop usable depcfg appName httpConfigs f)))"

text \<open>Closing a server that has no listener does nothing.\<close>

definition close_server :: "nat option \<Rightarrow> http_front \<Rightarrow> http_front" where
  "close_server v f = (case v of None \<Rightarrow> f | Some i \<Rightarrow> f\<lparr>listeners := (listeners f)(i := None)\<rparr>)"

definition close_servers :: "string \<Rightarrow> http_front \<Rightarrow> http_front" where
  "close_servers appName f =
     (let f1 = fold close_server (case appHTTPservers f appName of Some vs \<Rightarrow> vs | None \<Rightarrow> []) f
      in f1\<lparr>appHTTPservers := (appHTTPservers f1)(appName := None)\<rparr>)"

text \<open>The path tables lose the last path of an application that had a worker.\<close>

definition forget_path :: "string \<Rightarrow> http_front \<Rightarrow> http_front" where
  "forget_path appName f =
     (let path = case uriPrefixAppnameBackIndex f appName of Some p \<Rightarrow> p | None \<Rightarrow> []
      in f\<lparr>uriPrefixAppnameBackIndex := (uriPrefixAppnameBackIndex f)(appName := None),
           uriPrefixAppMap := (uriPrefixAppMap f)(path := None)\<rparr>)"

text \<open>
  A new version: \<open>has_worker\<close> tells whether \<open>workerTable\<close> has the application. The setup runs once
  \<open>appSetup\<close> has its name.
\<close>

definition clean_up :: "bool \<Rightarrow> string \<Rightarrow> http_front \<Rightarrow> http_front" where
  "clean_up has_worker appName f =
     (let f1 = close_servers appName f in if has_worker then forget_path appName f1 else f1)"

definition redeploy ::
  "(string \<Rightarrow> bool) \<Rightarrow> json option option \<Rightarrow> bool \<Rightarrow> string \<Rightarrow> http_front \<Rightarrow> http_front result" where
  "redeploy usable depcfg has_worker appName f = performAppHTTPSetup usable depcfg appName (clean_up has_worker appName f)"

section \<open>Which handler gets a request\<close>

definition plain_path :: "string \<Rightarrow> bool" where
  "plain_path u \<longleftrightarrow> u \<noteq> [] \<and> set u \<inter> set (CHR 0x5C # ''.+*?()|[]{}^$'') = {}"

lemma MustCompile_plain: "CHR ''*'' \<notin> set s \<Longrightarrow> MustCompile s = map (\<lambda>c. (c, False)) s"
  by (induction s rule: MustCompile.induct) auto

lemma MustCompile_star:
  "u \<noteq> [] \<Longrightarrow> CHR ''*'' \<notin> set u \<Longrightarrow> MustCompile (u @ ''*'') = map (\<lambda>c. (c, False)) (butlast u) @ [(last u, True)]"
proof (induction u)
  case (Cons c u)
  then show ?case by (cases u) auto
qed simp

lemma match_here_plain: "match_here (map (\<lambda>c. (c, False)) w @ r) s \<longleftrightarrow> (\<exists>t. s = w @ t \<and> match_here r t)"
proof (induction w arbitrary: s)
  case (Cons c w)
  then show ?case by (cases s) auto
qed simp

lemma match_here_star: "match_here [(c, True)] s"
  by simp

lemma MatchString_iff: "MatchString r s \<longleftrightarrow> (\<exists>a b. s = a @ b \<and> match_here r b)"
proof (induction r s rule: MatchString.induct)
  case (2 r x s)
  have "(\<exists>a b. x # s = a @ b \<and> match_here r b) \<longleftrightarrow> match_here r (x # s) \<or> (\<exists>a b. s = a @ b \<and> match_here r b)"
    by (metis append_Cons append_Nil append_eq_Cons_conv)
  then show ?case using 2 by simp
qed simp

lemma MatchString_plain: "CHR ''*'' \<notin> set w \<Longrightarrow> MatchString (MustCompile w) s \<longleftrightarrow> (\<exists>a b. s = a @ w @ b)"
  using match_here_plain [of w "[]"] by (auto simp: MustCompile_plain MatchString_iff)

text \<open>
  A server of an application with a plain path gives a request to the static assets if its path has the
  application's path followed by \<open>static_assets/\<close> anywhere in it, otherwise to the handlers in JavaScript if it has the
  application's path without its last character anywhere in it, and answers that nothing was found otherwise.
\<close>

theorem routes_dispatch:
  assumes "plain_path u"
  shows "ServeHTTP (app_routes u) path =
    (if \<exists>a b. path = a @ u @ ''static_assets/'' @ b then Some StaticAssets
     else if \<exists>a b. path = a @ butlast u @ b then Some JsRequests
     else None)"
proof -
  have u: "u \<noteq> []" "CHR ''*'' \<notin> set u" using assms by (auto simp: plain_path_def)
  have "MatchString (MustCompile (u @ ''static_assets/'')) path \<longleftrightarrow> (\<exists>a b. path = a @ u @ ''static_assets/'' @ b)"
    using u MatchString_plain [of "u @ ''static_assets/''" path] by simp
  moreover have "MatchString (MustCompile (u @ ''*'')) path \<longleftrightarrow> (\<exists>a b. path = a @ butlast u @ b)"
    using u by (auto simp: MustCompile_star MatchString_iff match_here_plain)
  ultimately show ?thesis by (simp add: app_routes_def HandleFunc_def del: append_assoc)
qed

theorem routes_dispatch_witness:
  "ServeHTTP (app_routes ''/app/'') ''/app/static_assets/x'' = Some StaticAssets"
proof -
  have "plain_path ''/app/''" by (simp add: plain_path_def)
  from routes_dispatch [OF this, of "''/app/static_assets/x''"] show ?thesis
    by (metis append_Nil append.simps)
qed

text \<open>
  Without timeouts for ever, \<open>Accept\<close> returns: the first connection or error, whatever the timeouts before it.
\<close>

lemma Accept_first: "r \<noteq> Timeout \<Longrightarrow> Accept (replicate n Timeout @ r # rs) = Some (r, rs)"
  by (induction n) (cases r; simp)+

lemma Accept_None_iff: "Accept rs = None \<longleftrightarrow> (\<forall>r \<in> set rs. r = Timeout)"
  by (induction rs rule: Accept.induct) auto

section \<open>Listeners\<close>

text \<open>Every open listener is older than the next one, and no two have one port.\<close>

definition http_inv :: "http_front \<Rightarrow> bool" where
  "http_inv f \<longleftrightarrow>
     (\<forall>i. listeners f i \<noteq> None \<longrightarrow> i < next_listener f)
   \<and> (\<forall>i j p x y. listeners f i = Some (p, x) \<longrightarrow> listeners f j = Some (p, y) \<longrightarrow> i = j)"

lemma port_open_iff: "http_inv f \<Longrightarrow> port_open p f \<longleftrightarrow> (\<exists>i x. listeners f i = Some (p, x))"
proof -
  assume inv: "http_inv f"
  have "port_open p f \<longleftrightarrow> (\<exists>i < next_listener f. \<exists>x. listeners f i = Some (p, x))"
    unfolding port_open_def list_ex_iff by (fastforce split: option.splits)
  then show ?thesis using inv unfolding http_inv_def by (metis option.distinct(1))
qed

lemma Listen_inv:
  assumes inv: "http_inv f" and l: "Listen usable port app uri f = (v, f')"
  shows "http_inv f' \<and> listeners f \<subseteq>\<^sub>m listeners f' \<and> next_listener f \<le> next_listener f'"
proof (cases "usable port \<and> \<not> port_open port f")
  case True
  have "listeners f (next_listener f) = None" using inv unfolding http_inv_def by (metis less_irrefl)
  then show ?thesis using True inv l port_open_iff [OF inv, of port]
    by (auto simp: Listen_def http_inv_def map_le_def less_Suc_eq split: if_splits)
next
  case False
  then have "f' = f" using l by (auto simp: Listen_def split: if_splits)
  then show ?thesis using inv by simp
qed

lemma add_server_keeps [simp]:
  "listeners (add_server a v f) = listeners f" "next_listener (add_server a v f) = next_listener f"
  "uriPrefixAppMap (add_server a v f) = uriPrefixAppMap f"
  by (simp_all add: add_server_def split: option.splits)

lemma http_inv_cong: "listeners f = listeners g \<Longrightarrow> next_listener f = next_listener g \<Longrightarrow> http_inv f = http_inv g"
  by (simp add: http_inv_def)

lemma http_setup_oneE:
  assumes "http_setup_one usable depcfg a c f = Inr f'"
  obtains uri port v f1 where "Listen usable port a uri f = (v, f1)" "listeners f' = listeners f1"
    "next_listener f' = next_listener f1" "appHTTPservers f' = appHTTPservers (add_server a v f1)"
proof -
  from assms obtain m uri port where "as_map (Some c) = Inr m" "as_string (m ''root_uri_path'') = Inr uri" "as_string (m ''port'') = Inr port"
    by (auto simp: http_setup_one_def res_bind_eq_Inr_iff)
  moreover obtain v f1 where l: "Listen usable port a uri f = (v, f1)" by fastforce
  ultimately show ?thesis using assms that [OF l]
    by (auto simp: http_setup_one_def l Let_def res_bind_eq_Inr_iff)
qed

lemma http_setup_one_inv:
  assumes inv: "http_inv f" and s: "http_setup_one usable depcfg a c f = Inr f'"
  shows "http_inv f' \<and> listeners f \<subseteq>\<^sub>m listeners f'"
proof -
  from s obtain uri port v f1 where l: "Listen usable port a uri f = (v, f1)" and e: "listeners f' = listeners f1" "next_listener f' = next_listener f1"
    by (rule http_setup_oneE)
  show ?thesis using Listen_inv [OF inv l] http_inv_cong [OF e] by (simp add: e)
qed

lemma http_setup_loop_inv:
  "http_inv f \<Longrightarrow> http_setup_loop usable depcfg a cs f = Inr f' \<Longrightarrow> http_inv f' \<and> listeners f \<subseteq>\<^sub>m listeners f'"
proof (induction cs arbitrary: f)
  case (Cons c cs)
  then obtain f1 where "http_setup_one usable depcfg a c f = Inr f1" "http_setup_loop usable depcfg a cs f1 = Inr f'"
    by (auto simp: res_bind_eq_Inr_iff)
  then show ?case using Cons http_setup_one_inv map_le_trans by blast
qed simp

lemma performAppHTTPSetup_inv:
  "http_inv f \<Longrightarrow> performAppHTTPSetup usable depcfg a f = Inr f' \<Longrightarrow> http_inv f' \<and> listeners f \<subseteq>\<^sub>m listeners f'"
  using http_setup_loop_inv
  by (auto simp: performAppHTTPSetup_def res_bind_eq_Inr_iff split: option.splits)

lemma fold_close [simp]:
  "listeners (fold close_server vs f) i = (if Some i \<in> set vs then None else listeners f i)"
  "next_listener (fold close_server vs f) = next_listener f" "appHTTPservers (fold close_server vs f) = appHTTPservers f"
  by (induction vs arbitrary: f) (auto simp: close_server_def split: option.splits)

definition servers :: "http_front \<Rightarrow> string \<Rightarrow> nat option list" where
  "servers f a = (case appHTTPservers f a of Some vs \<Rightarrow> vs | None \<Rightarrow> [])"

lemma close_servers_simps [simp]:
  "listeners (close_servers a f) i = (if Some i \<in> set (servers f a) then None else listeners f i)"
  "next_listener (close_servers a f) = next_listener f" "servers (close_servers a f) a = []"
  by (simp_all add: close_servers_def servers_def Let_def split: option.splits)

lemma forget_path_simps [simp]:
  "listeners (forget_path a f) = listeners f" "next_listener (forget_path a f) = next_listener f"
  "appHTTPservers (forget_path a f) = appHTTPservers f" "servers (forget_path a f) b = servers f b"
  by (simp_all add: forget_path_def Let_def servers_def)

lemma clean_up_simps [simp]:
  "listeners (clean_up d a f) = listeners (close_servers a f)" "next_listener (clean_up d a f) = next_listener f"
  "servers (clean_up d a f) a = []"
  by (simp_all add: clean_up_def Let_def)

lemma clean_up_inv: "http_inv f \<Longrightarrow> http_inv (clean_up d a f)"
  unfolding http_inv_def by (simp split: if_splits)

text \<open>
  The table has exactly the open listeners of an application.
\<close>

definition tracked :: "string \<Rightarrow> http_front \<Rightarrow> bool" where
  "tracked a f \<longleftrightarrow> (\<forall>i p b u. listeners f i = Some (p, b, u) \<longrightarrow> (b = a \<longleftrightarrow> Some i \<in> set (servers f a)))"

lemma servers_add [simp]: "servers (add_server a v f) a = servers f a @ [v]"
  by (simp add: add_server_def servers_def split: option.splits)

lemma http_setup_one_tracked:
  assumes inv: "http_inv f" and t: "tracked a f" and s: "http_setup_one usable depcfg a c f = Inr f'"
  shows "tracked a f'"
proof -
  from s obtain uri port v f1 where l: "Listen usable port a uri f = (v, f1)"
    and e: "listeners f' = listeners f1" "next_listener f' = next_listener f1" "appHTTPservers f' = appHTTPservers (add_server a v f1)"
    by (rule http_setup_oneE)
  have new: "listeners f (next_listener f) = None" using inv unfolding http_inv_def by (metis less_irrefl)
  have "servers f' a = servers f1 a @ [v]" using e(3) servers_add [of a v f1] by (simp add: servers_def)
  moreover have "servers f1 a = servers f a" using l by (auto simp: Listen_def servers_def split: if_splits)
  ultimately have srv: "servers f' a = servers f a @ [v]" by simp
  show ?thesis
  proof (cases "usable port \<and> \<not> port_open port f")
    case True
    then have "v = Some (next_listener f)" "listeners f' = (listeners f)(next_listener f \<mapsto> (port, a, uri))"
      using l e(1) by (auto simp: Listen_def)
    then show ?thesis using t new by (simp add: tracked_def srv)
  next
    case False
    then have "v = None" "listeners f' = listeners f" using l e(1) by (auto simp: Listen_def split: if_splits)
    then show ?thesis using t by (simp add: tracked_def srv)
  qed
qed

lemma http_setup_loop_tracked:
  "http_inv f \<Longrightarrow> tracked a f \<Longrightarrow> http_setup_loop usable depcfg a cs f = Inr f' \<Longrightarrow> tracked a f'"
proof (induction cs arbitrary: f)
  case (Cons c cs)
  then obtain f1 where "http_setup_one usable depcfg a c f = Inr f1" "http_setup_loop usable depcfg a cs f1 = Inr f'"
    by (auto simp: res_bind_eq_Inr_iff)
  then show ?case using Cons http_setup_one_tracked http_setup_one_inv by blast
qed simp

lemma clean_up_tracked:
  "tracked a f \<Longrightarrow> tracked a (clean_up d a f)"
  by (auto simp: tracked_def split: if_splits)

text \<open>A deployment with the given paths and ports.\<close>

definition http_entry :: "string \<times> string \<Rightarrow> json" where
  "http_entry = (\<lambda>(uri, port). JObj [(''root_uri_path'', JStr uri), (''port'', JStr port)])"

definition http_depcfg :: "(string \<times> string) list \<Rightarrow> string \<Rightarrow> string \<Rightarrow> json option option" where
  "http_depcfg ups meta src =
     Some (Some (JObj [(''http'', JArr (map http_entry ups)), (''workspace'', JObj [(''metadata_bucket'', JStr meta)]),
                       (''source'', JObj [(''source_bucket'', JStr src)])]))"

lemma performAppHTTPSetup_depcfg:
  "performAppHTTPSetup usable (http_depcfg ups meta src) a f = http_setup_loop usable (http_depcfg ups meta src) a (map http_entry ups) f"
  by (simp add: performAppHTTPSetup_def http_depcfg_def as_map_def as_list_def)

lemma http_setup_one_entry:
  assumes "CHR ''/'' \<in> set uri"
  shows "\<exists>f'. http_setup_one usable (http_depcfg ups meta src) a (http_entry (uri, port)) f = Inr f'
    \<and> (usable port \<and> \<not> port_open port f \<longrightarrow>
         listeners f' = (listeners f)(next_listener f \<mapsto> (port, a, uri)) \<and> next_listener f' = Suc (next_listener f)
       \<and> appHTTPservers f' = appHTTPservers (add_server a (Some (next_listener f)) f))"
proof -
  have "count_list uri (CHR ''/'') \<noteq> 0" using assms(1) count_list_0_iff by metis
  then have "1 < length (Split (CHR ''/'') uri)" by (simp add: length_Split)
  moreover have "getSource (http_depcfg ups meta src) = Inr (src, meta, ''localhost'')"
    by (simp add: getSource_def http_depcfg_def as_map_def as_string_def)
  ultimately show ?thesis
    by (simp add: http_setup_one_def http_entry_def as_map_def as_string_def Listen_def go_index_def Let_def add_server_def
        split: option.split)
qed

lemma setup_one_server:
  assumes "CHR ''/'' \<in> set uri"
  shows "\<exists>f'. performAppHTTPSetup usable (http_depcfg [(uri, port)] meta src) a f = Inr f'
    \<and> (usable port \<and> \<not> port_open port f \<longrightarrow>
         listeners f' = (listeners f)(next_listener f \<mapsto> (port, a, uri)) \<and> next_listener f' = Suc (next_listener f)
       \<and> appHTTPservers f' = appHTTPservers (add_server a (Some (next_listener f)) f))"
  using http_setup_one_entry [OF assms, of usable "[(uri, port)]" meta src a port f] by (auto simp: performAppHTTPSetup_depcfg)

lemma http_setup_entries:
  assumes "http_inv f" "distinct (map snd ups)" "\<forall>(u, p) \<in> set ups. CHR ''/'' \<in> set u \<and> usable p \<and> \<not> port_open p f"
  shows "\<exists>f'. http_setup_loop usable (http_depcfg all meta src) a (map http_entry ups) f = Inr f'
    \<and> ran (listeners f') = ran (listeners f) \<union> (\<lambda>(u, p). (p, a, u)) ` set ups"
  using assms
proof (induction ups arbitrary: f)
  case Nil
  then show ?case by simp
next
  case (Cons up ups)
  obtain u p where up: "up = (u, p)" by (cases up)
  obtain f1 where f1: "http_setup_one usable (http_depcfg all meta src) a (http_entry (u, p)) f = Inr f1"
    "listeners f1 = (listeners f)(next_listener f \<mapsto> (p, a, u))"
    using http_setup_one_entry [of u usable all meta src a p f] Cons.prems up by auto
  have new: "listeners f (next_listener f) = None" using Cons.prems(1) unfolding http_inv_def by (metis less_irrefl)
  have inv: "http_inv f1" using http_setup_one_inv [OF Cons.prems(1) f1(1)] by simp
  have "\<forall>(u', p') \<in> set ups. CHR ''/'' \<in> set u' \<and> usable p' \<and> \<not> port_open p' f1"
  proof clarify
    fix u' p' assume in_ups: "(u', p') \<in> set ups"
    then have "p' \<noteq> p" using Cons.prems(2) up by force
    then show "CHR ''/'' \<in> set u' \<and> usable p' \<and> \<not> port_open p' f1"
      using Cons.prems(1,3) in_ups by (auto simp: port_open_iff [OF inv] port_open_iff f1(2) up split: if_splits)
  qed
  then obtain f' where "http_setup_loop usable (http_depcfg all meta src) a (map http_entry ups) f1 = Inr f'"
    "ran (listeners f') = ran (listeners f1) \<union> (\<lambda>(u, p). (p, a, u)) ` set ups"
    using Cons.IH [OF inv] Cons.prems(2) by auto
  moreover have "ran (listeners f1) = insert (p, a, u) (ran (listeners f))" using new by (simp add: f1(2) ran_map_upd)
  ultimately show ?case by (auto simp: f1(1) up)
qed

text \<open>
  C23. An application whose open listeners are exactly the ones the table has for it (\<open>tracked\<close>, which a set-up of another application in between breaks,
  see \<open>deploy_forgets_others\<close>) is deployed again with other servers: it then has exactly the new ones, on ports that no other application and no other process holds, the listeners of the other
  applications are untouched, and the table again has exactly its listeners. No port ever has two listeners.
\<close>

theorem redeploy_replaces_servers:
  assumes "http_inv f" "tracked a f" "distinct (map snd ups)" "\<forall>(u, p) \<in> set ups. CHR ''/'' \<in> set u \<and> usable p"
    and "\<forall>(u, p) \<in> set ups. \<forall>b v. (p, b, v) \<in> ran (listeners f) \<longrightarrow> b = a"
  shows "\<exists>f'. redeploy usable (http_depcfg ups meta src) d a f = Inr f' \<and> http_inv f' \<and> tracked a f'
    \<and> ran (listeners f') = {l \<in> ran (listeners f). fst (snd l) \<noteq> a} \<union> (\<lambda>(u, p). (p, a, u)) ` set ups"
proof -
  let ?f1 = "clean_up d a f"
  have inv: "http_inv ?f1" using assms(1) by (rule clean_up_inv)
  have ran: "ran (listeners ?f1) = {l \<in> ran (listeners f). fst (snd l) \<noteq> a}"
  proof -
    have "listeners ?f1 i = Some (p, b, u) \<longleftrightarrow> listeners f i = Some (p, b, u) \<and> b \<noteq> a" for i p b u
      using assms(2) by (auto simp: tracked_def split: if_splits)
    then show ?thesis by (simp add: ran_def set_eq_iff)
  qed
  have "\<not> port_open p ?f1" if "(u, p) \<in> set ups" for u p
  proof
    assume "port_open p ?f1"
    then obtain b v where "(p, b, v) \<in> ran (listeners ?f1)" by (auto simp: port_open_iff [OF inv] ran_def)
    then show False unfolding ran using assms(5) that by fastforce
  qed
  then have "\<forall>(u, p) \<in> set ups. CHR ''/'' \<in> set u \<and> usable p \<and> \<not> port_open p ?f1" using assms(4) by auto
  from http_setup_entries [OF inv assms(3) this, of ups meta src a] obtain f'
    where f': "http_setup_loop usable (http_depcfg ups meta src) a (map http_entry ups) ?f1 = Inr f'"
      "ran (listeners f') = ran (listeners ?f1) \<union> (\<lambda>(u, p). (p, a, u)) ` set ups" by auto
  moreover have "http_inv f' \<and> tracked a f'"
    using http_setup_loop_inv [OF inv f'(1)] http_setup_loop_tracked [OF inv clean_up_tracked [OF assms(2)] f'(1)] by simp
  ultimately show ?thesis unfolding redeploy_def performAppHTTPSetup_depcfg ran by blast
qed

definition http_front_init :: http_front where
  "http_front_init = \<lparr>appHTTPservers = Map.empty, listeners = Map.empty, next_listener = 0,
     uriPrefixAppMap = Map.empty, uriPrefixAppnameBackIndex = Map.empty\<rparr>"

lemma http_front_init_ok [simp]: "http_inv http_front_init" "tracked a http_front_init" "ran (listeners http_front_init) = {}"
  by (simp_all add: http_inv_def tracked_def http_front_init_def)

theorem redeploy_replaces_servers_witness:
  "\<exists>f1 f2. redeploy (\<lambda>_. True) (http_depcfg [(''/a/'', ''80'')] ''meta'' ''src'') False ''app'' http_front_init = Inr f1
    \<and> ran (listeners f1) = {(''80'', ''app'', ''/a/'')}
    \<and> redeploy (\<lambda>_. True) (http_depcfg [(''/b/'', ''80''), (''/c/'', ''81'')] ''meta'' ''src'') True ''app'' f1 = Inr f2
    \<and> ran (listeners f2) = {(''80'', ''app'', ''/b/''), (''81'', ''app'', ''/c/'')} \<and> tracked ''app'' f2"
proof -
  obtain f1 where f1: "redeploy (\<lambda>_. True) (http_depcfg [(''/a/'', ''80'')] ''meta'' ''src'') False ''app'' http_front_init = Inr f1"
    "http_inv f1" "tracked ''app'' f1" "ran (listeners f1) = {(''80'', ''app'', ''/a/'')}"
    using redeploy_replaces_servers [of http_front_init "''app''" "[(''/a/'', ''80'')]" "\<lambda>_. True" "''meta''" "''src''" False] by auto
  have old: "{l \<in> ran (listeners f1). fst (snd l) \<noteq> ''app''} = {}" by (auto simp: f1(4))
  obtain f2 where "redeploy (\<lambda>_. True) (http_depcfg [(''/b/'', ''80''), (''/c/'', ''81'')] ''meta'' ''src'') True ''app'' f1 = Inr f2"
    "tracked ''app'' f2" "ran (listeners f2) = {(''80'', ''app'', ''/b/''), (''81'', ''app'', ''/c/'')}"
    using redeploy_replaces_servers [OF f1(2,3), of "[(''/b/'', ''80''), (''/c/'', ''81'')]" "\<lambda>_. True" "''meta''" "''src''" True] f1(4)
    unfolding old by auto
  then show ?thesis using f1(1,4) by blast
qed

section \<open>Servers that are forgotten\<close>

lemma http_setup_one_forgets:
  assumes "http_setup_one usable depcfg a c f = Inr f'" "appHTTPservers f a = None \<or> dom (appHTTPservers f) = {a}"
  shows "dom (appHTTPservers f') = {a}"
proof -
  from assms(1) obtain uri port v f1 where l: "Listen usable port a uri f = (v, f1)"
    and e: "appHTTPservers f' = appHTTPservers (add_server a v f1)"
    by (rule http_setup_oneE)
  have "appHTTPservers f1 = appHTTPservers f" using l by (auto simp: Listen_def split: if_splits)
  then show ?thesis using assms(2) by (auto simp: e add_server_def split: option.splits)
qed

lemma http_setup_loop_forgets:
  "http_setup_loop usable depcfg a cs f = Inr f' \<Longrightarrow> dom (appHTTPservers f) = {a} \<or> (cs \<noteq> [] \<and> appHTTPservers f a = None) \<Longrightarrow>
     dom (appHTTPservers f') = {a}"
proof (induction cs arbitrary: f)
  case (Cons c cs)
  then obtain f1 where "http_setup_one usable depcfg a c f = Inr f1" "http_setup_loop usable depcfg a cs f1 = Inr f'"
    by (auto simp: res_bind_eq_Inr_iff)
  moreover have "dom (appHTTPservers f1) = {a}" using Cons.prems(2) by (intro http_setup_one_forgets [OF calculation(1)]) blast
  ultimately show ?case using Cons.IH by simp
qed simp

text \<open>
  Setting up the servers of one application makes the service forget those of every other. When one of the others is
  deployed again, none of its listeners is closed: each goes on serving the old version on its port, and the new version
  gets no listener there.
\<close>

theorem deploy_forgets_others:
  assumes "http_inv f" "appHTTPservers f a = None" "ups \<noteq> []" "a \<noteq> b"
    and "performAppHTTPSetup usable (http_depcfg ups meta src) a f = Inr f1" "redeploy usable depcfg d b f1 = Inr f2"
    and "listeners f i = Some (port, b, uri)"
  shows "listeners f2 i = Some (port, b, uri) \<and> (\<forall>j x. listeners f2 j = Some (port, x) \<longleftrightarrow> j = i \<and> x = (b, uri))"
proof -
  have inv1: "http_inv f1" and le1: "listeners f \<subseteq>\<^sub>m listeners f1" using performAppHTTPSetup_inv [OF assms(1,5)] by auto
  have "dom (appHTTPservers f1) = {a}"
    using http_setup_loop_forgets assms(2,3,5) unfolding performAppHTTPSetup_depcfg by blast
  then have "servers f1 b = []" using assms(4) by (auto simp: servers_def split: option.splits)
  then have same: "listeners (clean_up d b f1) = listeners f1" by (simp add: fun_eq_iff)
  have "http_inv f2 \<and> listeners (clean_up d b f1) \<subseteq>\<^sub>m listeners f2"
    using performAppHTTPSetup_inv [OF clean_up_inv [OF inv1]] assms(6) unfolding redeploy_def by blast
  then have inv2: "http_inv f2" and le2: "listeners f1 \<subseteq>\<^sub>m listeners f2" unfolding same by blast+
  have i: "listeners f2 i = Some (port, b, uri)"
    using assms(7) le1 le2 by (metis domI map_le_def)
  then show ?thesis using inv2 unfolding http_inv_def by (metis option.inject prod.inject)
qed

theorem deploy_forgets_others_witness:
  "\<exists>f f1 f2. performAppHTTPSetup (\<lambda>_. True) (http_depcfg [(''/b/'', ''80'')] ''meta'' ''src'') ''b'' http_front_init = Inr f
    \<and> performAppHTTPSetup (\<lambda>_. True) (http_depcfg [(''/a/'', ''81'')] ''meta'' ''src'') ''a'' f = Inr f1
    \<and> redeploy (\<lambda>_. True) (http_depcfg [(''/new/'', ''80'')] ''meta'' ''src'') True ''b'' f1 = Inr f2
    \<and> (\<forall>j x. listeners f2 j = Some (''80'', x) \<longleftrightarrow> j = 0 \<and> x = (''b'', ''/b/''))"
proof -
  obtain f where f: "performAppHTTPSetup (\<lambda>_. True) (http_depcfg [(''/b/'', ''80'')] ''meta'' ''src'') ''b'' http_front_init = Inr f"
      "listeners f = [0 \<mapsto> (''80'', ''b'', ''/b/'')]" "next_listener f = 1" "appHTTPservers f = [''b'' \<mapsto> [Some 0]]"
    using setup_one_server [of "''/b/''" "\<lambda>_. True" "''80''" "''meta''" "''src''" "''b''" http_front_init]
    by (auto simp: port_open_def http_front_init_def add_server_def)
  obtain f1 where f1: "performAppHTTPSetup (\<lambda>_. True) (http_depcfg [(''/a/'', ''81'')] ''meta'' ''src'') ''a'' f = Inr f1"
      "listeners f1 = [0 \<mapsto> (''80'', ''b'', ''/b/''), 1 \<mapsto> (''81'', ''a'', ''/a/'')]" "next_listener f1 = 2" "appHTTPservers f1 = [''a'' \<mapsto> [Some 1]]"
    using setup_one_server [of "''/a/''" "\<lambda>_. True" "''81''" "''meta''" "''src''" "''a''" f] f
    by (auto simp: port_open_def add_server_def)
  obtain f2 where f2: "redeploy (\<lambda>_. True) (http_depcfg [(''/new/'', ''80'')] ''meta'' ''src'') True ''b'' f1 = Inr f2"
    using setup_one_server [of "''/new/''" "\<lambda>_. True" "''80''" "''meta''" "''src''" "''b''" "clean_up True ''b'' f1"]
    by (auto simp: redeploy_def)
  have "http_inv f" using performAppHTTPSetup_inv [OF _ f(1)] by simp
  from deploy_forgets_others [OF this _ _ _ f1(1) f2, of 0 "''80''" "''/b/''"]
  have "\<forall>j x. listeners f2 j = Some (''80'', x) \<longleftrightarrow> j = 0 \<and> x = (''b'', ''/b/'')" using f by simp
  then show ?thesis using f(1) f1(1) f2 by blast
qed

section \<open>Requests for JavaScript\<close>

text \<open>
  The struct \<open>httpRequest\<close> as JSON: a nil map of parameters is null, a map is written in the order of its keys.
\<close>

definition httpRequest_text :: "string \<Rightarrow> string \<Rightarrow> (string, string) std_map option \<Rightarrow> string" where
  "httpRequest_text path host params =
     ''{'' @ marshal_members [(''path'', path), (''host'', host)] @ '','' @ marshal_string ''params'' @ '':''
       @ (case params of None \<Rightarrow> ''null'' | Some m \<Rightarrow> marshal_struct m) @ ''}''"

text \<open>
  \<open>referrers\<close> is \<open>workerHTTPReferrerTable\<close>, from the host and port of a request to the worker; \<open>params\<close> has the first value of each parameter of
  the query.
\<close>

definition handleJsRequests ::
  "('h, 'v, 's, 'r, 'm) libs \<Rightarrow> (string \<rightharpoonup> nat) \<Rightarrow> string \<Rightarrow> string \<Rightarrow> string \<Rightarrow> string \<Rightarrow> (string, string) std_map
     \<Rightarrow> ('h, 'v, 's, 'r, 'm) go_state \<Rightarrow> (response_writer \<times> ('h, 'v, 's, 'r, 'm) go_state) result" where
  "handleJsRequests L referrers Method URL_Path URL_Host Host params st =
     (let reply = (\<lambda>(res, st'). Inr (Fprintf (res @ [CHR 0x0A]) (Header_Set ''application/json'' response_new), st'))
      in if Method = ''GET''
         then res_bind (go_index (Split (CHR ''/'') URL_Path) 2) (\<lambda>path.
                case referrers Host of
                  None \<Rightarrow> Inl Null_deref
                | Some p \<Rightarrow> res_bind (go_SendHTTPGet L p (httpRequest_text path URL_Host None) st) reply)
         else if Method = ''POST''
         then res_bind (go_index (Split (CHR ''/'') URL_Path) 2) (\<lambda>path.
                case referrers Host of
                  None \<Rightarrow> Inl Null_deref
                | Some p \<Rightarrow> res_bind (go_SendHTTPPost L p (httpRequest_text path URL_Host (Some params)) st) reply)
         else Inr (response_new, st))"

lemma SendHTTP_dangling: "SendHTTP L on_http req st = Inr (t, st') \<Longrightarrow> \<exists>x. t = Dangling x"
  by (cases "json_argument L req"; cases "snd (json_argument L req)")
    (auto simp: SendHTTP_def res_bind_eq_Inr_iff ConvertMapToJson_def Let_def split: prod.splits)

lemma go_SendHTTP_fault: "\<exists>e. go_SendHTTPGet L p r st = Inl e" "\<exists>e. go_SendHTTPPost L p r st = Inl e"
proof -
  have fault: "\<exists>e. res_bind (call_c L call p st) GoString = Inl e"
    if t: "\<And>w x r w' x'. api_exec L call (w, x) = Inr (r, w', x') \<Longrightarrow> \<exists>y. r = Text (Dangling y)" for call
  proof (cases "call_c L call p st")
    case (Inr r)
    obtain b x where st: "st = (b, x)" by (cases st)
    obtain r1 st1 where r: "r = (r1, st1)" by (cases r)
    have "\<exists>y. r1 = Text (Dangling y)"
      using Inr t by (auto simp: st r call_c_def res_bind_eq_Inr_iff split: if_splits)
    then show ?thesis using Inr by (auto simp: r GoString_def deref_def)
  qed simp
  show "\<exists>e. go_SendHTTPGet L p r st = Inl e" "\<exists>e. go_SendHTTPPost L p r st = Inl e"
    unfolding go_SendHTTPGet_def go_SendHTTPPost_def
    by (rule fault; auto simp: api_exec_defs split: c_worker.splits simp: res_bind_eq_Inr_iff Let_def SendHTTPGet_def SendHTTPPost_def dest: SendHTTP_dangling)+
qed

text \<open>
  No request for a handler in JavaScript is answered by what the handler returned: a GET or POST ends in a panic, in a fault of the
  handler, or in a read of the text that \<open>SendHTTPGet\<close> and \<open>SendHTTPPost\<close> returned after it was freed. Other methods get an empty
  response. A path of one piece, as of the root of an application without its last slash, and a host under which no
  application is known, panic before the worker is reached.
\<close>

theorem js_requests_fault:
  "(if Method \<in> {''GET'', ''POST''} then \<exists>e. handleJsRequests L referrers Method path URL_Host Host params st = Inl e
    else handleJsRequests L referrers Method path URL_Host Host params st = Inr (response_new, st))
   \<and> handleJsRequests L referrers ''GET'' ''/app'' URL_Host Host params st = Inl (Go_panic ''index out of range'')
   \<and> handleJsRequests L Map.empty ''GET'' ''/app/x'' URL_Host Host params st = Inl Null_deref"
proof (intro conjI)
  have get: "\<exists>e. res_bind (go_SendHTTPGet L p r st) k = Inl e" for p r k using go_SendHTTP_fault(1) [of L p r st] by auto
  have post: "\<exists>e. res_bind (go_SendHTTPPost L p r st) k = Inl e" for p r k using go_SendHTTP_fault(2) [of L p r st] by auto
  show "if Method \<in> {''GET'', ''POST''} then \<exists>e. handleJsRequests L referrers Method path URL_Host Host params st = Inl e
    else handleJsRequests L referrers Method path URL_Host Host params st = Inr (response_new, st)"
    using get post by (auto simp: handleJsRequests_def Let_def go_index_def split: option.split)
qed (simp_all add: handleJsRequests_def go_index_def)

end
