(* ===== verification/DebugServer.thy ===== *)
theory DebugServer
  imports HttpServers
begin

text \<open>
  The debugger's side of the service: the nine requests of src/worker/worker.go, \<open>v8DebugHandler\<close>,
  \<open>forwardDebugCommand\<close>, \<open>startV8Debugger\<close> and \<open>stopV8Debugger\<close> of src/go_eventing/http_handlers.go. The lemmas follow a command from the
  user's request to the program that the worker runs for it, and show when the port of the debugger
  cannot be closed any more.
\<close>

section \<open>The requests of the binding\<close>

text \<open>A request is answered at once or goes on as a program of the theory Debugger, on the thread of its caller.\<close>

datatype debug_outcome = Answered string | Waiting "instr list"

definition go_debug_request ::
  "('h, 'v, 's, 'r, 'm) libs \<Rightarrow> (string \<Rightarrow> api_call) \<Rightarrow> nat \<Rightarrow> string \<Rightarrow> ('h, 'v, 's, 'r, 'm) go_state
     \<Rightarrow> (debug_outcome \<times> ('h, 'v, 's, 'r, 'm) go_state) result" where
  "go_debug_request L call p r st =
     res_bind (call_c L (call (c_str r)) p st) (\<lambda>(res, st').
       case res of
         Text t \<Rightarrow> res_bind (deref t) (\<lambda>s. Inr (Answered s, st'))
       | Waits prog \<Rightarrow> Inr (Waiting prog, st')
       | _ \<Rightarrow> Inl Library_contract)"

definition go_SendContinueRequest ::
  "('h, 'v, 's, 'r, 'm) libs \<Rightarrow> nat \<Rightarrow> string \<Rightarrow> ('h, 'v, 's, 'r, 'm) go_state \<Rightarrow> (debug_outcome \<times> ('h, 'v, 's, 'r, 'm) go_state) result" where
  "go_SendContinueRequest L = go_debug_request L worker_send_continue_request"

definition go_SendEvaluateRequest ::
  "('h, 'v, 's, 'r, 'm) libs \<Rightarrow> nat \<Rightarrow> string \<Rightarrow> ('h, 'v, 's, 'r, 'm) go_state \<Rightarrow> (debug_outcome \<times> ('h, 'v, 's, 'r, 'm) go_state) result" where
  "go_SendEvaluateRequest L = go_debug_request L worker_send_evaluate_request"

definition go_SendLookupRequest ::
  "('h, 'v, 's, 'r, 'm) libs \<Rightarrow> nat \<Rightarrow> string \<Rightarrow> ('h, 'v, 's, 'r, 'm) go_state \<Rightarrow> (debug_outcome \<times> ('h, 'v, 's, 'r, 'm) go_state) result" where
  "go_SendLookupRequest L = go_debug_request L worker_send_lookup_request"

definition go_SendBacktraceRequest ::
  "('h, 'v, 's, 'r, 'm) libs \<Rightarrow> nat \<Rightarrow> string \<Rightarrow> ('h, 'v, 's, 'r, 'm) go_state \<Rightarrow> (debug_outcome \<times> ('h, 'v, 's, 'r, 'm) go_state) result" where
  "go_SendBacktraceRequest L = go_debug_request L worker_send_backtrace_request"

definition go_SendFrameRequest ::
  "('h, 'v, 's, 'r, 'm) libs \<Rightarrow> nat \<Rightarrow> string \<Rightarrow> ('h, 'v, 's, 'r, 'm) go_state \<Rightarrow> (debug_outcome \<times> ('h, 'v, 's, 'r, 'm) go_state) result" where
  "go_SendFrameRequest L = go_debug_request L worker_send_frame_request"

definition go_SendSourceRequest ::
  "('h, 'v, 's, 'r, 'm) libs \<Rightarrow> nat \<Rightarrow> string \<Rightarrow> ('h, 'v, 's, 'r, 'm) go_state \<Rightarrow> (debug_outcome \<times> ('h, 'v, 's, 'r, 'm) go_state) result" where
  "go_SendSourceRequest L = go_debug_request L worker_send_source_request"

definition go_SendSetBreakpointRequest ::
  "('h, 'v, 's, 'r, 'm) libs \<Rightarrow> nat \<Rightarrow> string \<Rightarrow> ('h, 'v, 's, 'r, 'm) go_state \<Rightarrow> (debug_outcome \<times> ('h, 'v, 's, 'r, 'm) go_state) result" where
  "go_SendSetBreakpointRequest L = go_debug_request L worker_send_setbreakpoint_request"

definition go_SendClearBreakpointRequest ::
  "('h, 'v, 's, 'r, 'm) libs \<Rightarrow> nat \<Rightarrow> string \<Rightarrow> ('h, 'v, 's, 'r, 'm) go_state \<Rightarrow> (debug_outcome \<times> ('h, 'v, 's, 'r, 'm) go_state) result" where
  "go_SendClearBreakpointRequest L = go_debug_request L worker_send_clearbreakpoint_request"

definition go_SendListBreakpoints ::
  "('h, 'v, 's, 'r, 'm) libs \<Rightarrow> nat \<Rightarrow> string \<Rightarrow> ('h, 'v, 's, 'r, 'm) go_state \<Rightarrow> (debug_outcome \<times> ('h, 'v, 's, 'r, 'm) go_state) result" where
  "go_SendListBreakpoints L = go_debug_request L worker_send_listbreakpoints_request"

section \<open>Queries\<close>

text \<open>
  \<open>url.ParseQuery\<close>: pairs between the separators, with the escapes resolved; a pair with a malformed
  escape is dropped. A name has the list of its values in their order, empty if it does not occur.
\<close>

function QueryUnescape :: "string \<Rightarrow> string option" where
  "QueryUnescape [] = Some []"
| "QueryUnescape (c # s) =
     (if c = CHR ''%''
      then (case s of
              a # b # t \<Rightarrow>
                (case (hex_value a, hex_value b) of
                   (Some i, Some j) \<Rightarrow> map_option (Cons (char_of (16 * i + j))) (QueryUnescape t)
                 | _ \<Rightarrow> None)
            | _ \<Rightarrow> None)
      else map_option (Cons (if c = CHR ''+'' then CHR '' '' else c)) (QueryUnescape s))"
  by pat_completeness auto
termination
  by (relation "measure length") auto

definition query_pair :: "string \<Rightarrow> (string \<times> string) list" where
  "query_pair s =
     (if s = [] then []
      else case (QueryUnescape (takeWhile (\<lambda>c. c \<noteq> CHR ''='') s), QueryUnescape (drop 1 (dropWhile (\<lambda>c. c \<noteq> CHR ''='') s))) of
             (Some k, Some v) \<Rightarrow> [(k, v)]
           | _ \<Rightarrow> [])"

definition ParseQuery :: "string \<Rightarrow> string \<Rightarrow> string list" where
  "ParseQuery q name =
     map snd (filter (\<lambda>kv. fst kv = name) (concat (map query_pair (Split (CHR ''&'') (map (\<lambda>c. if c = CHR '';'' then CHR ''&'' else c) q)))))"

text \<open>What follows the first question mark of a URL, up to a fragment.\<close>

definition RawQuery :: "string \<Rightarrow> string" where
  "RawQuery url = takeWhile (\<lambda>c. c \<noteq> CHR ''#'') (drop 1 (dropWhile (\<lambda>c. c \<noteq> CHR ''?'') url))"

section \<open>Commands\<close>

text \<open>
  \<open>forwardDebugCommand\<close> sends the body of its request to this URL; the names are not escaped.
\<close>

definition forward_url :: "(string \<Rightarrow> string list) \<Rightarrow> string result" where
  "forward_url values =
     res_bind (go_index (values ''command'') 0) (\<lambda>command.
     res_bind (go_index (values ''appname'') 0) (\<lambda>appName.
       Inr (''http://localhost:6062/debug?appname='' @ appName @ ''&command='' @ command)))"

text \<open>
  \<open>r.Body.Read(p)\<close> into a buffer of the announced length: one read, of the \<open>n\<close> bytes that have arrived; the rest
  of the buffer stays zero.
\<close>

definition read_once :: "nat \<Rightarrow> nat \<Rightarrow> string \<Rightarrow> string" where
  "read_once len n body = (let got = take len (take n body) in got @ replicate (len - length got) NUL)"

definition v8DebugHandler ::
  "('h, 'v, 's, 'r, 'm) libs \<Rightarrow> (string \<rightharpoonup> nat) \<Rightarrow> (string \<Rightarrow> string list) \<Rightarrow> int \<Rightarrow> nat \<Rightarrow> string \<Rightarrow> ('h, 'v, 's, 'r, 'm) go_state
     \<Rightarrow> (debug_outcome \<times> ('h, 'v, 's, 'r, 'm) go_state) result" where
  "v8DebugHandler L workers values ContentLength n body st =
     res_bind (go_index (values ''command'') 0) (\<lambda>command.
     res_bind (go_index (values ''appname'') 0) (\<lambda>appName.
       case workers appName of
         None \<Rightarrow> Inr (Answered ''Application missing'', st)
       | Some p \<Rightarrow>
           if ContentLength < 0 then Inl (Go_panic ''makeslice: len out of range'')
           else let payload = read_once (nat ContentLength) n body
                in if command = ''continue'' then go_SendContinueRequest L p payload st
                   else if command = ''evaluate'' then go_SendEvaluateRequest L p payload st
                   else if command = ''lookup'' then go_SendLookupRequest L p payload st
                   else if command = ''backtrace'' then go_SendBacktraceRequest L p payload st
                   else if command = ''frame'' then go_SendFrameRequest L p payload st
                   else if command = ''source'' then go_SendSourceRequest L p payload st
                   else if command = ''setbreakpoint'' then go_SendSetBreakpointRequest L p payload st
                   else if command = ''clearbreakpoint'' then go_SendClearBreakpointRequest L p payload st
                   else if command = ''listbreakpoints'' then go_SendListBreakpoints L p payload st
                   else Inr (Answered [], st)))"

section \<open>Starting and stopping\<close>

text \<open>
  The state: the variable \<open>v8TCPListener\<close>, the listener that holds the port, and the routines that serve a listener, with
  the worker they stop at the end, nil where the application was missing. A handler that panics leaves the
  state as it was at that point.
\<close>

record debug_front =
  v8TCPListener :: "nat option"
  debug_open :: "nat option"
  debug_next :: nat
  debug_served :: "(nat \<times> nat option) list"

definition startV8Debugger ::
  "('h, 'v, 's, 'r, 'm) libs \<Rightarrow> (string \<rightharpoonup> nat) \<Rightarrow> (string \<Rightarrow> string list) \<Rightarrow> debug_front \<times> ('h, 'v, 's, 'r, 'm) go_state
     \<Rightarrow> string result \<times> debug_front \<times> ('h, 'v, 's, 'r, 'm) go_state" where
  "startV8Debugger L workers values = (\<lambda>(d, st).
     if debug_open d \<noteq> None then (Inr (''Failed to start V8 debugger thread'' @ [CHR 0x0A]), d\<lparr>v8TCPListener := None\<rparr>, st)
     else let i = debug_next d;
              d1 = d\<lparr>v8TCPListener := Some i, debug_open := Some i, debug_next := Suc i\<rparr>
          in case values ''name'' of
               [] \<Rightarrow> (Inl (Go_panic ''index out of range''), d1, st)
             | appName # _ \<Rightarrow>
                 (let serve = (\<lambda>h. d1\<lparr>debug_served := debug_served d1 @ [(i, h)]\<rparr>);
                      ok = Inr (''Started V8 debugger thread'' @ [CHR 0x0A])
                  in case workers appName of
                       None \<Rightarrow> (ok, serve None, st)
                     | Some p \<Rightarrow> (case go_StartV8Debugger L p st of Inl e \<Rightarrow> (Inl e, d1, st) | Inr st1 \<Rightarrow> (ok, serve (Some p), st1))))"

definition stopV8Debugger ::
  "debug_front \<times> 'st \<Rightarrow> string result \<times> debug_front \<times> 'st" where
  "stopV8Debugger = (\<lambda>(d, st).
     case v8TCPListener d of
       None \<Rightarrow> (Inl Null_deref, d, st)
     | Some i \<Rightarrow>
         (Inr (''Stopped V8 debugger thread'' @ [CHR 0x0A]),
          d\<lparr>debug_open := if debug_open d = Some i then None else debug_open d\<rparr>, st))"

text \<open>The end of the routine that served a listener: its panic is that of the whole process.\<close>

definition debug_routine_end ::
  "('h, 'v, 's, 'r, 'm) libs \<Rightarrow> nat \<times> nat option \<Rightarrow> ('h, 'v, 's, 'r, 'm) go_state \<Rightarrow> ('h, 'v, 's, 'r, 'm) go_state result" where
  "debug_routine_end L r st = (case snd r of None \<Rightarrow> Inl Null_deref | Some p \<Rightarrow> go_StopV8Debugger L p st)"

section \<open>From a command to its program\<close>

definition debug_commands :: "(string \<times> request) list" where
  "debug_commands = [(''continue'', ContinueReq), (''evaluate'', EvaluateReq), (''setbreakpoint'', SetBreakpointReq),
     (''clearbreakpoint'', ClearBreakpointReq), (''listbreakpoints'', ListBreakpointsReq)]"

lemma c_str_zeros: "c_str (s @ replicate k NUL) = c_str s"
  by (induction s) (cases k; auto simp: c_str_def)+

lemma c_str_read_once: "c_str (read_once len n body) = c_str (take len (take n body))"
  by (simp add: read_once_def Let_def c_str_zeros)

lemma call_c_same:
  assumes "p < length (go_workers b)" "cWorker (go_workers b ! p) = Alive w" "api_exec L call (Alive w, x) = Inr (r, Alive w, x)"
  shows "call_c L call p (b, x) = Inr (r, b, x)"
proof -
  have "(go_workers b ! p)\<lparr>cWorker := Alive w\<rparr> = go_workers b ! p" using assms(2) by simp
  then have "(go_workers b)[p := (go_workers b ! p)\<lparr>cWorker := Alive w\<rparr>] = go_workers b" by (metis list_update_id)
  then have "b\<lparr>go_workers := (go_workers b)[p := (go_workers b ! p)\<lparr>cWorker := Alive w\<rparr>]\<rparr> = b" by simp
  then show ?thesis using assms(1,3) by (simp add: call_c_def assms(2))
qed

text \<open>
  C15. A command of the debugger for an application whose worker is alive starts exactly one program of the worker: the one of
  continue, evaluate and the three breakpoint commands, with the bytes of the body that had arrived, up to the announced
  length and to the first zero byte. Every other command, those the worker has no code for among them, is answered with the
  empty text. No state of the service changes.
\<close>

theorem debug_command_program:
  assumes "p < length (go_workers b)" "cWorker (go_workers b ! p) = Alive w" "workers app = Some p"
    and "values ''command'' = command # cs" "values ''appname'' = app # as"
  shows "v8DebugHandler L workers values (int len) n body (b, x) =
    Inr (case map_of debug_commands command of
           Some r \<Rightarrow> Waiting (program_of r (c_str (take len (take n body))))
         | None \<Rightarrow> Answered [],
         (b, x))"
proof -
  note call = call_c_same [OF assms(1,2)]
  have "go_index (values ''command'') 0 = Inr command" "go_index (values ''appname'') 0 = Inr app"
    using assms(4,5) by (simp_all add: go_index_def)
  then show ?thesis using assms(3)
    by (simp add: v8DebugHandler_def Let_def debug_commands_def go_debug_request_def c_str_read_once call api_exec_defs deref_def
        program_of_def SendLookupRequest_def SendBacktraceRequest_def SendFrameRequest_def SendSourceRequest_def
        go_SendContinueRequest_def go_SendEvaluateRequest_def go_SendLookupRequest_def go_SendBacktraceRequest_def go_SendFrameRequest_def
        go_SendSourceRequest_def go_SendSetBreakpointRequest_def go_SendClearBreakpointRequest_def go_SendListBreakpoints_def)
qed

definition one_worker :: "('h, 'v) Worker \<Rightarrow> ('h, 'v) go_binding" where
  "one_worker w = go_binding_init\<lparr>go_workers := [\<lparr>cWorker = Alive w, tableIndex = 0, disposed = False\<rparr>]\<rparr>"

theorem debug_command_program_witness:
  "v8DebugHandler (ref_libs ends_quietly) [''app'' \<mapsto> 0] (\<lambda>k. if k = ''command'' then [''evaluate''] else [''app'']) 2 2 ''1+1'' (one_worker ref_worker, ref_world)
     = Inr (Waiting (SendEvaluateRequest ''1+''), (one_worker ref_worker, ref_world))"
proof -
  have "c_str ''1+'' = ''1+''" by (simp add: NUL_def)
  then show ?thesis
    using debug_command_program [of 0 "one_worker ref_worker" ref_worker "[''app'' \<mapsto> 0]" "''app''"
      "\<lambda>k. if k = ''command'' then [''evaluate''] else [''app'']" "''evaluate''" "[]" "[]" "ref_libs ends_quietly" 2 2 "''1+1''" ref_world]
    by (simp add: one_worker_def debug_commands_def program_of_def)
qed

section \<open>Forwarding\<close>

definition unreserved :: "string \<Rightarrow> bool" where
  "unreserved s \<longleftrightarrow> set s \<inter> set ''&=%+;#? '' = {}"

lemma QueryUnescape_plain: "CHR ''%'' \<notin> set s \<Longrightarrow> CHR ''+'' \<notin> set s \<Longrightarrow> QueryUnescape s = Some s"
  by (induction s) auto

lemma query_pair_plain:
  assumes "unreserved k" "unreserved v" "k \<noteq> []"
  shows "query_pair (k @ CHR ''='' # v) = [(k, v)]"
proof -
  have "takeWhile (\<lambda>c. c \<noteq> CHR ''='') (k @ CHR ''='' # v) = k" "dropWhile (\<lambda>c. c \<noteq> CHR ''='') (k @ CHR ''='' # v) = CHR ''='' # v"
    using assms(1) unfolding unreserved_def by (induction k) auto
  then show ?thesis using assms by (simp add: query_pair_def QueryUnescape_plain unreserved_def)
qed

text \<open>
  A command forwarded for an application, with names that have no character special to URLs, arrives under the same names. A name that
  has one need not: it can bring a command of its own.
\<close>

theorem forward_arrives:
  assumes "unreserved app" "unreserved command" "values ''command'' = command # cs" "values ''appname'' = app # as"
  shows "\<exists>url. forward_url values = Inr url \<and> ParseQuery (RawQuery url) ''appname'' = [app] \<and> ParseQuery (RawQuery url) ''command'' = [command]"
proof -
  define q where "q = (''appname'' @ CHR ''='' # app) @ CHR ''&'' # (''command'' @ CHR ''='' # command)"
  have url: "forward_url values = Inr (''http://localhost:6062/debug?'' @ q)"
    using assms(3,4) by (simp add: forward_url_def go_index_def q_def)
  have "CHR ''#'' \<notin> set q" using assms(1,2) by (simp add: q_def unreserved_def)
  then have raw: "RawQuery (''http://localhost:6062/debug?'' @ q) = q" by (simp add: RawQuery_def takeWhile_eq_all_conv) metis
  have "CHR '';'' \<notin> set q" using assms(1,2) by (simp add: q_def unreserved_def)
  then have semi: "map (\<lambda>c. if c = CHR '';'' then CHR ''&'' else c) q = q" by (induction q) auto
  have "Split (CHR ''&'') q = [''appname'' @ CHR ''='' # app, ''command'' @ CHR ''='' # command]"
    unfolding q_def using assms(1,2) by (subst Split_item) (simp_all add: unreserved_def)
  moreover have "query_pair (''appname'' @ CHR ''='' # app) = [(''appname'', app)]" "query_pair (''command'' @ CHR ''='' # command) = [(''command'', command)]"
    using assms(1,2) by (intro query_pair_plain; simp add: unreserved_def)+
  ultimately show ?thesis using url raw semi by (simp add: ParseQuery_def)
qed

theorem forward_arrives_witness:
  "\<exists>url. forward_url (\<lambda>k. if k = ''command'' then [''evaluate''] else [''app'']) = Inr url
     \<and> ParseQuery (RawQuery url) ''appname'' = [''app''] \<and> ParseQuery (RawQuery url) ''command'' = [''evaluate'']"
  by (rule forward_arrives) (simp_all add: unreserved_def)

section \<open>The port of the debugger\<close>

text \<open>
  Starting the debugger of an application whose worker is alive and stopping it leaves the port free and the worker with
  its debugger off, so that it can be started again.
\<close>

theorem debug_start_stop:
  assumes "debug_open d = None" "p < length (go_workers b)" "cWorker (go_workers b ! p) = Alive w" "workers app = Some p"
    and "values ''name'' = app # ns"
  shows "\<exists>d1 st1 d2 st2. startV8Debugger L workers values (d, b, x) = (Inr (''Started V8 debugger thread'' @ [CHR 0x0A]), d1, st1)
    \<and> debug_open d1 \<noteq> None \<and> cWorker (go_workers (fst st1) ! p) = Alive (w\<lparr>start_debug_flag := True\<rparr>)
    \<and> stopV8Debugger (d1, st1) = (Inr (''Stopped V8 debugger thread'' @ [CHR 0x0A]), d2, st1) \<and> debug_open d2 = None
    \<and> debug_served d2 \<noteq> [] \<and> debug_routine_end L (last (debug_served d2)) st1 = Inr st2
    \<and> cWorker (go_workers (fst st2) ! p) = Alive (w\<lparr>start_debug_flag := False\<rparr>)"
  using assms
  by (simp add: startV8Debugger_def stopV8Debugger_def debug_routine_end_def go_StartV8Debugger_def go_StopV8Debugger_def Let_def
      call_c_def api_exec_defs StartV8Debugger_def StopV8Debugger_def)

definition debug_front_init :: debug_front where
  "debug_front_init = \<lparr>v8TCPListener = None, debug_open = None, debug_next = 0, debug_served = []\<rparr>"

theorem debug_start_stop_witness:
  "\<exists>d1 st1 d2. startV8Debugger (ref_libs ends_quietly) [''app'' \<mapsto> 0] (\<lambda>_. [''app'']) (debug_front_init, one_worker ref_worker, ref_world)
      = (Inr (''Started V8 debugger thread'' @ [CHR 0x0A]), d1, st1) \<and> debug_open d1 \<noteq> None
    \<and> stopV8Debugger (d1, st1) = (Inr (''Stopped V8 debugger thread'' @ [CHR 0x0A]), d2, st1) \<and> debug_open d2 = None"
proof -
  have "debug_open debug_front_init = None" "0 < length (go_workers (one_worker ref_worker))" "cWorker (go_workers (one_worker ref_worker) ! 0) = Alive ref_worker"
    by (simp_all add: debug_front_init_def one_worker_def)
  from debug_start_stop [OF this, of "[''app'' \<mapsto> 0]" "''app''" "\<lambda>_. [''app'']" "[]" "ref_libs ends_quietly" ref_world]
  show ?thesis by auto
qed

text \<open>Requests of a user, one after the other.\<close>

datatype debug_op = Start "string \<Rightarrow> string list" | Stop

definition debug_do ::
  "('h, 'v, 's, 'r, 'm) libs \<Rightarrow> (string \<rightharpoonup> nat) \<Rightarrow> debug_op \<Rightarrow> debug_front \<times> ('h, 'v, 's, 'r, 'm) go_state
     \<Rightarrow> string result \<times> debug_front \<times> ('h, 'v, 's, 'r, 'm) go_state" where
  "debug_do L workers op s = (case op of Start values \<Rightarrow> startV8Debugger L workers values s | Stop \<Rightarrow> stopV8Debugger s)"

fun debug_run ::
  "('h, 'v, 's, 'r, 'm) libs \<Rightarrow> (string \<rightharpoonup> nat) \<Rightarrow> debug_op list \<Rightarrow> debug_front \<times> ('h, 'v, 's, 'r, 'm) go_state
     \<Rightarrow> string result list \<times> debug_front \<times> ('h, 'v, 's, 'r, 'm) go_state" where
  "debug_run L workers [] s = ([], s)"
| "debug_run L workers (op # ops) s =
     (case debug_do L workers op s of (r, s1) \<Rightarrow> (case debug_run L workers ops s1 of (rs, s2) \<Rightarrow> (r # rs, s2)))"

definition debug_refusal :: "debug_op \<Rightarrow> string result" where
  "debug_refusal op = (case op of Start _ \<Rightarrow> Inr (''Failed to start V8 debugger thread'' @ [CHR 0x0A]) | Stop \<Rightarrow> Inl Null_deref)"

definition debug_stuck :: "debug_front \<Rightarrow> bool" where
  "debug_stuck d \<longleftrightarrow> v8TCPListener d = None \<and> debug_open d \<noteq> None"

lemma debug_stuck_step:
  "debug_stuck d \<Longrightarrow> debug_do L workers op (d, st) =
     (debug_refusal op, d, st)"
  by (cases op) (auto simp: debug_refusal_def debug_do_def debug_stuck_def startV8Debugger_def stopV8Debugger_def)

lemma debug_stuck_run:
  "debug_stuck d \<Longrightarrow> debug_run L workers ops (d, st) =
     (map debug_refusal ops, d, st)"
  by (induction ops) (simp_all add: debug_stuck_step)

text \<open>
  A second start while the debugger runs makes the service lose its listener: whatever is requested then, every start fails
  and every stop panics, and the port is held until the service ends.
\<close>

theorem debug_port_lost:
  assumes "debug_open d = Some i"
  shows "debug_run L workers (Start values # ops) (d, st) =
    (map debug_refusal (Start values # ops), d\<lparr>v8TCPListener := None\<rparr>, st)"
proof -
  have "debug_do L workers (Start values) (d, st) = (debug_refusal (Start values), d\<lparr>v8TCPListener := None\<rparr>, st)"
    using assms by (simp add: debug_refusal_def debug_do_def startV8Debugger_def)
  moreover have "debug_stuck (d\<lparr>v8TCPListener := None\<rparr>)" using assms by (simp add: debug_stuck_def)
  ultimately show ?thesis using debug_stuck_run [of "d\<lparr>v8TCPListener := None\<rparr>" L workers ops st] by simp
qed

theorem debug_port_lost_witness:
  "debug_run (ref_libs ends_quietly) [''app'' \<mapsto> 0] [Start (\<lambda>_. [''app'']), Stop, Start (\<lambda>_. [''app'']), Stop]
      (\<lparr>v8TCPListener = Some 0, debug_open = Some 0, debug_next = 1, debug_served = [(0, Some 0)]\<rparr>, one_worker ref_worker, ref_world)
    = ([debug_refusal (Start (\<lambda>_. [''app''])), Inl Null_deref, debug_refusal (Start (\<lambda>_. [''app''])), Inl Null_deref],
       \<lparr>v8TCPListener = None, debug_open = Some 0, debug_next = 1, debug_served = [(0, Some 0)]\<rparr>, one_worker ref_worker, ref_world)"
  using debug_port_lost [of "\<lparr>v8TCPListener = Some 0, debug_open = Some 0, debug_next = 1, debug_served = [(0, Some 0)]\<rparr>" 0
      "ref_libs ends_quietly" "[''app'' \<mapsto> 0]" "\<lambda>_. [''app'']" "[Stop, Start (\<lambda>_. [''app'']), Stop]" "(one_worker ref_worker, ref_world)"]
  by (simp add: debug_refusal_def)

text \<open>
  The debugger of an application that is not there: the request succeeds, and stopping it ends the process.
\<close>

theorem debug_missing_app:
  assumes "debug_open d = None" "workers app = None" "values ''name'' = app # ns"
  shows "\<exists>d1. startV8Debugger L workers values (d, st) = (Inr (''Started V8 debugger thread'' @ [CHR 0x0A]), d1, st)
    \<and> debug_routine_end L (last (debug_served d1)) st = Inl Null_deref"
  using assms by (simp add: startV8Debugger_def debug_routine_end_def Let_def)

end
