(* ===== verification/Builtins.thy ===== *)
theory Builtins
  imports N1qlBinding Clock
begin

text \<open>
  The functions of src/go_eventing/builtin.js, which \<open>WorkerLoad\<close> puts after every handler: the template tag \<open>n1ql\<close>, which builds the text of a
  query and looks it up in the query object, and \<open>ISODateString\<close>. The lemmas show which text a query
  has, what the handler gets for it, and that the dates are those of the C++ side.
\<close>

section \<open>The tag\<close>

text \<open>A value of a template: a string, or something else with the text that \<open>concat\<close> makes of it.\<close>

datatype tag_value = JsString string | JsOther string

fun js_text :: "tag_value \<Rightarrow> string" where
  "js_text (JsString s) = s"
| "js_text (JsOther s) = s"

definition quoted_value :: "tag_value \<Rightarrow> string" where
  "quoted_value v =
     (case v of
        JsString s \<Rightarrow> if CHR ''-'' \<in> set s then ''`'' @ s @ ''`'' else s
      | JsOther s \<Rightarrow> s)"

text \<open>
  The loop, whose variable \<open>i\<close> is global: its last value is part of the result. A value that is missing, as when
  the function is not called as a tag, has the text undefined.
\<close>

definition value_at :: "tag_value list \<Rightarrow> nat \<Rightarrow> tag_value" where
  "value_at vs i = (if i < length vs then vs ! i else JsOther ''undefined'')"

function tag_loop :: "string list \<Rightarrow> tag_value list \<Rightarrow> nat \<Rightarrow> string \<Rightarrow> string \<times> nat" where
  "tag_loop strings vs i query =
     (if i < length strings - 1
      then tag_loop strings vs (Suc i) (query @ quoted_value (value_at vs i) @ strings ! Suc i)
      else (query, i))"
  by pat_completeness auto
termination
  by (relation "measure (\<lambda>(strings, vs, i, query). length strings - 1 - i)") auto

declare tag_loop.simps [simp del]

text \<open>
  The lookup \<open>_n1ql[query]\<close> in the query object. A template has one string at least.
\<close>

definition n1ql ::
  "'v v8 \<Rightarrow> 's lcb \<Rightarrow> host_object \<Rightarrow> string list \<Rightarrow> tag_value list \<Rightarrow> 's \<Rightarrow> ('v outcome \<times> 's) result" where
  "n1ql E L holder strings vs s =
     N1QLEnumGetCall E L (StringName (v8_string E (fst (tag_loop strings vs 0 (hd strings))))) holder s"

section \<open>Dates\<close>

text \<open>The parts of a date in UTC, with months from 0.\<close>

record js_date =
  UTCFullYear :: int
  UTCMonth :: nat
  UTCDate :: nat
  UTCHours :: nat
  UTCMinutes :: nat
  UTCSeconds :: nat

definition js_pad :: "nat \<Rightarrow> string" where
  "js_pad n = (if n < 10 then ''0'' @ dec_of_nat n else dec_of_nat n)"

definition ISODateString :: "js_date \<Rightarrow> string" where
  "ISODateString d =
     dec_of_int (UTCFullYear d) @ ''-'' @ js_pad (UTCMonth d + 1) @ ''-'' @ js_pad (UTCDate d) @ ''T''
       @ js_pad (UTCHours d) @ '':'' @ js_pad (UTCMinutes d) @ '':'' @ js_pad (UTCSeconds d)"

text \<open>The date of a time value, the milliseconds since 1970.\<close>

definition date_at :: "int \<Rightarrow> js_date" where
  "date_at ms =
     (let x = gmtime (ms div 1000)
      in \<lparr>UTCFullYear = tm_year x, UTCMonth = tm_mon x - 1, UTCDate = tm_mday x,
          UTCHours = tm_hour x, UTCMinutes = tm_min x, UTCSeconds = tm_sec x\<rparr>)"

section \<open>What a query is\<close>

fun interleave :: "string list \<Rightarrow> tag_value list \<Rightarrow> string" where
  "interleave [] vs = []"
| "interleave (s # ss) [] = s @ concat ss"
| "interleave (s # ss) (v # vs) = s @ (if ss = [] then [] else quoted_value v @ interleave ss vs)"

lemma tag_loop_interleave:
  "length strings = Suc (length vs) \<Longrightarrow> i \<le> length vs \<Longrightarrow>
     tag_loop strings vs i (query @ strings ! i) = (query @ interleave (drop i strings) (drop i vs), length vs)"
proof (induction "length vs - i" arbitrary: i query)
  case 0
  then have i: "i = length vs" by simp
  then have "drop i strings = [strings ! i]" using 0 by (metis Cons_nth_drop_Suc drop_all lessI order_refl)
  then show ?case using 0 i by (simp add: tag_loop.simps)
next
  case (Suc n)
  then have i: "i < length vs" by simp
  have d: "drop i strings = strings ! i # drop (Suc i) strings" "drop i vs = vs ! i # drop (Suc i) vs"
    using i Suc.prems by (simp_all add: Cons_nth_drop_Suc)
  have "tag_loop strings vs i (query @ strings ! i)
      = tag_loop strings vs (Suc i) ((query @ strings ! i @ quoted_value (vs ! i)) @ strings ! Suc i)"
    using i Suc.prems by (subst tag_loop.simps) (simp add: value_at_def)
  also have "\<dots> = ((query @ strings ! i @ quoted_value (vs ! i)) @ interleave (drop (Suc i) strings) (drop (Suc i) vs), length vs)"
    using Suc i by (intro Suc.hyps(1)) simp_all
  finally show ?case using i Suc.prems by (simp add: d)
qed

text \<open>
  The tag gives the handler the rows of the query whose text is the template with its values put in, each string with a hyphen
  between backticks: the array of the parsed rows if the query succeeds, and as many holes as rows if it fails.
\<close>

theorem n1ql_tag_correct:
  assumes "length strings = Suc (length vs)" "ObjectToString E (Some (v8_string E (interleave strings vs))) = Inr (interleave strings vs)"
    and "UnwrapLcbInstance h = Inr b"
    and "lcb_n1ql_query L s b (interleave strings vs) = (map row_response rs @ [final_response rc meta], s')"
    and "list_all (\<lambda>r. v8_parse E (c_str r) \<noteq> None) rs"
  shows "n1ql E L h strings vs s =
    Inr (Returned (v8_array E (if rc = LCB_SUCCESS then map (\<lambda>r. v8_parse E (c_str r)) rs else replicate (length rs) None)), s')"
proof -
  have "hd strings = strings ! 0" using assms(1) by (cases strings) auto
  then have "fst (tag_loop strings vs 0 (hd strings)) = interleave strings vs"
    using tag_loop_interleave [OF assms(1), of 0 "[]"] by simp
  then show ?thesis
    using N1QLEnumGetCall_eq [OF assms(2-4)] set_rows_eq [OF assms(5), of "[]"] by (simp add: n1ql_def)
qed

theorem n1ql_tag_correct_witness:
  "n1ql ref_v8 ref_lcb (n1ql_object (N1QL_new ''default'' ''localhost'' ''_n1ql'')) [''select * from '', [] ] [JsString ''beer-sample''] ref_empty
    = Inr (Returned (v8_array ref_v8 [Some ''select * from `beer-sample`'']), ref_empty)"
proof -
  let ?h = "n1ql_object (N1QL_new ''default'' ''localhost'' ''_n1ql'')"
  have q: "interleave [''select * from '', [] ] [JsString ''beer-sample''] = ''select * from `beer-sample`''"
    by (simp add: quoted_value_def)
  have "lcb_n1ql_query ref_lcb ref_empty (n1ql_lcb_obj (N1QL_new ''default'' ''localhost'' ''_n1ql'')) ''select * from `beer-sample`''
      = (map row_response [''select * from `beer-sample`''] @ [final_response LCB_SUCCESS []], ref_empty)"
    by (simp add: ref_lcb_def row_response_def final_response_def)
  then show ?thesis
    using n1ql_tag_correct [of "[''select * from '', []]" "[JsString ''beer-sample'']" ref_v8 ?h
      "n1ql_lcb_obj (N1QL_new ''default'' ''localhost'' ''_n1ql'')" ref_lcb ref_empty "[''select * from `beer-sample`'']" LCB_SUCCESS "[]" ref_empty]
    unfolding q by (simp add: ObjectToString_def ref_v8_def c_eval)
qed

text \<open>
  The backticks do not keep a value in its place: a string with a hyphen and a backtick ends the quotation, and one without a
  hyphen is put in as it is. The loop leaves its variable in the handler's global \<open>i\<close>.
\<close>

theorem n1ql_tag_injection:
  "interleave [''select * from '', '' limit 1''] [JsString ''a-b` union select * from `secret'']
     = ''select * from `a-b` union select * from `secret` limit 1''
   \<and> snd (tag_loop [[], [] ] [JsString ''x''] 0 []) = 1"
proof
  show "snd (tag_loop [[], [] ] [JsString ''x''] 0 []) = 1"
    using tag_loop_interleave [of "[[], []]" "[JsString ''x'']" 0 "[]"] by simp
qed (simp add: quoted_value_def)

section \<open>Dates of both sides\<close>

lemma js_pad_two_digits: "js_pad n = two_digits n"
  by (simp add: js_pad_def two_digits_def)

text \<open>
  C27. \<open>ISODateString\<close> of a time from 1970 to 9999 is the text that \<open>ConvertToISO8601\<close> of worker.cc makes of the same second, so a handler that
  asks for the timers of a date of its own finds the key under which the C++ side has stored them; reading it back
  gives the second.
\<close>

theorem ISODateString_equiv:
  assumes "four_digit_time (ms div 1000)"
  shows "ISODateString (date_at ms) = iso_text (ms div 1000) \<and> format_time (ms div 1000) = Inr (ISODateString (date_at ms))
    \<and> iso_parse (ISODateString (date_at ms)) = Some (ms div 1000)"
proof -
  have "1 \<le> tm_mon (gmtime (ms div 1000))" using gmtime_correct by (simp add: valid_tm_def)
  then have "ISODateString (date_at ms) = iso_text (ms div 1000)"
    by (simp add: ISODateString_def date_at_def Let_def iso_text_def strftime_FT_def js_pad_two_digits)
  then show ?thesis using assms by (simp add: format_time_ok iso_parse_text)
qed

theorem ISODateString_equiv_witness:
  "ISODateString (date_at 1470737472999) = iso_text 1470737472 \<and> iso_parse (ISODateString (date_at 1470737472999)) = Some 1470737472"
  using ISODateString_equiv [of 1470737472999] by (auto simp: four_digit_time_def)

end
