(* ===== verification/Channel.thy ===== *)
theory Channel
  imports Prelude
begin

text \<open>
  Channels of Go with room for a number of messages: sending, receiving and closing, as the goroutines of
  src/go_eventing use them. The lemmas show that a channel is a bounded queue, for any number of
  operations; the interface \<open>fifo\<close> is what the clients rely on.
\<close>

section \<open>Operations\<close>

record 'a chan =
  chan_buf :: "'a list"
  chan_cap :: nat
  chan_closed :: bool

definition make_chan :: "nat \<Rightarrow> 'a chan" where
  "make_chan n = \<lparr>chan_buf = [], chan_cap = n, chan_closed = False\<rparr>"

text \<open>
  The outcome of an operation: it is done, it has to wait, or it panics. Sending on a closed channel panics, even
  if it is full; receiving from a closed one gives the messages left and then the zero value.
\<close>

datatype 'b chan_result = Done 'b | Waits | Panics

definition chan_send :: "'a \<Rightarrow> 'a chan \<Rightarrow> 'a chan chan_result" where
  "chan_send x c =
     (if chan_closed c then Panics
      else if length (chan_buf c) < chan_cap c then Done (c\<lparr>chan_buf := chan_buf c @ [x]\<rparr>)
      else Waits)"

definition chan_recv :: "'a chan \<Rightarrow> ('a option \<times> 'a chan) chan_result" where
  "chan_recv c =
     (case chan_buf c of
        x # xs \<Rightarrow> Done (Some x, c\<lparr>chan_buf := xs\<rparr>)
      | [] \<Rightarrow> if chan_closed c then Done (None, c) else Waits)"

definition chan_close :: "'a chan \<Rightarrow> 'a chan chan_result" where
  "chan_close c = (if chan_closed c then Panics else Done (c\<lparr>chan_closed := True\<rparr>))"

definition chan_ok :: "'a chan \<Rightarrow> bool" where
  "chan_ok c \<longleftrightarrow> length (chan_buf c) \<le> chan_cap c"

lemma chan_ok_make [simp]: "chan_ok (make_chan n)"
  by (simp add: chan_ok_def make_chan_def)

lemma chan_send_Done_iff:
  "chan_send x c = Done c' \<longleftrightarrow>
     \<not> chan_closed c \<and> length (chan_buf c) < chan_cap c \<and> c' = c\<lparr>chan_buf := chan_buf c @ [x]\<rparr>"
  by (auto simp: chan_send_def)

lemma chan_recv_Some_iff: "chan_recv c = Done (Some x, c') \<longleftrightarrow> (\<exists>xs. chan_buf c = x # xs \<and> c' = c\<lparr>chan_buf := xs\<rparr>)"
  by (auto simp: chan_recv_def split: list.splits)

lemma chan_recv_None_iff: "chan_recv c = Done (None, c') \<longleftrightarrow> chan_buf c = [] \<and> chan_closed c \<and> c' = c"
  by (auto simp: chan_recv_def split: list.splits)

lemma chan_close_Done_iff: "chan_close c = Done c' \<longleftrightarrow> \<not> chan_closed c \<and> c' = c\<lparr>chan_closed := True\<rparr>"
  by (auto simp: chan_close_def)

lemmas chan_iffs = chan_send_Done_iff chan_recv_Some_iff chan_recv_None_iff chan_close_Done_iff

lemma chan_send_blocks_iff: "chan_send x c = Waits \<longleftrightarrow> \<not> chan_closed c \<and> chan_cap c \<le> length (chan_buf c)"
  by (auto simp: chan_send_def)

section \<open>The interface\<close>

text \<open>
  A first-in first-out queue with a bound: what a client may assume of sending and receiving. \<open>sent\<close> are the
  messages of the successful sends of a run, \<open>got\<close> those of the receives.
\<close>

locale fifo =
  fixes send :: "'a \<Rightarrow> 'c \<Rightarrow> 'c option"
    and recv :: "'c \<Rightarrow> ('a \<times> 'c) option"
    and contents :: "'c \<Rightarrow> 'a list"
    and bound :: "'c \<Rightarrow> nat"
  assumes send_contents: "send x c = Some c' \<Longrightarrow> contents c' = contents c @ [x] \<and> bound c' = bound c"
    and send_bound: "send x c = Some c' \<Longrightarrow> length (contents c) < bound c"
    and recv_contents: "recv c = Some (x, c') \<Longrightarrow> contents c = x # contents c' \<and> bound c' = bound c"
begin

text \<open>A run of operations: a send with its message, or a receive.\<close>

fun run :: "'a option list \<Rightarrow> 'c \<Rightarrow> ('a list \<times> 'c) option" where
  "run [] c = Some ([], c)"
| "run (Some x # ops) c = Option.bind (send x c) (run ops)"
| "run (None # ops) c = Option.bind (recv c) (\<lambda>(x, c'). map_option (apfst (Cons x)) (run ops c'))"

definition sent :: "'a option list \<Rightarrow> 'a list" where
  "sent ops = map the (filter (\<lambda>x. x \<noteq> None) ops)"

lemma sent_simps [simp]: "sent [] = []" "sent (Some x # ops) = x # sent ops" "sent (None # ops) = sent ops"
  by (simp_all add: sent_def)

lemma run_fifo: "run ops c = Some (got, c') \<Longrightarrow> contents c @ sent ops = got @ contents c'"
proof (induction ops arbitrary: c got)
  case Nil
  then show ?case by simp
next
  case (Cons op ops)
  show ?case
  proof (cases op)
    case None
    with Cons.prems obtain x c1 got' where "recv c = Some (x, c1)" "run ops c1 = Some (got', c')" "got = x # got'"
      by (auto simp: bind_eq_Some_conv)
    then show ?thesis using Cons.IH None recv_contents by fastforce
  next
    case (Some x)
    with Cons.prems obtain c1 where "send x c = Some c1" "run ops c1 = Some (got, c')"
      by (auto simp: bind_eq_Some_conv)
    then show ?thesis using Cons.IH Some send_contents by fastforce
  qed
qed

lemma run_bound: "run ops c = Some (got, c') \<Longrightarrow> length (contents c) \<le> bound c \<Longrightarrow> length (contents c') \<le> bound c' \<and> bound c' = bound c"
proof (induction ops arbitrary: c got)
  case Nil
  then show ?case by simp
next
  case (Cons op ops)
  show ?case
  proof (cases op)
    case None
    with Cons.prems(1) obtain x c1 got' where r: "recv c = Some (x, c1)" "run ops c1 = Some (got', c')"
      by (auto simp: bind_eq_Some_conv)
    then show ?thesis using Cons.IH [OF r(2)] Cons.prems(2) recv_contents [OF r(1)] by simp
  next
    case (Some x)
    with Cons.prems(1) obtain c1 where r: "send x c = Some c1" "run ops c1 = Some (got, c')"
      by (auto simp: bind_eq_Some_conv)
    then show ?thesis using Cons.IH [OF r(2)] send_contents [OF r(1)] send_bound [OF r(1)] by simp
  qed
qed

text \<open>Sends alone fill the queue: as many succeed as there is room.\<close>

lemma run_sends: "run (map Some xs) c = Some (got, c') \<Longrightarrow> length (contents c) \<le> bound c \<Longrightarrow> got = [] \<and> length (contents c) + length xs \<le> bound c"
proof (induction xs arbitrary: c)
  case Nil
  then show ?case by simp
next
  case (Cons x xs)
  then obtain c1 where r: "send x c = Some c1" "run (map Some xs) c1 = Some (got, c')"
    by (auto simp: bind_eq_Some_conv)
  then show ?case using Cons.IH [OF r(2)] send_contents [OF r(1)] send_bound [OF r(1)] by simp
qed

end

definition try_send :: "'a \<Rightarrow> 'a chan \<Rightarrow> 'a chan option" where
  "try_send x c = (case chan_send x c of Done c' \<Rightarrow> Some c' | _ \<Rightarrow> None)"

definition try_recv :: "'a chan \<Rightarrow> ('a \<times> 'a chan) option" where
  "try_recv c = (case chan_recv c of Done (Some x, c') \<Rightarrow> Some (x, c') | _ \<Rightarrow> None)"

lemma try_send_iff: "try_send x c = Some c' \<longleftrightarrow> chan_send x c = Done c'"
  by (simp add: try_send_def split: chan_result.splits)

lemma try_recv_iff: "try_recv c = Some (x, c') \<longleftrightarrow> chan_recv c = Done (Some x, c')"
  by (auto simp: try_recv_def split: chan_result.splits option.splits)

interpretation go_chan: fifo try_send try_recv chan_buf chan_cap
  by unfold_locales (auto simp: try_send_iff try_recv_iff chan_iffs)

end
