(* ===== verification/EventPump.thy ===== *)
theory EventPump
  imports Channel "HOL-Library.Sublist"
begin

text \<open>
  The way of a mutation from the feed to the worker, for one run of an application: the loop of \<open>startBucket\<close> of
  src/go_eventing/dcp_client.go, which moves events from the feed to the channel \<open>rch\<close>, the loop of \<open>runWorker\<close> of
  v8_worker.go, which handles them, and the closing of the feed by \<open>startDcp\<close>. They are goroutines of their own, so the theory is
  a step relation over their interleavings. The lemmas show that events are handled in order and at most
  once, that all are handled as long as nobody asks the worker to quit, and what is left behind when somebody does.
\<close>

section \<open>State\<close>

text \<open>
  The channel of the feed, with what the client library has put into it; the event that \<open>startBucket\<close> has taken and not yet
  sent on; whether its loop runs; \<open>rch\<close>; whether \<open>runWorker\<close> runs; the channel \<open>dcpStreamClose\<close>; whether \<open>startDcp\<close> waits for
  its message. \<open>arrived\<close> and \<open>handled\<close> are the histories of the feed and of the worker.
\<close>

record 'e pump =
  feed :: "'e chan"
  held :: "'e option"
  forwarding :: bool
  rch :: "'e chan"
  working :: bool
  dcpStreamClose :: "unit chan"
  closer_waits :: bool
  arrived :: "'e list"
  handled :: "'e list"

definition rch_size :: nat where
  "rch_size = 10000"

definition pump_init :: "nat \<Rightarrow> 'e pump" where
  "pump_init feed_size = \<lparr>feed = make_chan feed_size, held = None, forwarding = True, rch = make_chan rch_size, working = True,
     dcpStreamClose = make_chan 1, closer_waits = True, arrived = [], handled = []\<rparr>"

text \<open>A feed that ends keeps some of the events in its channel, in their order from the front.\<close>

definition end_feed :: "nat \<Rightarrow> 'e chan \<Rightarrow> 'e chan" where
  "end_feed n c = c\<lparr>chan_buf := take n (chan_buf c), chan_closed := True\<rparr>"

section \<open>Steps\<close>

datatype 'e pump_label = Arrive 'e | Take | Put | FeedEnd | Handle | HandlePanic | NilTicker | RchEnd | QuitMsg | CloseFeed nat | Lost nat

text \<open>
  The loop of \<open>runWorker\<close>. It hands the next event to \<open>handleDcpEvent\<close>, which returns or panics; the deferred function recovers from
  the panic and the worker returns. A closed \<open>rch\<close> gives a nil message, on which \<open>handleDcpEvent\<close> panics. With the option \<open>-stats 0\<close>
  the ticker is nil, and evaluating \<open>ticker.C\<close> in the select panics. On a message of its channel \<open>Quit\<close> the worker asks
  \<open>startDcp\<close> to close the feed and returns.
\<close>

inductive worker_step :: "'e pump_label \<Rightarrow> 'e pump \<Rightarrow> 'e pump \<Rightarrow> bool" where
  handle_event: "working s \<Longrightarrow> chan_recv (rch s) = Done (Some e, c) \<Longrightarrow>
    worker_step Handle s (s\<lparr>rch := c, handled := handled s @ [e]\<rparr>)"
| handle_panic: "working s \<Longrightarrow> chan_recv (rch s) = Done (Some e, c) \<Longrightarrow>
    worker_step HandlePanic s (s\<lparr>rch := c, handled := handled s @ [e], working := False\<rparr>)"
| nil_ticker: "working s \<Longrightarrow> worker_step NilTicker s (s\<lparr>working := False\<rparr>)"
| rch_end: "working s \<Longrightarrow> chan_recv (rch s) = Done (None, c) \<Longrightarrow>
    worker_step RchEnd s (s\<lparr>working := False\<rparr>)"
| quit_msg: "working s \<Longrightarrow> chan_send () (dcpStreamClose s) = Done c \<Longrightarrow>
    worker_step QuitMsg s (s\<lparr>working := False, dcpStreamClose := c\<rparr>)"

inductive_simps worker_step_simps:
  "worker_step (Arrive e) s s'" "worker_step Take s s'" "worker_step Put s s'" "worker_step FeedEnd s s'" "worker_step Handle s s'"
  "worker_step HandlePanic s s'" "worker_step NilTicker s s'" "worker_step RchEnd s s'" "worker_step QuitMsg s s'"
  "worker_step (CloseFeed n) s s'" "worker_step (Lost n) s s'"

text \<open>
  The feed fills its channel and may end by itself; the loop of \<open>startBucket\<close> takes, sends on, and closes \<open>rch\<close> at the end of the feed; \<open>startDcp\<close> closes
  the feed when it is asked to.
\<close>

inductive pump_step :: "'e pump_label \<Rightarrow> 'e pump \<Rightarrow> 'e pump \<Rightarrow> bool" where
  arrive: "chan_send e (feed s) = Done c \<Longrightarrow> pump_step (Arrive e) s (s\<lparr>feed := c, arrived := arrived s @ [e]\<rparr>)"
| take_event: "forwarding s \<Longrightarrow> held s = None \<Longrightarrow> chan_recv (feed s) = Done (Some e, c) \<Longrightarrow>
    pump_step Take s (s\<lparr>feed := c, held := Some e\<rparr>)"
| put_event: "forwarding s \<Longrightarrow> held s = Some e \<Longrightarrow> chan_send e (rch s) = Done c \<Longrightarrow>
    pump_step Put s (s\<lparr>held := None, rch := c\<rparr>)"
| feed_end: "forwarding s \<Longrightarrow> held s = None \<Longrightarrow> chan_recv (feed s) = Done (None, c) \<Longrightarrow> chan_close (rch s) = Done r \<Longrightarrow>
    pump_step FeedEnd s (s\<lparr>forwarding := False, rch := r\<rparr>)"
| close_feed: "closer_waits s \<Longrightarrow> chan_recv (dcpStreamClose s) = Done (Some u, c) \<Longrightarrow> chan_close c = Done d \<Longrightarrow>
    pump_step (CloseFeed n) s (s\<lparr>closer_waits := False, dcpStreamClose := d, feed := end_feed n (feed s)\<rparr>)"
| lost: "pump_step (Lost n) s (s\<lparr>feed := end_feed n (feed s)\<rparr>)"
| worker: "worker_step l s s' \<Longrightarrow> pump_step l s s'"

inductive_cases pump_stepE: "pump_step l s s'"

inductive_simps pump_step_by_label:
  "pump_step (Arrive e) s s'" "pump_step Take s s'" "pump_step Put s s'" "pump_step FeedEnd s s'" "pump_step Handle s s'"
  "pump_step HandlePanic s s'" "pump_step NilTicker s s'" "pump_step RchEnd s s'" "pump_step QuitMsg s s'"
  "pump_step (CloseFeed n) s s'" "pump_step (Lost n) s s'"

lemmas pump_step_simps = pump_step_by_label worker_step_simps

inductive pump_run :: "'e pump \<Rightarrow> 'e pump_label list \<Rightarrow> 'e pump \<Rightarrow> bool" where
  pump_Nil: "pump_run s [] s"
| pump_Cons: "pump_step l s s1 \<Longrightarrow> pump_run s1 ls s' \<Longrightarrow> pump_run s (l # ls) s'"

inductive_simps pump_run_Nil [simp]: "pump_run s [] s'"

inductive_simps pump_run_Cons: "pump_run s (l # ls) s'"

section \<open>Invariant\<close>

text \<open>The events on their way, from the worker back to the feed.\<close>

definition in_flight :: "'e pump \<Rightarrow> 'e list" where
  "in_flight s = chan_buf (rch s) @ (case held s of None \<Rightarrow> [] | Some e \<Rightarrow> [e]) @ chan_buf (feed s)"

definition pump_inv :: "'e pump \<Rightarrow> bool" where
  "pump_inv s \<longleftrightarrow>
     chan_ok (rch s) \<and> chan_cap (rch s) = rch_size \<and> (chan_closed (rch s) \<longleftrightarrow> \<not> forwarding s)
   \<and> (\<not> forwarding s \<longrightarrow> held s = None \<and> chan_buf (feed s) = [] \<and> chan_closed (feed s))
   \<and> prefix (handled s @ in_flight s) (arrived s)
   \<and> (\<not> chan_closed (feed s) \<longrightarrow> handled s @ in_flight s = arrived s)"

lemma pump_inv_init: "pump_inv (pump_init n)"
  by (simp add: pump_inv_def pump_init_def in_flight_def rch_size_def make_chan_def chan_ok_def)

lemma prefix_take_end: "prefix (xs @ take n ys) (xs @ ys)"
  by (metis append_take_drop_id append.assoc prefixI)

lemma end_feed_in_flight: "prefix (handled s @ in_flight (s\<lparr>feed := end_feed n (feed s)\<rparr>)) (handled s @ in_flight s)"
  using prefix_take_end [of "chan_buf (rch s) @ (case held s of None \<Rightarrow> [] | Some e \<Rightarrow> [e])" n "chan_buf (feed s)"]
  by (simp add: in_flight_def end_feed_def)

lemma pump_inv_end_feed: "pump_inv s \<Longrightarrow> pump_inv (s\<lparr>feed := end_feed n (feed s)\<rparr>)"
proof -
  assume inv: "pump_inv s"
  then have "prefix (handled s @ in_flight (s\<lparr>feed := end_feed n (feed s)\<rparr>)) (arrived s)"
    using end_feed_in_flight [of s n] prefix_order.trans unfolding pump_inv_def by blast
  then show ?thesis using inv unfolding pump_inv_def by (simp add: end_feed_def)
qed

lemma pump_step_inv: "pump_step l s s' \<Longrightarrow> pump_inv s \<Longrightarrow> pump_inv s'"
proof (induction rule: pump_step.induct)
  case (close_feed s u c d n)
  have "pump_inv (s\<lparr>feed := end_feed n (feed s)\<rparr>)" using close_feed.prems by (rule pump_inv_end_feed)
  then show ?case by (simp add: pump_inv_def in_flight_def)
next
  case (lost s n)
  then show ?case by (rule pump_inv_end_feed)
next
  case (worker l s s')
  then show ?case by (cases rule: worker_step.cases) (auto simp: pump_inv_def in_flight_def chan_iffs chan_ok_def)
qed (auto simp: pump_inv_def in_flight_def chan_iffs chan_ok_def split: option.splits)

lemma pump_run_inv: "pump_run s ls s' \<Longrightarrow> pump_inv s \<Longrightarrow> pump_inv s'"
  by (induction rule: pump_run.induct) (auto dest: pump_step_inv)

text \<open>
  C18. In every interleaving, the worker is handed the events of the feed in the order in which they arrived, none twice and
  none skipped, also when it panics on one of them; \<open>rch\<close> never has more than its room, and no goroutine sends on it after it was closed.
\<close>

theorem events_in_order:
  assumes "pump_run (pump_init n) ls s"
  shows "prefix (handled s) (arrived s) \<and> length (chan_buf (rch s)) \<le> rch_size
    \<and> (\<forall>e. forwarding s \<and> held s = Some e \<longrightarrow> chan_send e (rch s) \<noteq> Panics)"
proof -
  have inv: "pump_inv s" using pump_run_inv [OF assms pump_inv_init] .
  have "prefix (handled s) (handled s @ in_flight s)" by simp
  then have "prefix (handled s) (arrived s)" using inv prefix_order.trans unfolding pump_inv_def by blast
  then show ?thesis using inv by (simp add: pump_inv_def chan_ok_def chan_send_def)
qed

theorem events_in_order_witness:
  "\<exists>ls s. pump_run (pump_init 2) ls s \<and> handled s = [1] \<and> prefix (handled s) (arrived s) \<and> arrived s = [1, 2 :: nat]"
proof -
  let ?ls = "[Arrive 1, Take, Put, Arrive 2, Handle]"
  obtain s where s: "pump_run (pump_init 2) ?ls s" "handled s = [1]" "arrived s = [1, 2 :: nat]"
    by (simp add: pump_run_Cons pump_step_simps chan_iffs pump_init_def make_chan_def rch_size_def)
  then show ?thesis using events_in_order [OF s(1)] by blast
qed

section \<open>Draining\<close>

text \<open>The steps of the two loops, without arrivals and endings.\<close>

definition own_labels :: "'e pump_label set" where
  "own_labels = {Take, Put, Handle}"

text \<open>How far the events still have to go.\<close>

definition distance :: "'e pump \<Rightarrow> nat" where
  "distance s = 3 * length (chan_buf (feed s)) + (case held s of None \<Rightarrow> 0 | Some e \<Rightarrow> 2) + length (chan_buf (rch s))"

lemma own_step:
  assumes "pump_step l s s'" "l \<in> own_labels"
  shows "distance s' < distance s \<and> handled s' @ in_flight s' = handled s @ in_flight s \<and> working s' = working s
    \<and> arrived s' = arrived s"
  using assms
  by (cases rule: pump_step.cases)
    (auto simp: own_labels_def distance_def in_flight_def chan_iffs worker_step_simps)

lemma own_run:
  "pump_run s ls s' \<Longrightarrow> set ls \<subseteq> own_labels \<Longrightarrow>
     length ls + distance s' \<le> distance s \<and> handled s' @ in_flight s' = handled s @ in_flight s \<and> working s' = working s"
proof (induction rule: pump_run.induct)
  case (pump_Cons l s s1 ls s')
  then show ?case using own_step [of l s s1] by auto
qed simp

lemma distance_bound: "distance s \<le> 3 * length (in_flight s)"
  by (auto simp: distance_def in_flight_def split: option.splits)

lemma own_progress:
  assumes inv: "pump_inv s" and w: "working s" and fl: "in_flight s \<noteq> []"
  shows "\<exists>l \<in> own_labels. \<exists>s'. pump_step l s s'"
proof -
  consider x xs where "chan_buf (rch s) = x # xs" | e where "chan_buf (rch s) = []" "held s = Some e"
    | x xs where "chan_buf (rch s) = []" "held s = None" "chan_buf (feed s) = x # xs"
    using fl by (cases "chan_buf (rch s)"; cases "held s"; cases "chan_buf (feed s)") (auto simp: in_flight_def)
  then show ?thesis
  proof cases
    case (1 x xs)
    then have "pump_step Handle s (s\<lparr>rch := (rch s)\<lparr>chan_buf := xs\<rparr>, handled := handled s @ [x]\<rparr>)"
      using w by (intro worker handle_event) (simp_all add: chan_iffs)
    then show ?thesis by (auto simp: own_labels_def)
  next
    case (2 e)
    then have "forwarding s" using inv by (auto simp: pump_inv_def)
    then have "pump_step Put s (s\<lparr>held := None, rch := (rch s)\<lparr>chan_buf := [e]\<rparr>\<rparr>)"
      using 2 inv by (intro put_event [where e = e]) (simp_all add: chan_iffs pump_inv_def rch_size_def)
    then show ?thesis by (auto simp: own_labels_def)
  next
    case (3 x xs)
    then have "forwarding s" using inv by (auto simp: pump_inv_def)
    then have "pump_step Take s (s\<lparr>feed := (feed s)\<lparr>chan_buf := xs\<rparr>, held := Some x\<rparr>)"
      using 3 by (intro take_event) (simp_all add: chan_iffs)
    then show ?thesis by (auto simp: own_labels_def)
  qed
qed



section \<open>After the worker has quit\<close>

text \<open>
  The loop of \<open>startBucket\<close> waits for room in \<open>rch\<close>, and nobody receives from it.
\<close>

definition stranded :: "'e \<Rightarrow> 'e pump \<Rightarrow> bool" where
  "stranded e s \<longleftrightarrow> \<not> working s \<and> forwarding s \<and> held s = Some e \<and> chan_cap (rch s) \<le> length (chan_buf (rch s)) \<and> \<not> chan_closed (rch s)"

lemma stranded_step: "pump_step l s s' \<Longrightarrow> stranded e s \<Longrightarrow> stranded e s' \<and> handled s' = handled s"
  by (cases rule: pump_step.cases) (auto simp: stranded_def chan_iffs elim: worker_step.cases)

lemma stranded_run: "pump_run s ls s' \<Longrightarrow> stranded e s \<Longrightarrow> stranded e s' \<and> handled s' = handled s"
  by (induction rule: pump_run.induct) (auto dest: stranded_step)

lemma pump_run_append: "pump_run s ls s1 \<Longrightarrow> pump_run s1 ls' s' \<Longrightarrow> pump_run s (ls @ ls') s'"
  by (induction rule: pump_run.induct) (auto intro: pump_Cons)

text \<open>A feed that is faster than the worker: as many events as fit wait in \<open>rch\<close>.\<close>

definition filled :: "nat \<Rightarrow> 'e \<Rightarrow> nat \<Rightarrow> 'e pump" where
  "filled n e k = (pump_init n)\<lparr>rch := (make_chan rch_size)\<lparr>chan_buf := replicate k e\<rparr>, arrived := replicate k e\<rparr>"

lemma filled_step:
  assumes "0 < n"
  shows "pump_run (filled n e k) [Arrive e, Take]
      ((filled n e k)\<lparr>held := Some e, arrived := replicate (Suc k) e\<rparr>)"
    and "k < rch_size \<Longrightarrow> pump_run (filled n e k) [Arrive e, Take, Put] (filled n e (Suc k))"
  using assms
  by (auto simp: pump_run_Cons pump_step_simps chan_iffs filled_def pump_init_def make_chan_def replicate_append_same)

lemma fill: "0 < n \<Longrightarrow> k \<le> rch_size \<Longrightarrow> \<exists>ls. pump_run (pump_init n) ls (filled n e k)"
proof (induction k)
  case 0
  have "filled n e 0 = pump_init n" by (simp add: filled_def pump_init_def make_chan_def)
  then show ?case by (metis pump_Nil)
next
  case (Suc k)
  then obtain ls where "pump_run (pump_init n) ls (filled n e k)" by auto
  then show ?case using filled_step(2) [OF Suc.prems(1), of k e] Suc.prems pump_run_append by (metis Suc_le_lessD)
qed

text \<open>
  A worker that is asked to quit while \<open>rch\<close> is full leaves the loop of \<open>startBucket\<close> behind for ever: whatever
  happens then, the closing of its feed included, it waits to send on, and the events in the channel are never handled.
\<close>

theorem forwarder_left_behind:
  assumes "0 < n"
  shows "\<exists>ls s. pump_run (pump_init n) ls s \<and> length (chan_buf (rch s)) = rch_size
    \<and> (\<forall>ls' s'. pump_run s ls' s' \<longrightarrow> forwarding s' \<and> held s' = Some e \<and> handled s' = handled s)"
proof -
  obtain ls where ls: "pump_run (pump_init n) ls (filled n e rch_size)" using fill [OF assms, of rch_size e] by auto
  define s1 where "s1 = (filled n e rch_size)\<lparr>held := Some e, arrived := replicate (Suc rch_size) e\<rparr>"
  define s where "s = s1\<lparr>working := False, dcpStreamClose := (make_chan 1)\<lparr>chan_buf := [()]\<rparr>\<rparr>"
  have "pump_run (filled n e rch_size) [Arrive e, Take] s1" unfolding s1_def by (rule filled_step(1) [OF assms])
  moreover have "pump_run s1 [QuitMsg] s"
    by (auto simp: pump_run_Cons pump_step_simps chan_iffs s_def s1_def filled_def pump_init_def make_chan_def)
  ultimately have "pump_run (pump_init n) (ls @ [Arrive e, Take] @ [QuitMsg]) s" using ls by (intro pump_run_append)
  moreover have str: "stranded e s" by (simp add: stranded_def s_def s1_def filled_def pump_init_def make_chan_def)
  moreover have "length (chan_buf (rch s)) = rch_size" by (simp add: s_def s1_def filled_def)
  moreover have "forwarding s' \<and> held s' = Some e \<and> handled s' = handled s" if "pump_run s ls' s'" for ls' s'
    using stranded_run [OF that str] by (simp add: stranded_def)
  ultimately show ?thesis by blast
qed

theorem forwarder_left_behind_witness:
  "\<exists>ls s. pump_run (pump_init 1) ls s \<and> length (chan_buf (rch s)) = rch_size \<and> held s = Some (7 :: nat)"
  using forwarder_left_behind [of 1 "7 :: nat"] pump_Nil by fastforce

end
