(* ===== verification/MailPump.thy ===== *)
theory MailPump
  imports Channel MailServer
begin

text \<open>
  The channels of the mail service and the goroutines at their ends: the requests that the handler \<open>sendMail\<close> of
  src/go_eventing/http_handlers.go runs for, the routines \<open>processMails\<close>, \<open>setUpMailServer\<close> of mail_handler.go, and the end of
  \<open>storeAppSetup\<close>, which closes the channel of an application that is replaced. Each of \<open>sendMail\<close> and \<open>processMails\<close> looks
  its channel up under the lock and uses it later, so the theory is a step relation on an explicit store of
  channels. The lemmas show that an accepted mail is handed to the mail server once, in order, also over a
  replacement as long as a routine runs, and which mails are lost.
\<close>

section \<open>State\<close>

text \<open>
  A channel with the history of the mails it took and of the calls of \<open>smtp.SendMail\<close> its routines made, each with its mail and whether it succeeded. \<open>posting\<close> has the requests that have looked up their channel,
  \<open>None\<close> for the nil channel of an application without one; \<open>mailing\<close> the routines that run.
\<close>

record mailbox =
  box :: "smtpFields chan"
  accepted :: "smtpFields list"
  tried :: "(smtpFields \<times> bool) list"

record mail_world =
  mailboxes :: "mailbox list"
  appMailChanMapping :: "string \<rightharpoonup> nat"
  posting :: "(smtpFields \<times> nat option) list"
  mailing :: "nat option list"
  refused :: "smtpFields list"

definition mailbox_new :: mailbox where
  "mailbox_new = \<lparr>box = make_chan mail_channel_size, accepted = [], tried = []\<rparr>"

definition mail_init :: mail_world where
  "mail_init = \<lparr>mailboxes = [], appMailChanMapping = Map.empty, posting = [], mailing = [], refused = []\<rparr>"

section \<open>Steps\<close>

definition open_box :: "string \<Rightarrow> mail_world \<Rightarrow> mail_world" where
  "open_box app m = m\<lparr>mailboxes := mailboxes m @ [mailbox_new], appMailChanMapping := (appMailChanMapping m)(app \<mapsto> length (mailboxes m))\<rparr>"

text \<open>\<open>storeAppSetup\<close>: the channel is closed and forgotten. Closing it twice would panic.\<close>

definition close_box :: "string \<Rightarrow> mail_world \<Rightarrow> mail_world chan_result" where
  "close_box app m =
     (case appMailChanMapping m app of
        None \<Rightarrow> Done m
      | Some i \<Rightarrow> (case chan_close (box (mailboxes m ! i)) of
          Done c \<Rightarrow> Done (m\<lparr>mailboxes := (mailboxes m)[i := (mailboxes m ! i)\<lparr>box := c\<rparr>], appMailChanMapping := (appMailChanMapping m)(app := None)\<rparr>)
        | Waits \<Rightarrow> Waits | Panics \<Rightarrow> Panics))"

definition remove_nth :: "nat \<Rightarrow> 'a list \<Rightarrow> 'a list" where
  "remove_nth k xs = take k xs @ drop (Suc k) xs"

text \<open>
  The send of \<open>sendMail\<close>. Its panic on a closed channel ends the request, whose mail is gone; on the nil channel and
  on a full one it waits.
\<close>

definition post_mail :: "nat \<Rightarrow> mail_world \<Rightarrow> mail_world option" where
  "post_mail k m =
     (case posting m ! k of
        (f, None) \<Rightarrow> None
      | (f, Some i) \<Rightarrow> (case chan_send f (box (mailboxes m ! i)) of
          Done c \<Rightarrow> Some (m\<lparr>mailboxes := (mailboxes m)[i := (mailboxes m ! i)\<lparr>box := c, accepted := accepted (mailboxes m ! i) @ [f]\<rparr>],
                            posting := remove_nth k (posting m)\<rparr>)
        | Waits \<Rightarrow> None
        | Panics \<Rightarrow> Some (m\<lparr>posting := remove_nth k (posting m), refused := refused m @ [f]\<rparr>)))"

text \<open>
  One turn of the loop of \<open>processMails\<close>: it hands the mail it receives to \<open>smtp.SendMail\<close>, or ends. Whether the call succeeds is up to the
  mail server; an error is logged and nothing else.
\<close>

definition take_mail :: "nat \<Rightarrow> bool \<Rightarrow> mail_world \<Rightarrow> mail_world option" where
  "take_mail j ok m =
     (case mailing m ! j of
        None \<Rightarrow> None
      | Some i \<Rightarrow> (case chan_recv (box (mailboxes m ! i)) of
          Done (Some f, c) \<Rightarrow> Some (m\<lparr>mailboxes := (mailboxes m)[i := (mailboxes m ! i)\<lparr>box := c, tried := tried (mailboxes m ! i) @ [(f, ok)]\<rparr>]\<rparr>)
        | Done (None, c) \<Rightarrow> Some (m\<lparr>mailing := remove_nth j (mailing m)\<rparr>)
        | _ \<Rightarrow> None))"

datatype mail_label = OpenBox string | StartMails string | Fetch string smtpFields | Post nat | TakeMail nat bool | CloseBox string

inductive mail_step :: "mail_label \<Rightarrow> mail_world \<Rightarrow> mail_world \<Rightarrow> bool" where
  m_open: "mail_step (OpenBox app) m (open_box app m)"
| m_start: "mail_step (StartMails app) m (m\<lparr>mailing := mailing m @ [appMailChanMapping m app]\<rparr>)"
| m_fetch: "mail_step (Fetch app f) m (m\<lparr>posting := posting m @ [(f, appMailChanMapping m app)]\<rparr>)"
| m_post: "k < length (posting m) \<Longrightarrow> post_mail k m = Some m' \<Longrightarrow> mail_step (Post k) m m'"
| m_take: "j < length (mailing m) \<Longrightarrow> take_mail j ok m = Some m' \<Longrightarrow> mail_step (TakeMail j ok) m m'"
| m_close: "close_box app m = Done m' \<Longrightarrow> mail_step (CloseBox app) m m'"

inductive mail_run :: "mail_world \<Rightarrow> mail_label list \<Rightarrow> mail_world \<Rightarrow> bool" where
  mail_Nil: "mail_run m [] m"
| mail_Cons: "mail_step l m m1 \<Longrightarrow> mail_run m1 ls m' \<Longrightarrow> mail_run m (l # ls) m'"

inductive_simps mail_run_Nil [simp]: "mail_run m [] m'"

inductive_simps mail_run_Cons: "mail_run m (l # ls) m'"

inductive_simps mail_step_simps:
  "mail_step (OpenBox app) m m'" "mail_step (StartMails app) m m'" "mail_step (Fetch app f) m m'" "mail_step (Post k) m m'"
  "mail_step (TakeMail j ok) m m'" "mail_step (CloseBox app) m m'"

section \<open>Invariant\<close>

definition mailbox_ok :: "mailbox \<Rightarrow> bool" where
  "mailbox_ok b \<longleftrightarrow> chan_ok (box b) \<and> chan_cap (box b) = mail_channel_size \<and> map fst (tried b) @ chan_buf (box b) = accepted b"

definition mail_inv :: "mail_world \<Rightarrow> bool" where
  "mail_inv m \<longleftrightarrow> list_all mailbox_ok (mailboxes m)
   \<and> (\<forall>app i. appMailChanMapping m app = Some i \<longrightarrow> i < length (mailboxes m) \<and> \<not> chan_closed (box (mailboxes m ! i)))
   \<and> inj_on (appMailChanMapping m) (dom (appMailChanMapping m))
   \<and> (\<forall>f i. (f, Some i) \<in> set (posting m) \<longrightarrow> i < length (mailboxes m)) \<and> (\<forall>i. Some i \<in> set (mailing m) \<longrightarrow> i < length (mailboxes m))"

lemma mail_inv_init: "mail_inv mail_init"
  by (simp add: mail_inv_def mail_init_def)

lemma set_remove_nth: "set (remove_nth k xs) \<subseteq> set xs"
  by (auto simp: remove_nth_def dest: in_set_takeD in_set_dropD)

lemma nth_upd: "k < length xs \<Longrightarrow> xs[i := b] ! k = (if k = i then b else xs ! k)"
  by (simp add: nth_list_update)

lemma remove_nth_mem: "k < length xs \<Longrightarrow> x \<in> set xs \<Longrightarrow> x \<noteq> xs ! k \<Longrightarrow> x \<in> set (remove_nth k xs)"
  using id_take_nth_drop [of k xs] by (metis Un_iff remove_nth_def set_ConsD set_append)

text \<open>A box that keeps its invariant, and stays open if it was, may be changed.\<close>

lemma mail_inv_box:
  assumes "mail_inv m" "mailbox_ok b" "\<not> chan_closed (box (mailboxes m ! i)) \<longrightarrow> \<not> chan_closed (box b)"
  shows "mail_inv (m\<lparr>mailboxes := (mailboxes m)[i := b]\<rparr>)"
  using assms unfolding mail_inv_def by (auto simp: list_all_length nth_upd)

lemma mail_inv_less:
  "mail_inv m \<Longrightarrow> set p \<subseteq> set (posting m) \<Longrightarrow> mail_inv (m\<lparr>posting := p\<rparr>)"
  "mail_inv m \<Longrightarrow> set q \<subseteq> set (mailing m) \<Longrightarrow> mail_inv (m\<lparr>mailing := q\<rparr>)"
  "mail_inv (m\<lparr>refused := x\<rparr>) = mail_inv m"
  unfolding mail_inv_def by auto

lemma box_ok: "mail_inv m \<Longrightarrow> i < length (mailboxes m) \<Longrightarrow> mailbox_ok (mailboxes m ! i)"
  by (simp add: mail_inv_def list_all_length)

lemma open_box_inv: "mail_inv m \<Longrightarrow> mail_inv (open_box app m)"
proof -
  assume inv: "mail_inv m"
  have "appMailChanMapping m x \<noteq> Some (length (mailboxes m))" for x using inv by (auto simp: mail_inv_def)
  then have "inj_on ((appMailChanMapping m)(app \<mapsto> length (mailboxes m))) (insert app (dom (appMailChanMapping m)))"
    using inv by (auto simp: inj_on_def mail_inv_def)
  moreover have "mailbox_ok mailbox_new" by (simp add: mailbox_ok_def mailbox_new_def make_chan_def chan_ok_def)
  ultimately show ?thesis
    using inv unfolding mail_inv_def open_box_def
    by (auto simp: nth_append mailbox_new_def make_chan_def less_Suc_eq)
qed

lemma close_box_inv: "mail_inv m \<Longrightarrow> close_box app m = Done m' \<Longrightarrow> mail_inv m'"
proof -
  assume inv: "mail_inv m" and cl: "close_box app m = Done m'"
  show ?thesis
  proof (cases "appMailChanMapping m app")
    case None
    then show ?thesis using inv cl by (simp add: close_box_def)
  next
    case (Some i)
    have i: "i < length (mailboxes m)" using inv Some by (auto simp: mail_inv_def)
    have m': "m' = m\<lparr>mailboxes := (mailboxes m)[i := (mailboxes m ! i)\<lparr>box := (box (mailboxes m ! i))\<lparr>chan_closed := True\<rparr>\<rparr>],
        appMailChanMapping := (appMailChanMapping m)(app := None)\<rparr>"
      using cl Some by (auto simp: close_box_def chan_close_def split: chan_result.splits if_splits)
    have "appMailChanMapping m x \<noteq> Some i" if "x \<noteq> app" for x
      using inv that Some by (auto simp: mail_inv_def inj_on_def dom_def)
    moreover have "mailbox_ok ((mailboxes m ! i)\<lparr>box := (box (mailboxes m ! i))\<lparr>chan_closed := True\<rparr>\<rparr>)"
      using box_ok [OF inv i] by (simp add: mailbox_ok_def chan_ok_def)
    moreover have "inj_on ((appMailChanMapping m)(app := None)) (dom (appMailChanMapping m) - {app})"
      using inv by (auto simp: mail_inv_def inj_on_def)
    ultimately show ?thesis using inv unfolding m' mail_inv_def by (auto simp: list_all_length nth_upd)
  qed
qed

lemma post_mail_inv: "mail_inv m \<Longrightarrow> k < length (posting m) \<Longrightarrow> post_mail k m = Some m' \<Longrightarrow> mail_inv m'"
proof -
  assume inv: "mail_inv m" and k: "k < length (posting m)" and p: "post_mail k m = Some m'"
  then obtain f i where fi: "posting m ! k = (f, Some i)" by (auto simp: post_mail_def split: prod.splits option.splits)
  then have i: "i < length (mailboxes m)" using inv k nth_mem unfolding mail_inv_def by metis
  have less: "mail_inv (m\<lparr>posting := remove_nth k (posting m)\<rparr>)" using inv set_remove_nth by (rule mail_inv_less)
  show ?thesis
  proof (cases "chan_send f (box (mailboxes m ! i))")
    case (Done c)
    have "mailbox_ok ((mailboxes m ! i)\<lparr>box := c, accepted := accepted (mailboxes m ! i) @ [f]\<rparr>)"
      using box_ok [OF inv i] Done by (auto simp: mailbox_ok_def chan_iffs chan_ok_def)
    then have "mail_inv (m\<lparr>mailboxes := (mailboxes m)[i := (mailboxes m ! i)\<lparr>box := c, accepted := accepted (mailboxes m ! i) @ [f]\<rparr>]\<rparr>)"
      using mail_inv_box [OF inv] Done by (simp add: chan_iffs)
    then have "mail_inv (m\<lparr>mailboxes := (mailboxes m)[i := (mailboxes m ! i)\<lparr>box := c, accepted := accepted (mailboxes m ! i) @ [f]\<rparr>],
        posting := remove_nth k (posting m)\<rparr>)"
      using mail_inv_less(1) [where p = "remove_nth k (posting m)"] set_remove_nth by fastforce
    then show ?thesis using p fi Done by (auto simp: post_mail_def)
  next
    case Waits
    then show ?thesis using p fi by (simp add: post_mail_def)
  next
    case Panics
    then have "m' = (m\<lparr>posting := remove_nth k (posting m)\<rparr>)\<lparr>refused := refused m @ [f]\<rparr>" using p fi by (simp add: post_mail_def)
    then show ?thesis using less by (simp only: mail_inv_less)
  qed
qed

lemma take_mail_inv: "mail_inv m \<Longrightarrow> j < length (mailing m) \<Longrightarrow> take_mail j ok m = Some m' \<Longrightarrow> mail_inv m'"
proof -
  assume inv: "mail_inv m" and j: "j < length (mailing m)" and t: "take_mail j ok m = Some m'"
  then obtain i where i: "mailing m ! j = Some i" by (auto simp: take_mail_def split: option.splits)
  then have len: "i < length (mailboxes m)" using inv j nth_mem unfolding mail_inv_def by metis
  have less: "mail_inv (m\<lparr>mailing := remove_nth j (mailing m)\<rparr>)" using inv set_remove_nth by (rule mail_inv_less)
  consider f c where "chan_recv (box (mailboxes m ! i)) = Done (Some f, c)" | c where "chan_recv (box (mailboxes m ! i)) = Done (None, c)"
    using t i by (auto simp: take_mail_def split: chan_result.splits option.splits)
  then show ?thesis
  proof cases
    case (1 f c)
    have "mailbox_ok ((mailboxes m ! i)\<lparr>box := c, tried := tried (mailboxes m ! i) @ [(f, ok)]\<rparr>)"
      using box_ok [OF inv len] 1 by (auto simp: mailbox_ok_def chan_iffs chan_ok_def)
    then have "mail_inv (m\<lparr>mailboxes := (mailboxes m)[i := (mailboxes m ! i)\<lparr>box := c, tried := tried (mailboxes m ! i) @ [(f, ok)]\<rparr>]\<rparr>)"
      using mail_inv_box [OF inv] 1 by (auto simp: chan_iffs)
    then show ?thesis using t i 1 by (simp add: take_mail_def)
  next
    case (2 c)
    then show ?thesis using t i less by (simp add: take_mail_def)
  qed
qed

lemma mail_step_inv: "mail_step l m m' \<Longrightarrow> mail_inv m \<Longrightarrow> mail_inv m'"
proof (induction rule: mail_step.induct)
  case (m_start app m)
  then show ?case unfolding mail_inv_def by auto
next
  case (m_fetch app f m)
  then show ?case unfolding mail_inv_def by auto
qed (auto intro: open_box_inv close_box_inv post_mail_inv take_mail_inv)

lemma mail_run_inv: "mail_run m ls m' \<Longrightarrow> mail_inv m \<Longrightarrow> mail_inv m'"
  by (induction rule: mail_run.induct) (auto dest: mail_step_inv)

text \<open>
  In every interleaving of requests, routines and replacements, the routines of each channel have handed the mails it took to the mail server in their order, none twice, and
  it holds the rest, at most its room; and no replacement closes a channel twice.
\<close>

theorem mails_in_order:
  assumes "mail_run mail_init ls m"
  shows "(\<forall>b \<in> set (mailboxes m). map fst (tried b) @ chan_buf (box b) = accepted b \<and> length (chan_buf (box b)) \<le> mail_channel_size)
    \<and> close_box app m \<noteq> Panics"
proof -
  have inv: "mail_inv m" using mail_run_inv [OF assms mail_inv_init] .
  then have "\<forall>b \<in> set (mailboxes m). mailbox_ok b" by (simp add: mail_inv_def list_all_iff)
  moreover have "close_box app m \<noteq> Panics"
    using inv by (auto simp: mail_inv_def close_box_def chan_close_def split: option.splits chan_result.splits)
  ultimately show ?thesis by (auto simp: mailbox_ok_def chan_ok_def)
qed

definition ref_mail :: smtpFields where
  "ref_mail = \<lparr>To = ''a@b.c'', Subject = ''hi'', Body = ''text''\<rparr>"

lemmas mail_eval = mail_run_Cons mail_step_simps mail_init_def open_box_def close_box_def mailbox_new_def make_chan_def mail_channel_size_def
  post_mail_def take_mail_def remove_nth_def chan_send_def chan_recv_def chan_close_def

theorem mails_in_order_witness:
  "\<exists>m. mail_run mail_init [OpenBox ''app1'', StartMails ''app1'', Fetch ''app1'' ref_mail, Post 0, CloseBox ''app1'', TakeMail 0 True] m
     \<and> map tried (mailboxes m) = [[(ref_mail, True)]] \<and> close_box ''app1'' m \<noteq> Panics"
proof -
  obtain m where m: "mail_run mail_init [OpenBox ''app1'', StartMails ''app1'', Fetch ''app1'' ref_mail, Post 0, CloseBox ''app1'', TakeMail 0 True] m"
    "map tried (mailboxes m) = [[(ref_mail, True)]]"
    by (simp add: mail_eval)
  have "close_box ''app1'' m \<noteq> Panics" using mails_in_order [OF m(1), of "''app1''"] by (rule conjunct2)
  with m show ?thesis by (intro exI [of _ m] conjI)
qed

section \<open>After a replacement\<close>

text \<open>A closed channel takes no mail, and as long as it holds one its routine runs.\<close>

definition draining :: "nat \<Rightarrow> smtpFields list \<Rightarrow> mail_world \<Rightarrow> bool" where
  "draining i fs m \<longleftrightarrow> i < length (mailboxes m) \<and> chan_closed (box (mailboxes m ! i)) \<and> accepted (mailboxes m ! i) = fs
     \<and> (Some i \<in> set (mailing m) \<or> chan_buf (box (mailboxes m ! i)) = [])"

lemma draining_take:
  assumes "draining i fs m" "j < length (mailing m)" "take_mail j ok m = Some m'"
  shows "draining i fs m'"
proof -
  obtain i' where i': "mailing m ! j = Some i'" using assms(3) by (auto simp: take_mail_def split: option.splits)
  consider f c where "chan_recv (box (mailboxes m ! i')) = Done (Some f, c)" | c where "chan_recv (box (mailboxes m ! i')) = Done (None, c)"
    using assms(3) i' by (auto simp: take_mail_def split: chan_result.splits option.splits)
  then show ?thesis
  proof cases
    case (1 f c)
    then have "m' = m\<lparr>mailboxes := (mailboxes m)[i' := (mailboxes m ! i')\<lparr>box := c, tried := tried (mailboxes m ! i') @ [(f, ok)]\<rparr>]\<rparr>"
      using assms(3) i' by (simp add: take_mail_def)
    then show ?thesis using 1 assms(1) by (auto simp: draining_def nth_upd chan_iffs)
  next
    case (2 c)
    then have m': "m' = m\<lparr>mailing := remove_nth j (mailing m)\<rparr>" using assms(3) i' by (simp add: take_mail_def)
    then show ?thesis
    proof (cases "i' = i")
      case True
      then show ?thesis using 2 assms(1) m' by (simp add: draining_def chan_iffs)
    next
      case False
      then show ?thesis using assms(1,2) m' i' remove_nth_mem [of j "mailing m" "Some i"] by (auto simp: draining_def)
    qed
  qed
qed

lemma draining_step: "mail_step l m m' \<Longrightarrow> draining i fs m \<Longrightarrow> draining i fs m'"
proof (induction rule: mail_step.induct)
  case (m_open app m)
  then show ?case by (auto simp: draining_def open_box_def nth_append)
next
  case (m_post k m m')
  then show ?case
    by (auto simp: draining_def post_mail_def nth_upd chan_send_def split: prod.splits option.splits chan_result.splits if_splits)
next
  case (m_take j m ok m')
  then show ?case using draining_take by blast
next
  case (m_close app m m')
  then show ?case by (auto simp: draining_def close_box_def nth_upd chan_close_def split: option.splits if_splits)
qed (auto simp: draining_def)

lemma draining_run: "mail_run m ls m' \<Longrightarrow> draining i fs m \<Longrightarrow> draining i fs m'"
  by (induction rule: mail_run.induct) (auto dest: draining_step)



section \<open>Mails that are lost\<close>

text \<open>A channel that is in no table and has no routine: nobody will receive from it.\<close>

definition abandoned :: "nat \<Rightarrow> (smtpFields \<times> bool) list \<Rightarrow> mail_world \<Rightarrow> bool" where
  "abandoned i fs m \<longleftrightarrow> i < length (mailboxes m) \<and> i \<notin> ran (appMailChanMapping m) \<and> Some i \<notin> set (mailing m) \<and> tried (mailboxes m ! i) = fs"

lemma abandoned_step: "mail_step l m m' \<Longrightarrow> abandoned i fs m \<Longrightarrow> abandoned i fs m'"
proof (induction rule: mail_step.induct)
  case (m_open app m)
  then show ?case by (auto simp: abandoned_def open_box_def nth_append ran_def split: if_splits)
next
  case (m_start app m)
  then show ?case by (auto simp: abandoned_def ran_def)
next
  case (m_post k m m')
  then show ?case
    by (auto simp: abandoned_def post_mail_def nth_upd split: prod.splits option.splits chan_result.splits)
next
  case (m_take j m ok m')
  then obtain i' where "mailing m ! j = Some i'" "i' \<noteq> i"
    by (auto simp: take_mail_def abandoned_def in_set_conv_nth split: option.splits)
  then show ?case
    using m_take set_remove_nth [of j "mailing m"]
    by (auto simp: take_mail_def abandoned_def nth_upd split: chan_result.splits option.splits prod.splits)
next
  case (m_close app m m')
  then show ?case by (auto simp: abandoned_def close_box_def nth_upd ran_def split: option.splits chan_result.splits if_splits)
qed (auto simp: abandoned_def)

lemma abandoned_run: "mail_run m ls m' \<Longrightarrow> abandoned i fs m \<Longrightarrow> abandoned i fs m'"
  by (induction rule: mail_run.induct) (auto dest: abandoned_step)

text \<open>
  Two ways to lose a mail. A request that has looked its channel up before a replacement closes it panics at its send. And when an application
  is replaced before its routine has started, the two routines that then start both take the second channel: the mails in the first are
  never sent, whatever happens.
\<close>

theorem mails_lost_at_replacement:
  "(\<exists>m. mail_run mail_init [OpenBox app, StartMails app, Fetch app f, CloseBox app, Post 0] m \<and> refused m = [f])
   \<and> (\<exists>m. mail_run mail_init [OpenBox app, Fetch app f, Post 0, CloseBox app, OpenBox app, StartMails app, StartMails app] m
       \<and> accepted (mailboxes m ! 0) = [f] \<and> (\<forall>ls m'. mail_run m ls m' \<longrightarrow> tried (mailboxes m' ! 0) = []))"
proof
  show "\<exists>m. mail_run mail_init [OpenBox app, StartMails app, Fetch app f, CloseBox app, Post 0] m \<and> refused m = [f]"
    by (simp add: mail_eval)
  obtain m where m: "mail_run mail_init [OpenBox app, Fetch app f, Post 0, CloseBox app, OpenBox app, StartMails app, StartMails app] m"
    "accepted (mailboxes m ! 0) = [f]" "abandoned 0 [] m"
    by (simp add: mail_eval abandoned_def ran_def)
  then have "tried (mailboxes m' ! 0) = []" if "mail_run m ls m'" for ls m'
    using abandoned_run [OF that m(3)] by (simp add: abandoned_def)
  then show "\<exists>m. mail_run mail_init [OpenBox app, Fetch app f, Post 0, CloseBox app, OpenBox app, StartMails app, StartMails app] m
       \<and> accepted (mailboxes m ! 0) = [f] \<and> (\<forall>ls m'. mail_run m ls m' \<longrightarrow> tried (mailboxes m' ! 0) = [])"
    using m by blast
qed

text \<open>
  A mail whose sending fails is lost as well: the channel, the routines and the table are as after a success, and nothing keeps the mail.
\<close>

theorem failed_mail_dropped:
  assumes "mailing m ! j = Some i" "i < length (mailboxes m)" "chan_buf (box (mailboxes m ! i)) = f # fs"
  shows "\<exists>m1 m2. take_mail j True m = Some m1 \<and> take_mail j False m = Some m2 \<and> map box (mailboxes m1) = map box (mailboxes m2)
    \<and> chan_buf (box (mailboxes m2 ! i)) = fs \<and> tried (mailboxes m2 ! i) = tried (mailboxes m ! i) @ [(f, False)]
    \<and> mailing m2 = mailing m \<and> posting m2 = posting m \<and> refused m2 = refused m"
  using assms by (simp add: take_mail_def chan_recv_def map_update)

theorem failed_mail_dropped_witness:
  "\<exists>m m'. mail_run mail_init [OpenBox ''app1'', StartMails ''app1'', Fetch ''app1'' ref_mail, Post 0] m
     \<and> take_mail 0 False m = Some m' \<and> chan_buf (box (mailboxes m' ! 0)) = []"
proof -
  obtain m where m: "mail_run mail_init [OpenBox ''app1'', StartMails ''app1'', Fetch ''app1'' ref_mail, Post 0] m"
    "mailing m ! 0 = Some 0" "0 < length (mailboxes m)" "chan_buf (box (mailboxes m ! 0)) = [ref_mail]"
    by (simp add: mail_eval)
  show ?thesis using failed_mail_dropped [OF m(2,3,4)] m(1) by blast
qed

end
