(* ===== verification/Referrers.thy ===== *)
theory Referrers
  imports HttpServers
begin

text \<open>
  Which worker a request for JavaScript reaches: the tables \<open>workerHTTPReferrerTable\<close> and \<open>workerHTTPReferrerTableBackIndex\<close> of
  src/go_eventing/v8_worker.go, which \<open>loadApp\<close> fills for the ports of an application and the quit case of \<open>runWorker\<close> empties. The lemmas
  say what the tables hold after any sequence of loads and quits, and what happens to the requests of an application that is replaced.
\<close>

section \<open>The tables\<close>

text \<open>Workers are positions in the list of all that were made, as in the theory GoBinding.\<close>

record referrer_tables =
  workerHTTPReferrerTable :: "string \<rightharpoonup> nat"
  workerHTTPReferrerTableBackIndex :: "nat \<rightharpoonup> string"

definition referrers_init :: referrer_tables where
  "referrers_init = \<lparr>workerHTTPReferrerTable = Map.empty, workerHTTPReferrerTableBackIndex = Map.empty\<rparr>"

definition referrer_of :: "string \<Rightarrow> string" where
  "referrer_of port = ''localhost:'' @ port"

definition add_referrer :: "nat \<Rightarrow> string \<Rightarrow> referrer_tables \<Rightarrow> referrer_tables" where
  "add_referrer handle referrer t =
     t\<lparr>workerHTTPReferrerTable := (workerHTTPReferrerTable t)(referrer \<mapsto> handle),
       workerHTTPReferrerTableBackIndex := (workerHTTPReferrerTableBackIndex t)(handle \<mapsto> referrer)\<rparr>"

text \<open>The loop of \<open>loadApp\<close> over the servers of the deployment configuration; a member of another type panics.\<close>

fun referrer_loop :: "nat \<Rightarrow> json list \<Rightarrow> referrer_tables \<Rightarrow> referrer_tables result" where
  "referrer_loop handle [] t = Inr t"
| "referrer_loop handle (c # cs) t =
     res_bind (as_map (Some c)) (\<lambda>httpConfig.
     res_bind (as_string (httpConfig ''port'')) (\<lambda>port.
       referrer_loop handle cs (add_referrer handle (referrer_of port) t)))"

definition loadApp_referrers :: "nat \<Rightarrow> json option \<Rightarrow> referrer_tables \<Rightarrow> referrer_tables result" where
  "loadApp_referrers handle DeploymentConfig t =
     res_bind (as_map DeploymentConfig) (\<lambda>config.
     res_bind (as_list (config ''http'')) (\<lambda>httpConfigs. referrer_loop handle httpConfigs t))"

text \<open>The quit case of \<open>runWorker\<close>: a worker that is not in the index gives the empty text, which no request has as its host.\<close>

definition quit_referrers :: "nat \<Rightarrow> referrer_tables \<Rightarrow> referrer_tables" where
  "quit_referrers handle t =
     (let referrer = (case workerHTTPReferrerTableBackIndex t handle of None \<Rightarrow> [] | Some r \<Rightarrow> r)
      in t\<lparr>workerHTTPReferrerTable := (workerHTTPReferrerTable t)(referrer := None),
           workerHTTPReferrerTableBackIndex := (workerHTTPReferrerTableBackIndex t)(handle := None)\<rparr>)"

section \<open>Loading\<close>

lemma add_referrer_simps [simp]:
  "workerHTTPReferrerTable (add_referrer w r t) = (workerHTTPReferrerTable t)(r \<mapsto> w)"
  "workerHTTPReferrerTableBackIndex (add_referrer w r t) = (workerHTTPReferrerTableBackIndex t)(w \<mapsto> r)"
  by (simp_all add: add_referrer_def)

lemma referrer_of_inject [simp]: "referrer_of p = referrer_of q \<longleftrightarrow> p = q" "referrer_of p \<noteq> []"
  by (simp_all add: referrer_of_def)

text \<open>The ports of the servers of a configuration; a load that returns has entered them in their order.\<close>

fun server_ports :: "json list \<Rightarrow> string list result" where
  "server_ports [] = Inr []"
| "server_ports (c # cs) =
     res_bind (as_map (Some c)) (\<lambda>httpConfig.
     res_bind (as_string (httpConfig ''port'')) (\<lambda>port.
     res_bind (server_ports cs) (\<lambda>ports. Inr (port # ports))))"

lemma referrer_loop_ports:
  assumes "referrer_loop w cs t = Inr t'"
  shows "\<exists>ports. server_ports cs = Inr ports \<and> length ports = length cs \<and> t' = fold (add_referrer w) (map referrer_of ports) t"
  using assms
proof (induction cs arbitrary: t)
  case Nil
  then show ?case by simp
next
  case (Cons c cs)
  then obtain m port where m: "as_map (Some c) = Inr m" "as_string (m ''port'') = Inr port"
    and "referrer_loop w cs (add_referrer w (referrer_of port) t) = Inr t'"
    by (auto simp: res_bind_eq_Inr_iff)
  then obtain ports where "server_ports cs = Inr ports" "length ports = length cs"
    "t' = fold (add_referrer w) (map referrer_of ports) (add_referrer w (referrer_of port) t)"
    using Cons.IH by blast
  then show ?case using m by (intro exI [of _ "port # ports"]) simp
qed

definition ports_config :: "string list \<Rightarrow> json" where
  "ports_config ports = JObj [(''http'', JArr (map (\<lambda>p. JObj [(''port'', JStr p)]) ports))]"

lemma loadApp_ports_config:
  "loadApp_referrers w (Some (ports_config ports)) t = Inr (fold (add_referrer w) (map referrer_of ports) t)"
proof -
  have "referrer_loop w (map (\<lambda>p. JObj [(''port'', JStr p)]) ports) t = Inr (fold (add_referrer w) (map referrer_of ports) t)" for t
    by (induction ports arbitrary: t) (simp_all add: as_map_def as_string_def)
  then show ?thesis by (simp add: loadApp_referrers_def ports_config_def as_map_def as_list_def)
qed

lemma fold_add_referrer:
  "workerHTTPReferrerTable (fold (add_referrer w) rs t) r = (if r \<in> set rs then Some w else workerHTTPReferrerTable t r)"
  "workerHTTPReferrerTableBackIndex (fold (add_referrer w) rs t)
     = (if rs = [] then workerHTTPReferrerTableBackIndex t else (workerHTTPReferrerTableBackIndex t)(w \<mapsto> last rs))"
  by (induction rs arbitrary: t) auto

section \<open>Histories of loads and quits\<close>

text \<open>
  Loads of new workers and quits of running ones, in any order and for any number of applications. \<open>running\<close> are the workers that were
  loaded and did not quit. How many servers a configuration has is a bound of the history; with \<open>own_ports\<close>, no load takes the port of a worker
  that runs, as two applications with the same port or a new version that is loaded before the old one quits do.
\<close>

inductive referrer_history :: "nat \<Rightarrow> bool \<Rightarrow> nat set \<Rightarrow> nat set \<Rightarrow> referrer_tables \<Rightarrow> bool" for bound own_ports where
  no_workers: "referrer_history bound own_ports {} {} referrers_init"
| load_worker: "referrer_history bound own_ports made running t \<Longrightarrow> w \<notin> made \<Longrightarrow> as_map cfg = Inr config \<Longrightarrow> as_list (config ''http'') = Inr cs \<Longrightarrow>
    length cs \<le> bound \<Longrightarrow> loadApp_referrers w cfg t = Inr t' \<Longrightarrow>
    (own_ports \<Longrightarrow> \<forall>ports p u. server_ports cs = Inr ports \<longrightarrow> p \<in> set ports \<longrightarrow> workerHTTPReferrerTableBackIndex t u \<noteq> Some (referrer_of p)) \<Longrightarrow>
    referrer_history bound own_ports (insert w made) (insert w running) t'"
| quit_worker: "referrer_history bound own_ports made running t \<Longrightarrow> w \<in> running \<Longrightarrow>
    referrer_history bound own_ports made (running - {w}) (quit_referrers w t)"

lemma loaded_ports:
  assumes "as_map cfg = Inr config" "as_list (config ''http'') = Inr cs" "loadApp_referrers w cfg t = Inr t'"
  shows "\<exists>ports. server_ports cs = Inr ports \<and> length ports = length cs \<and> t' = fold (add_referrer w) (map referrer_of ports) t"
proof -
  have "referrer_loop w cs t = Inr t'" using assms by (simp add: loadApp_referrers_def)
  then show ?thesis using referrer_loop_ports by metis
qed

lemma history_running: "referrer_history b own made running t \<Longrightarrow> running \<subseteq> made"
  by (induction rule: referrer_history.induct) auto

definition index_inv :: "bool \<Rightarrow> nat set \<Rightarrow> referrer_tables \<Rightarrow> bool" where
  "index_inv own running t \<longleftrightarrow>
     (\<forall>w r. workerHTTPReferrerTableBackIndex t w = Some r \<longrightarrow> w \<in> running \<and> r \<noteq> [])
   \<and> (\<forall>r w. workerHTTPReferrerTable t r = Some w \<longrightarrow> workerHTTPReferrerTableBackIndex t w = Some r)
   \<and> (own \<longrightarrow> (\<forall>w r. workerHTTPReferrerTableBackIndex t w = Some r \<longrightarrow> workerHTTPReferrerTable t r = Some w))"

lemma index_invD:
  assumes "index_inv own running t"
  shows "workerHTTPReferrerTableBackIndex t w = Some r \<Longrightarrow> w \<in> running \<and> r \<noteq> []"
    and "workerHTTPReferrerTable t r = Some w \<Longrightarrow> workerHTTPReferrerTableBackIndex t w = Some r"
    and "own \<Longrightarrow> workerHTTPReferrerTableBackIndex t w = Some r \<Longrightarrow> workerHTTPReferrerTable t r = Some w"
  using assms unfolding index_inv_def by blast+

lemma load_index_inv:
  assumes inv: "index_inv own running t" and w: "workerHTTPReferrerTableBackIndex t w = None"
    and ports: "length ports \<le> 1" "t' = fold (add_referrer w) (map referrer_of ports) t"
    and own: "own \<Longrightarrow> \<forall>p \<in> set ports. \<forall>u. workerHTTPReferrerTableBackIndex t u \<noteq> Some (referrer_of p)"
  shows "index_inv own (insert w running) t'"
proof (cases ports)
  case Nil
  then have "t' = t" using ports(2) by simp
  then show ?thesis using inv unfolding index_inv_def by blast
next
  case (Cons p ps)
  then have t': "t' = add_referrer w (referrer_of p) t" using ports by simp
  note D = index_invD [OF inv]
  have f: "u \<noteq> w" if "workerHTTPReferrerTable t r = Some u" for r u using D(2) [OF that] w by auto
  show ?thesis unfolding index_inv_def
  proof (intro conjI impI allI)
    fix u r assume i: "workerHTTPReferrerTableBackIndex t' u = Some r"
    show "u \<in> insert w running" "r \<noteq> []" using i D(1) [of u r] by (auto simp: t' split: if_splits)
    show "workerHTTPReferrerTable t' r = Some u" if o: own
    proof (cases "u = w")
      case False
      then have "workerHTTPReferrerTableBackIndex t u = Some r" using i by (simp add: t')
      then show ?thesis using D(3) [OF o] own [OF o] by (auto simp: t' Cons)
    qed (use i in \<open>simp add: t'\<close>)
  next
    fix r u assume i: "workerHTTPReferrerTable t' r = Some u"
    show "workerHTTPReferrerTableBackIndex t' u = Some r"
    proof (cases "r = referrer_of p")
      case False
      then have "workerHTTPReferrerTable t r = Some u" using i by (simp add: t')
      then show ?thesis using D(2) f by (simp add: t')
    qed (use i in \<open>simp add: t'\<close>)
  qed
qed

lemma quit_index_inv:
  assumes inv: "index_inv own running t"
  shows "index_inv own (running - {w}) (quit_referrers w t)"
proof -
  let ?t = "quit_referrers w t" and ?q = "case workerHTTPReferrerTableBackIndex t w of None \<Rightarrow> [] | Some r \<Rightarrow> r"
  note D = index_invD [OF inv]
  have T: "workerHTTPReferrerTable ?t = (workerHTTPReferrerTable t)(?q := None)"
    "workerHTTPReferrerTableBackIndex ?t = (workerHTTPReferrerTableBackIndex t)(w := None)"
    by (simp_all add: quit_referrers_def)
  show ?thesis unfolding index_inv_def
  proof (intro conjI impI allI)
    fix u r assume i: "workerHTTPReferrerTableBackIndex ?t u = Some r"
    then have u: "u \<noteq> w" "workerHTTPReferrerTableBackIndex t u = Some r" by (simp_all add: T split: if_splits)
    show "u \<in> running - {w}" "r \<noteq> []" using D(1) [OF u(2)] u(1) by simp_all
    show "workerHTTPReferrerTable ?t r = Some u" if o: own
    proof -
      have r: "workerHTTPReferrerTable t r = Some u" using D(3) [OF o u(2)] .
      have "?q \<noteq> r"
        using D(1) [OF u(2)] D(3) [OF o, of w r] r u(1) by (cases "workerHTTPReferrerTableBackIndex t w") auto
      then show ?thesis using r by (simp add: T)
    qed
  next
    fix r u assume i: "workerHTTPReferrerTable ?t r = Some u"
    then have r: "r \<noteq> ?q" "workerHTTPReferrerTable t r = Some u" by (simp_all add: T split: if_splits)
    have "u \<noteq> w" using D(2) [OF r(2)] r(1) by auto
    then show "workerHTTPReferrerTableBackIndex ?t u = Some r" using D(2) [OF r(2)] by (simp add: T)
  qed
qed

lemma one_port_index: "referrer_history 1 own made running t \<Longrightarrow> index_inv own running t"
proof (induction rule: referrer_history.induct)
  case no_workers
  then show ?case by (simp add: index_inv_def referrers_init_def)
next
  case (load_worker made running t w cfg config cs t')
  obtain ports where ports: "server_ports cs = Inr ports" "length ports = length cs" "t' = fold (add_referrer w) (map referrer_of ports) t"
    using loaded_ports load_worker.hyps by blast
  have "workerHTTPReferrerTableBackIndex t w = None"
    using load_worker.IH load_worker.hyps(2) history_running [OF load_worker.hyps(1)]
    unfolding index_inv_def by (meson not_None_eq subsetD)
  then show ?case using load_worker ports by (intro load_index_inv) auto
next
  case (quit_worker made running t w)
  then show ?case using quit_index_inv by blast
qed

text \<open>
  C21. With one HTTP server to each application, after every sequence of loads and quits, a request reaches a worker only if that
  worker runs, and the port of the request is the one the worker was entered with. The index may hold more: a worker whose port a later load took stays
  in it. If no load takes the port of a running worker, the two tables are inverse to each other, so every worker that was entered and runs is reached through its port.
\<close>

theorem requests_reach_running_workers:
  assumes "referrer_history 1 own_ports made running t"
  shows "(workerHTTPReferrerTable t r = Some w \<longrightarrow> w \<in> running \<and> workerHTTPReferrerTableBackIndex t w = Some r)
    \<and> (own_ports \<longrightarrow> (workerHTTPReferrerTableBackIndex t w = Some r \<longleftrightarrow> workerHTTPReferrerTable t r = Some w))"
  using one_port_index [OF assms] unfolding index_inv_def by blast

theorem requests_reach_running_workers_witness:
  "\<exists>t. referrer_history 1 True {0, 1} {1} t \<and> workerHTTPReferrerTable t (referrer_of ''8080'') = Some 1
     \<and> workerHTTPReferrerTableBackIndex t 1 = Some (referrer_of ''8080'')"
proof -
  let ?cfg = "Some (ports_config [''8080''])" and ?r = "referrer_of ''8080''"
  have cfg: "\<exists>config cs. as_map ?cfg = Inr config \<and> as_list (config ''http'') = Inr cs \<and> length cs \<le> 1 \<and> server_ports cs = Inr [''8080'']"
    by (simp add: ports_config_def as_map_def as_list_def as_string_def)
  then obtain config cs where c: "as_map ?cfg = Inr config" "as_list (config ''http'') = Inr cs" "length cs \<le> 1" and p: "server_ports cs = Inr [''8080'']"
    by blast
  have h0: "referrer_history 1 True {0} {0} (add_referrer 0 ?r referrers_init)"
    using load_worker [OF no_workers _ c, of 0] loadApp_ports_config [of 0 "[''8080'']"] p by (simp add: referrers_init_def)
  have h1: "referrer_history 1 True {0} {} (quit_referrers 0 (add_referrer 0 ?r referrers_init))"
    using quit_worker [OF h0, of 0] by simp
  let ?t = "add_referrer 1 ?r (quit_referrers 0 (add_referrer 0 ?r referrers_init))"
  have h2: "referrer_history 1 True {0, 1} {1} ?t"
    using load_worker [OF h1 _ c, of 1] loadApp_ports_config [of 1 "[''8080'']"] p
    by (simp add: referrers_init_def quit_referrers_def insert_commute)
  have "workerHTTPReferrerTable ?t ?r = Some 1" by simp
  then show ?thesis using requests_reach_running_workers [OF h2, of ?r 1] h2 by blast
qed

text \<open>
  Without the restriction the index keeps a worker that cannot be reached: after the load of a second worker for the same port, both are in the
  index, and requests go to the second only.
\<close>

theorem index_keeps_unreached:
  assumes "loadApp_referrers u (Some (ports_config [p])) t = Inr t1" "loadApp_referrers w (Some (ports_config [p])) t1 = Inr t2" "u \<noteq> w"
  shows "workerHTTPReferrerTableBackIndex t2 u = Some (referrer_of p) \<and> workerHTTPReferrerTableBackIndex t2 w = Some (referrer_of p)
    \<and> workerHTTPReferrerTable t2 (referrer_of p) = Some w"
  using assms by (auto simp: loadApp_ports_config)

theorem index_keeps_unreached_witness:
  "workerHTTPReferrerTableBackIndex (add_referrer 1 (referrer_of ''8080'') (add_referrer 0 (referrer_of ''8080'') referrers_init)) 0
     = Some (referrer_of ''8080'')"
  using index_keeps_unreached [of 0 "''8080''" referrers_init "add_referrer 0 (referrer_of ''8080'') referrers_init" 1
      "add_referrer 1 (referrer_of ''8080'') (add_referrer 0 (referrer_of ''8080'') referrers_init)"]
  by (simp add: loadApp_ports_config)

section \<open>Replacing a worker\<close>

text \<open>
  A new version of an application whose worker quits before the new one is loaded gets the requests. If it is loaded first, the
  quitting worker removes the entry of the new one, and every request for the application panics. Of an application with several servers only the last entry is removed, so the requests of the
  others go to the worker that was stopped.
\<close>

theorem requests_after_redeploy:
  assumes "loadApp_referrers old (Some (ports_config (ps @ [p]))) t = Inr t1" "new \<noteq> old"
    and "Method \<in> {''GET'', ''POST''}" "2 < length (Split (CHR ''/'') path)"
  shows "\<exists>t2 t3. loadApp_referrers new (Some (ports_config (ps @ [p]))) (quit_referrers old t1) = Inr t2
    \<and> workerHTTPReferrerTable t2 (referrer_of p) = Some new
    \<and> loadApp_referrers new (Some (ports_config (ps @ [p]))) t1 = Inr t3
    \<and> handleJsRequests L (workerHTTPReferrerTable (quit_referrers old t3)) Method path URL_Host (referrer_of p) params st = Inl Null_deref
    \<and> (\<forall>q \<in> set ps - {p}. workerHTTPReferrerTable (quit_referrers old t1) (referrer_of q) = Some old)"
proof -
  let ?rs = "map referrer_of (ps @ [p])"
  have t1: "t1 = fold (add_referrer old) ?rs t" using assms(1) loadApp_ports_config by auto
  have b: "workerHTTPReferrerTableBackIndex t1 old = Some (referrer_of p)" by (simp add: t1 fold_add_referrer)
  let ?t2 = "fold (add_referrer new) ?rs (quit_referrers old t1)" and ?t3 = "fold (add_referrer new) ?rs t1"
  have "workerHTTPReferrerTableBackIndex ?t3 old = Some (referrer_of p)" using b assms(2) unfolding fold_add_referrer by simp
  then have gone: "workerHTTPReferrerTable (quit_referrers old ?t3) (referrer_of p) = None" by (simp add: quit_referrers_def)
  have "handleJsRequests L (workerHTTPReferrerTable (quit_referrers old ?t3)) Method path URL_Host (referrer_of p) params st = Inl Null_deref"
    using assms(3,4) gone by (auto simp: handleJsRequests_def go_index_def)
  moreover have "workerHTTPReferrerTable ?t2 (referrer_of p) = Some new" unfolding fold_add_referrer by simp
  moreover have "\<forall>q \<in> set ps - {p}. workerHTTPReferrerTable (quit_referrers old t1) (referrer_of q) = Some old"
    using b by (auto simp: quit_referrers_def t1 fold_add_referrer)
  ultimately show ?thesis using loadApp_ports_config by blast
qed

theorem requests_after_redeploy_witness:
  "\<exists>t3. loadApp_referrers 1 (Some (ports_config [''8080''])) (add_referrer 0 (referrer_of ''8080'') referrers_init) = Inr t3
    \<and> handleJsRequests (ref_libs ends_quietly) (workerHTTPReferrerTable (quit_referrers 0 t3)) ''GET'' ''/app/x'' [] (referrer_of ''8080'') []
        (go_binding_init, ref_world) = Inl Null_deref"
proof -
  have "loadApp_referrers 0 (Some (ports_config ([] @ [''8080'']))) referrers_init = Inr (add_referrer 0 (referrer_of ''8080'') referrers_init)"
    by (simp add: loadApp_ports_config)
  moreover have "2 < length (Split (CHR ''/'') ''/app/x'')" by simp
  ultimately show ?thesis using requests_after_redeploy [of 0 "[]" "''8080''" referrers_init _ 1 "''GET''" "''/app/x''"] by fastforce
qed

end
