(* ===== verification/StartUp.thy ===== *)
theory StartUp
  imports Channel
begin

text \<open>
  The start of the service: \<open>main\<close> of src/go_eventing/eventing.go, which sets up the applications of the directory
  \<open>./apps\<close> and then announces them to its own loop, with the goroutine \<open>startTimerProcessing\<close> and the deployments that arrive over
  HTTP meanwhile. The two channels between them have room for a hundred names, and \<open>appSetup\<close> is made late, so the theory is a step
  relation over the interleavings. The lemmas say when the service gets to its loop, that it then serves
  every application, and what a deployment that comes too early does. What the set-up of one application does is in the
  theories HttpServers, MailServer, LocalTcp and DcpClient, the quit message of a running one in Lifecycle.
\<close>

section \<open>State\<close>

text \<open>
  What the service finds: the names of the first reading of the directory, which ignores its error, and of the second; the applications with settings for
  mail, for which \<open>setUpMailServer\<close> takes the lock. Of an application, whether \<open>getSource\<close> panics on its file; how often the lookup of its
  metadata bucket and of its source bucket fails before it succeeds (\<open>None\<close>: it never does), as the loops of \<open>setUpEventingApp\<close> ask again and again;
  whether the set-up then ends the process, by a panic or by \<open>logging.Fatalf\<close>; whether \<open>performAppHTTPSetup\<close> or \<open>setUpMailServer\<close> panics on it.
  And whether the port of the service can be opened: \<open>log.Fatal\<close> ends the process if it cannot. That an open listener fails later is left out.
\<close>

record installation =
  first_listing :: "string list"
  apps_dir :: "string list option"
  has_mail :: "string \<Rightarrow> bool"
  config_panics :: "string \<Rightarrow> bool"
  meta_misses :: "string \<Rightarrow> nat option"
  src_misses :: "string \<Rightarrow> nat option"
  setup_panics :: "string \<Rightarrow> bool"
  serve_panics :: "string \<Rightarrow> bool"
  port_free :: bool

text \<open>
  The lookup after the given number of failed ones fails: the metadata bucket is looked for first, then the source bucket.
\<close>

definition lookup_fails :: "installation \<Rightarrow> string \<Rightarrow> nat \<Rightarrow> bool" where
  "lookup_fails E f n \<longleftrightarrow>
     (case meta_misses E f of
        None \<Rightarrow> True
      | Some k \<Rightarrow> n < k \<or> (case src_misses E f of None \<Rightarrow> True | Some j \<Rightarrow> n < k + j))"

definition buckets_found :: "installation \<Rightarrow> string \<Rightarrow> bool" where
  "buckets_found E f \<longleftrightarrow> meta_misses E f \<noteq> None \<and> src_misses E f \<noteq> None"

definition misses :: "installation \<Rightarrow> string \<Rightarrow> nat" where
  "misses E f = (case (meta_misses E f, src_misses E f) of (Some k, Some j) \<Rightarrow> k + j | _ \<Rightarrow> 0)"

lemma lookup_fails_iff: "buckets_found E f \<Longrightarrow> lookup_fails E f n \<longleftrightarrow> n < misses E f"
  by (auto simp: lookup_fails_def buckets_found_def misses_def)

text \<open>Where \<open>main\<close> is: at the set-ups left, before the second reading, at the announcements left, waiting in its loop, or with a message of it.\<close>

datatype main_at = SettingUp "string list" | Reading | Announcing "string list" | Looping | Serving string | Exited

text \<open>
  The lock, when \<open>storeAppSetup\<close> has it: for which application, and whether that had a worker. \<open>Stuck\<close> is a request that waits for ever on
  the nil channel.
\<close>

datatype table_lock = Free | Held string bool | Stuck

record service =
  main_pc :: main_at
  timerEventWorkerChannel :: "string chan"
  timer_loop :: bool
  http_up :: bool
  appSetup :: "string chan option"
  tableLock :: table_lock
  workers :: "string list"
  starting :: "string list"
  loaded :: "string list"
  timers :: "string list"
  served :: "string list"
  retries :: nat

definition setup_size :: nat where
  "setup_size = 100"

definition service_init :: "installation \<Rightarrow> service" where
  "service_init E = \<lparr>main_pc = SettingUp (first_listing E), timerEventWorkerChannel = make_chan setup_size, timer_loop = False, http_up = False,
     appSetup = None, tableLock = Free, workers = [], starting = [], loaded = [], timers = [], served = [], retries = 0\<rparr>"

section \<open>Steps\<close>

datatype service_label = Retry | SetUp | StartTimers | HttpUp | ReadApps | Announce | Announced | Recv | MailSetUp | TimerTake
  | StoreLock string | StoreSend | LoadApp string | SendConfig string

text \<open>
  The end of \<open>setUpEventingApp\<close>, once both buckets are found; a label \<open>Retry\<close> is a turn of one of its two loops.
\<close>

definition set_up :: "installation \<Rightarrow> string \<Rightarrow> string list \<Rightarrow> service \<Rightarrow> service option" where
  "set_up E f fs s =
     (if config_panics E f then Some (s\<lparr>main_pc := Exited\<rparr>)
      else if lookup_fails E f (retries s) then None
      else if setup_panics E f then Some (s\<lparr>main_pc := Exited\<rparr>)
      else case chan_send f (timerEventWorkerChannel s) of
             Done c \<Rightarrow> Some (s\<lparr>main_pc := SettingUp fs, timerEventWorkerChannel := c, workers := workers s @ [f], retries := 0\<rparr>)
           | _ \<Rightarrow> None)"

definition http_server :: "installation \<Rightarrow> service \<Rightarrow> service" where
  "http_server E s = (if port_free E then s\<lparr>http_up := True\<rparr> else s\<lparr>main_pc := Exited\<rparr>)"

definition serve_app :: "installation \<Rightarrow> string \<Rightarrow> service \<Rightarrow> service" where
  "serve_app E f s = (if serve_panics E f then s\<lparr>main_pc := Exited\<rparr> else s\<lparr>main_pc := Looping, served := served s @ [f]\<rparr>)"

definition read_apps :: "installation \<Rightarrow> service \<Rightarrow> service" where
  "read_apps E s =
     (case apps_dir E of
        None \<Rightarrow> s\<lparr>main_pc := Exited\<rparr>
      | Some fs \<Rightarrow> s\<lparr>main_pc := Announcing fs, appSetup := Some (make_chan setup_size)\<rparr>)"

text \<open>
  The end of \<open>storeAppSetup\<close>, with the lock: an application that had a worker is announced and then set up, another one
  the other way round. The set-up is a goroutine of its own.
\<close>

definition store_lock :: "string \<Rightarrow> service \<Rightarrow> service" where
  "store_lock f s =
     s\<lparr>tableLock := Held f (f \<in> set (workers s)), starting := starting s @ (if f \<in> set (workers s) then [] else [f])\<rparr>"

definition store_send :: "string \<Rightarrow> bool \<Rightarrow> service \<Rightarrow> service option" where
  "store_send f had_worker s =
     (case appSetup s of
        None \<Rightarrow> Some (s\<lparr>tableLock := Stuck\<rparr>)
      | Some c \<Rightarrow> (case chan_send f c of
          Done c' \<Rightarrow> Some (s\<lparr>tableLock := Free, appSetup := Some c', starting := starting s @ (if had_worker then [f] else [])\<rparr>)
        | _ \<Rightarrow> None))"

definition load_app :: "installation \<Rightarrow> string \<Rightarrow> service \<Rightarrow> service" where
  "load_app E f s =
     (if config_panics E f \<or> setup_panics E f then s\<lparr>main_pc := Exited\<rparr>
      else s\<lparr>starting := remove1 f (starting s), loaded := f # loaded s, workers := workers s @ [f]\<rparr>)"

inductive service_step :: "installation \<Rightarrow> service_label \<Rightarrow> service \<Rightarrow> service \<Rightarrow> bool" for E where
  step_retry: "main_pc s = SettingUp (f # fs) \<Longrightarrow> \<not> config_panics E f \<Longrightarrow> lookup_fails E f (retries s) \<Longrightarrow>
    service_step E Retry s (s\<lparr>retries := Suc (retries s)\<rparr>)"
| step_set_up: "main_pc s = SettingUp (f # fs) \<Longrightarrow> set_up E f fs s = Some s' \<Longrightarrow> service_step E SetUp s s'"
| step_timers: "main_pc s = SettingUp [] \<Longrightarrow> service_step E StartTimers s (s\<lparr>main_pc := Reading, timer_loop := True\<rparr>)"
| step_http: "timer_loop s \<Longrightarrow> \<not> http_up s \<Longrightarrow> main_pc s \<noteq> Exited \<Longrightarrow> service_step E HttpUp s (http_server E s)"
| step_read: "main_pc s = Reading \<Longrightarrow> service_step E ReadApps s (read_apps E s)"
| step_announce: "main_pc s = Announcing (f # fs) \<Longrightarrow> appSetup s = Some c \<Longrightarrow> chan_send f c = Done c' \<Longrightarrow>
    service_step E Announce s (s\<lparr>main_pc := Announcing fs, appSetup := Some c'\<rparr>)"
| step_announced: "main_pc s = Announcing [] \<Longrightarrow> service_step E Announced s (s\<lparr>main_pc := Looping\<rparr>)"
| step_recv: "main_pc s = Looping \<Longrightarrow> appSetup s = Some c \<Longrightarrow> chan_recv c = Done (Some f, c') \<Longrightarrow>
    service_step E Recv s (s\<lparr>main_pc := Serving f, appSetup := Some c'\<rparr>)"
| step_mail: "main_pc s = Serving f \<Longrightarrow> \<not> has_mail E f \<or> tableLock s = Free \<Longrightarrow>
    service_step E MailSetUp s (serve_app E f s)"
| step_timer: "timer_loop s \<Longrightarrow> main_pc s \<noteq> Exited \<Longrightarrow> chan_recv (timerEventWorkerChannel s) = Done (Some f, c) \<Longrightarrow>
    service_step E TimerTake s (s\<lparr>timerEventWorkerChannel := c, timers := timers s @ [f]\<rparr>)"
| step_store: "http_up s \<Longrightarrow> main_pc s \<noteq> Exited \<Longrightarrow> tableLock s = Free \<Longrightarrow> service_step E (StoreLock f) s (store_lock f s)"
| step_send: "main_pc s \<noteq> Exited \<Longrightarrow> tableLock s = Held f w \<Longrightarrow> store_send f w s = Some s' \<Longrightarrow> service_step E StoreSend s s'"
| step_load: "main_pc s \<noteq> Exited \<Longrightarrow> f \<in> set (starting s) \<Longrightarrow> config_panics E f \<or> buckets_found E f \<and> tableLock s = Free \<Longrightarrow>
    service_step E (LoadApp f) s (load_app E f s)"
| step_config: "main_pc s \<noteq> Exited \<Longrightarrow> f \<in> set (loaded s) \<Longrightarrow> chan_send f (timerEventWorkerChannel s) = Done c \<Longrightarrow>
    service_step E (SendConfig f) s (s\<lparr>loaded := remove1 f (loaded s), timerEventWorkerChannel := c\<rparr>)"

inductive service_run :: "installation \<Rightarrow> service \<Rightarrow> service_label list \<Rightarrow> service \<Rightarrow> bool" for E where
  service_Nil: "service_run E s [] s"
| service_Cons: "service_step E l s s1 \<Longrightarrow> service_run E s1 ls s' \<Longrightarrow> service_run E s (l # ls) s'"

inductive_simps service_run_Nil [simp]: "service_run E s [] s'"

inductive_simps service_run_Cons: "service_run E s (l # ls) s'"

inductive_simps service_step_simps:
  "service_step E Retry s s'" "service_step E SetUp s s'" "service_step E StartTimers s s'" "service_step E HttpUp s s'" "service_step E ReadApps s s'"
  "service_step E Announce s s'" "service_step E Announced s s'" "service_step E Recv s s'" "service_step E MailSetUp s s'"
  "service_step E TimerTake s s'" "service_step E (StoreLock f) s s'" "service_step E StoreSend s s'"

lemma service_run_append: "service_run E s ls s1 \<Longrightarrow> service_run E s1 ls' s' \<Longrightarrow> service_run E s (ls @ ls') s'"
  by (induction rule: service_run.induct) (auto intro: service_Cons)

lemmas service_defs = set_up_def http_server_def serve_app_def read_apps_def store_lock_def store_send_def load_app_def

section \<open>When the service gets to its loop\<close>

text \<open>
  Before the timers are started, the names of the set-ups made fill their channel; when \<open>main\<close> announces, its channel holds at
  least the names announced.
\<close>

definition sets_up :: "installation \<Rightarrow> string \<Rightarrow> bool" where
  "sets_up E f \<longleftrightarrow> \<not> config_panics E f \<and> buckets_found E f \<and> \<not> setup_panics E f"

definition all_set_up :: "installation \<Rightarrow> bool" where
  "all_set_up E \<longleftrightarrow> length (first_listing E) \<le> setup_size \<and> list_all (sets_up E) (first_listing E)"

lemma set_up_found: "\<not> lookup_fails E f n \<Longrightarrow> buckets_found E f"
  by (auto simp: lookup_fails_def buckets_found_def split: option.splits)

definition start_inv :: "installation \<Rightarrow> service \<Rightarrow> bool" where
  "start_inv E s \<longleftrightarrow>
     (case main_pc s of
        SettingUp fs \<Rightarrow>
          \<not> timer_loop s \<and> \<not> http_up s \<and> appSetup s = None \<and> tableLock s = Free \<and> starting s = [] \<and> loaded s = [] \<and>
          chan_cap (timerEventWorkerChannel s) = setup_size \<and> chan_ok (timerEventWorkerChannel s) \<and>
          first_listing E = chan_buf (timerEventWorkerChannel s) @ fs \<and>
          list_all (sets_up E) (chan_buf (timerEventWorkerChannel s))
      | Reading \<Rightarrow> all_set_up E \<and> appSetup s = None
      | Announcing fs \<Rightarrow> all_set_up E \<and>
          (\<exists>names c. apps_dir E = Some (names @ fs) \<and> appSetup s = Some c \<and> chan_cap c = setup_size \<and> chan_ok c \<and>
             length names \<le> length (chan_buf c))
      | Exited \<Rightarrow> True
      | _ \<Rightarrow> all_set_up E \<and> (\<exists>names. apps_dir E = Some names \<and> length names \<le> setup_size))"

lemma start_inv_init: "start_inv E (service_init E)"
  by (simp add: start_inv_def service_init_def make_chan_def chan_ok_def)

lemma set_up_inv: "main_pc s = SettingUp (f # fs) \<Longrightarrow> set_up E f fs s = Some s' \<Longrightarrow> start_inv E s \<Longrightarrow> start_inv E s'"
  by (auto simp: start_inv_def set_up_def sets_up_def chan_send_def chan_ok_def dest: set_up_found split: if_splits)

lemma read_apps_inv: "main_pc s = Reading \<Longrightarrow> start_inv E s \<Longrightarrow> start_inv E (read_apps E s)"
  by (auto simp: start_inv_def read_apps_def make_chan_def chan_ok_def split: option.splits)

lemma announce_inv:
  assumes "main_pc s = Announcing (f # fs)" "appSetup s = Some c" "chan_send f c = Done c'" "start_inv E s"
  shows "start_inv E (s\<lparr>main_pc := Announcing fs, appSetup := Some c'\<rparr>)"
proof -
  obtain names where n: "all_set_up E" "apps_dir E = Some (names @ f # fs)" "chan_cap c = setup_size" "length names \<le> length (chan_buf c)"
    using assms by (auto simp: start_inv_def)
  then have "chan_cap c' = setup_size" "chan_ok c'" "length (names @ [f]) \<le> length (chan_buf c')"
    using assms(3) by (auto simp: chan_iffs chan_ok_def)
  then show ?thesis using n(1,2) by (auto simp: start_inv_def intro!: exI [of _ "names @ [f]"])
qed

lemma store_send_inv: "store_send f w s = Some s' \<Longrightarrow> tableLock s = Held f w \<Longrightarrow> start_inv E s \<Longrightarrow> start_inv E s'"
  by (auto simp: start_inv_def store_send_def chan_send_def chan_ok_def split: option.splits main_at.splits if_splits)

lemma service_step_inv: "service_step E l s s' \<Longrightarrow> start_inv E s \<Longrightarrow> start_inv E s'"
proof (induction rule: service_step.induct)
  case (step_set_up s f fs s')
  then show ?case by (rule set_up_inv)
next
  case (step_read s)
  then show ?case by (rule read_apps_inv)
next
  case (step_announce s f fs c c')
  then show ?case by (rule announce_inv)
next
  case (step_send s f w s')
  then show ?case using store_send_inv by blast
qed (auto simp: start_inv_def store_lock_def load_app_def http_server_def serve_app_def all_set_up_def chan_ok_def split: main_at.splits)

lemma service_run_inv: "service_run E s ls s' \<Longrightarrow> start_inv E s \<Longrightarrow> start_inv E s'"
  by (induction rule: service_run.induct) (auto dest: service_step_inv)

text \<open>Applications whose names fit the channel are set up one after the other, each after its failed lookups.\<close>

definition set_up_labels :: "installation \<Rightarrow> string list \<Rightarrow> service_label list" where
  "set_up_labels E fs = concat (map (\<lambda>f. replicate (misses E f) Retry @ [SetUp]) fs)"

lemma retries_run:
  assumes "sets_up E f" "main_pc s = SettingUp (f # fs)" "retries s + k \<le> misses E f"
  shows "service_run E s (replicate k Retry) (s\<lparr>retries := retries s + k\<rparr>)"
  using assms(2,3)
proof (induction k arbitrary: s)
  case 0
  then show ?case by simp
next
  case (Suc k)
  have "service_step E Retry s (s\<lparr>retries := Suc (retries s)\<rparr>)"
    using Suc.prems assms(1) by (intro step_retry) (auto simp: sets_up_def lookup_fails_iff)
  moreover have "service_run E (s\<lparr>retries := Suc (retries s)\<rparr>) (replicate k Retry) (s\<lparr>retries := retries s + Suc k\<rparr>)"
    using Suc.IH [of "s\<lparr>retries := Suc (retries s)\<rparr>"] Suc.prems by simp
  ultimately show ?case by (auto intro: service_Cons)
qed

lemma set_ups_run:
  assumes "list_all (sets_up E) fs" "\<not> chan_closed c" "length (chan_buf c) + length fs \<le> chan_cap c"
    "main_pc s = SettingUp fs" "timerEventWorkerChannel s = c" "retries s = 0"
  shows "service_run E s (set_up_labels E fs)
    (s\<lparr>main_pc := SettingUp [], timerEventWorkerChannel := c\<lparr>chan_buf := chan_buf c @ fs\<rparr>, workers := workers s @ fs\<rparr>)"
  using assms
proof (induction fs arbitrary: c s)
  case Nil
  then show ?case by (simp add: set_up_labels_def)
next
  case (Cons f fs)
  define s0 where "s0 = s\<lparr>retries := misses E f\<rparr>"
  define s1 where "s1 = s\<lparr>main_pc := SettingUp fs, timerEventWorkerChannel := c\<lparr>chan_buf := chan_buf c @ [f]\<rparr>, workers := workers s @ [f]\<rparr>"
  have s1: "s0\<lparr>main_pc := SettingUp fs, timerEventWorkerChannel := c\<lparr>chan_buf := chan_buf c @ [f]\<rparr>, workers := workers s @ [f], retries := 0\<rparr> = s1"
    using Cons.prems(6) by (simp add: s0_def s1_def)
  have "service_run E s (replicate (misses E f) Retry) s0"
    using retries_run [of E f s fs "misses E f"] Cons.prems by (simp add: s0_def)
  moreover have "service_step E SetUp s0 s1"
    using Cons.prems s1 by (auto simp: service_step_simps set_up_def chan_send_def s0_def sets_up_def lookup_fails_iff)
  moreover have "service_run E s1 (set_up_labels E fs)
    (s1\<lparr>main_pc := SettingUp [], timerEventWorkerChannel := (c\<lparr>chan_buf := chan_buf c @ [f]\<rparr>)\<lparr>chan_buf := chan_buf c @ [f] @ fs\<rparr>, workers := workers s1 @ fs\<rparr>)"
    using Cons.IH [of "c\<lparr>chan_buf := chan_buf c @ [f]\<rparr>" s1] Cons.prems by (simp add: s1_def)
  ultimately have "service_run E s (replicate (misses E f) Retry @ SetUp # set_up_labels E fs)
    (s1\<lparr>main_pc := SettingUp [], timerEventWorkerChannel := (c\<lparr>chan_buf := chan_buf c @ [f]\<rparr>)\<lparr>chan_buf := chan_buf c @ [f] @ fs\<rparr>, workers := workers s1 @ fs\<rparr>)"
    by (intro service_run_append [OF _ service_Cons])
  then show ?case by (simp add: s1_def set_up_labels_def)
qed

lemma announces_run:
  assumes "\<not> chan_closed c" "length (chan_buf c) + length fs \<le> chan_cap c" "main_pc s = Announcing fs" "appSetup s = Some c"
  shows "service_run E s (replicate (length fs) Announce)
    (s\<lparr>main_pc := Announcing [], appSetup := Some (c\<lparr>chan_buf := chan_buf c @ fs\<rparr>)\<rparr>)"
  using assms
proof (induction fs arbitrary: c s)
  case Nil
  then show ?case by simp
next
  case (Cons f fs)
  define s1 where "s1 = s\<lparr>main_pc := Announcing fs, appSetup := Some (c\<lparr>chan_buf := chan_buf c @ [f]\<rparr>)\<rparr>"
  have "service_step E Announce s s1"
    using Cons.prems by (auto simp: service_step_simps chan_iffs s1_def)
  moreover have "service_run E s1 (replicate (length fs) Announce)
    (s1\<lparr>main_pc := Announcing [], appSetup := Some (c\<lparr>chan_buf := chan_buf c @ [f] @ fs\<rparr>)\<rparr>)"
    using Cons.IH [of "c\<lparr>chan_buf := chan_buf c @ [f]\<rparr>" s1] Cons.prems by (simp add: s1_def)
  ultimately show ?case by (auto simp: s1_def intro: service_Cons)
qed

text \<open>The state after the set-ups, with the timers started.\<close>

definition set_up_state :: "installation \<Rightarrow> service" where
  "set_up_state E = (service_init E)\<lparr>main_pc := Reading, timer_loop := True, workers := first_listing E,
     timerEventWorkerChannel := (make_chan setup_size)\<lparr>chan_buf := first_listing E\<rparr>\<rparr>"

lemma reach_reading:
  assumes "all_set_up E"
  shows "service_run E (service_init E) (set_up_labels E (first_listing E) @ [StartTimers]) (set_up_state E)"
proof -
  define s where "s = (service_init E)\<lparr>main_pc := SettingUp [], workers := first_listing E,
     timerEventWorkerChannel := (make_chan setup_size)\<lparr>chan_buf := first_listing E\<rparr>\<rparr>"
  have "service_run E (service_init E) (set_up_labels E (first_listing E)) s"
    using set_ups_run [of E "first_listing E" "make_chan setup_size" "service_init E"] assms
    by (simp add: all_set_up_def s_def service_init_def make_chan_def)
  moreover have "service_run E s [StartTimers] (set_up_state E)"
    by (simp add: service_run_Cons service_step_simps s_def set_up_state_def service_init_def)
  ultimately show ?thesis by (rule service_run_append)
qed

text \<open>
  The service can get to the loop that serves its applications exactly if the set-up of each comes to its end, which takes that both
  its buckets are found at some time and nothing panics, the directory can be read, and both readings give at most a hundred names. While a bucket
  is missing, \<open>main\<close> asks for it for ever. With one more, \<open>main\<close> waits for ever for room in a channel whose receiver it starts later.
\<close>

theorem service_starts_iff:
  "(\<exists>ls s. service_run E (service_init E) ls s \<and> main_pc s = Looping) \<longleftrightarrow>
     length (first_listing E) \<le> 100 \<and> list_all (sets_up E) (first_listing E) \<and>
     (\<exists>names. apps_dir E = Some names \<and> length names \<le> 100)"
proof
  assume "\<exists>ls s. service_run E (service_init E) ls s \<and> main_pc s = Looping"
  then obtain ls s where "service_run E (service_init E) ls s" "main_pc s = Looping" by blast
  then have "start_inv E s" "main_pc s = Looping" using service_run_inv start_inv_init by blast+
  then show "length (first_listing E) \<le> 100 \<and> list_all (sets_up E) (first_listing E) \<and>
     (\<exists>names. apps_dir E = Some names \<and> length names \<le> 100)"
    by (auto simp: start_inv_def all_set_up_def setup_size_def)
next
  assume a: "length (first_listing E) \<le> 100 \<and> list_all (sets_up E) (first_listing E) \<and>
     (\<exists>names. apps_dir E = Some names \<and> length names \<le> 100)"
  then obtain names where names: "apps_dir E = Some names" "length names \<le> setup_size" by (auto simp: setup_size_def)
  define s where "s = (set_up_state E)\<lparr>main_pc := Announcing names, appSetup := Some (make_chan setup_size)\<rparr>"
  have "service_run E (service_init E) (set_up_labels E (first_listing E) @ [StartTimers]) (set_up_state E)"
    using a by (intro reach_reading) (simp add: all_set_up_def setup_size_def)
  moreover have "service_run E (set_up_state E) [ReadApps] s"
    using names by (simp add: service_run_Cons service_step_simps s_def set_up_state_def read_apps_def)
  moreover obtain s1 where "service_run E s (replicate (length names) Announce) s1" "main_pc s1 = Announcing []"
    using announces_run [of "make_chan setup_size" names s E] names(2) by (simp add: s_def make_chan_def)
  moreover from this(2) have "service_run E s1 [Announced] (s1\<lparr>main_pc := Looping\<rparr>)"
    by (simp add: service_run_Cons service_step_simps)
  ultimately show "\<exists>ls s. service_run E (service_init E) ls s \<and> main_pc s = Looping"
    by (metis service_run_append service.select_convs(1) service.surjective service.update_convs(1))
qed

section \<open>A start without deployments\<close>

text \<open>The steps of the service itself, without requests.\<close>

definition quiet_labels :: "service_label set" where
  "quiet_labels = {Retry, SetUp, StartTimers, HttpUp, ReadApps, Announce, Announced, Recv, MailSetUp, TimerTake}"

definition to_set_up :: "service \<Rightarrow> string list" where
  "to_set_up s = (case main_pc s of SettingUp fs \<Rightarrow> fs | _ \<Rightarrow> [])"

definition announced :: "service \<Rightarrow> string list" where
  "announced s = (case appSetup s of None \<Rightarrow> [] | Some c \<Rightarrow> chan_buf c)"

definition to_serve :: "string list \<Rightarrow> service \<Rightarrow> string list" where
  "to_serve names s =
     (case main_pc s of
        SettingUp fs \<Rightarrow> names | Reading \<Rightarrow> names
      | Announcing fs \<Rightarrow> announced s @ fs | Serving f \<Rightarrow> f # announced s | _ \<Rightarrow> announced s)"

definition quiet_inv :: "installation \<Rightarrow> string list \<Rightarrow> service \<Rightarrow> bool" where
  "quiet_inv E names s \<longleftrightarrow>
     main_pc s \<noteq> Exited \<and> tableLock s = Free
   \<and> \<not> chan_closed (timerEventWorkerChannel s) \<and> chan_cap (timerEventWorkerChannel s) = setup_size
   \<and> (timer_loop s \<longleftrightarrow> (\<forall>fs. main_pc s \<noteq> SettingUp fs))
   \<and> (appSetup s = None \<longleftrightarrow> \<not> timer_loop s \<or> main_pc s = Reading)
   \<and> (\<forall>c. appSetup s = Some c \<longrightarrow> \<not> chan_closed c \<and> chan_cap c = setup_size)
   \<and> timers s @ chan_buf (timerEventWorkerChannel s) @ to_set_up s = first_listing E
   \<and> served s @ to_serve names s = names
   \<and> retries s \<le> (case to_set_up s of [] \<Rightarrow> 0 | f # fs \<Rightarrow> misses E f)"

text \<open>How many steps are left at most.\<close>

definition steps_left :: "installation \<Rightarrow> string list \<Rightarrow> service \<Rightarrow> nat" where
  "steps_left E names s =
     sum_list (map (misses E) (to_set_up s)) - retries s + length (chan_buf (timerEventWorkerChannel s)) + (if http_up s then 0 else 1) + 2 * length (announced s) +
     (case main_pc s of
        SettingUp fs \<Rightarrow> 2 * length fs + 3 * length names + 3 | Reading \<Rightarrow> 3 * length names + 2
      | Announcing fs \<Rightarrow> 3 * length fs + 1 | Serving f \<Rightarrow> 1 | _ \<Rightarrow> 0)"

lemmas quiet_defs = quiet_inv_def to_set_up_def to_serve_def announced_def

lemma queue_simps [simp]:
  "announced (s\<lparr>http_up := b\<rparr>) = announced s" "to_serve names (s\<lparr>http_up := b\<rparr>) = to_serve names s"
  "to_set_up (s\<lparr>http_up := b\<rparr>) = to_set_up s"
  "announced (s\<lparr>timerEventWorkerChannel := c, timers := xs\<rparr>) = announced s"
  "to_serve names (s\<lparr>timerEventWorkerChannel := c, timers := xs\<rparr>) = to_serve names s"
  "to_set_up (s\<lparr>timerEventWorkerChannel := c, timers := xs\<rparr>) = to_set_up s"
  by (simp_all add: announced_def to_serve_def to_set_up_def split: main_at.splits)

lemma next_set_up:
  assumes "quiet_inv E names s" "all_set_up E" "main_pc s = SettingUp (f # fs)"
  shows "sets_up E f \<and> length (chan_buf (timerEventWorkerChannel s)) < setup_size"
proof -
  have l: "first_listing E = timers s @ chan_buf (timerEventWorkerChannel s) @ f # fs"
    using assms by (simp add: quiet_inv_def to_set_up_def)
  then have "f \<in> set (first_listing E)" "length (chan_buf (timerEventWorkerChannel s)) < length (first_listing E)" by simp_all
  then show ?thesis using assms(2) by (auto simp: all_set_up_def list_all_iff)
qed

lemma quiet_step:
  assumes "service_step E l s s'" "l \<in> quiet_labels" "quiet_inv E names s"
    and "all_set_up E" "apps_dir E = Some names" "port_free E" "list_all (\<lambda>f. \<not> serve_panics E f) names"
  shows "quiet_inv E names s' \<and> steps_left E names s' < steps_left E names s"
  using assms
proof (cases rule: service_step.cases)
  case (step_set_up f fs)
  have "sets_up E f" using next_set_up [OF assms(3,4)] step_set_up by blast
  then show ?thesis
    using step_set_up assms(3)
    by (auto simp: quiet_defs steps_left_def set_up_def sets_up_def lookup_fails_iff chan_iffs split: chan_result.splits list.splits if_splits)
next
  case (step_retry f fs)
  have "sets_up E f" using next_set_up [OF assms(3,4)] step_retry by blast
  then have "retries s < misses E f" using step_retry by (simp add: sets_up_def lookup_fails_iff)
  then show ?thesis using step_retry assms(3) by (simp add: quiet_defs steps_left_def)
next
  case step_read
  then show ?thesis
    using assms(3,5) by (auto simp: quiet_defs steps_left_def read_apps_def make_chan_def)
next
  case step_http
  then show ?thesis using assms(3,6) by (simp add: quiet_inv_def steps_left_def http_server_def)
next
  case (step_mail f)
  have "f \<in> set names" using step_mail assms(3) by (auto simp: quiet_defs)
  then have "\<not> serve_panics E f" using assms(7) by (simp add: list_all_iff)
  then show ?thesis using step_mail assms(3) by (auto simp: quiet_defs steps_left_def serve_app_def)
next
  case step_timer
  then show ?thesis using assms(3) by (auto simp: quiet_inv_def steps_left_def chan_iffs)
qed (auto simp: quiet_defs steps_left_def quiet_labels_def chan_iffs)

lemma quiet_run:
  assumes "service_run E s ls s'" "set ls \<subseteq> quiet_labels" "quiet_inv E names s" "all_set_up E" "apps_dir E = Some names"
    "port_free E" "list_all (\<lambda>f. \<not> serve_panics E f) names"
  shows "quiet_inv E names s' \<and> length ls + steps_left E names s' \<le> steps_left E names s"
  using assms
proof (induction rule: service_run.induct)
  case (service_Cons l s s1 ls s')
  then show ?case using quiet_step [of E l s s1 names] by auto
qed simp

lemma quiet_progress:
  assumes inv: "quiet_inv E names s" and E: "all_set_up E" "apps_dir E = Some names" "length names \<le> setup_size"
    and pending: "to_set_up s \<noteq> [] \<or> to_serve names s \<noteq> [] \<or> chan_buf (timerEventWorkerChannel s) \<noteq> [] \<or> main_pc s \<noteq> Looping"
  shows "\<exists>l \<in> quiet_labels. \<exists>s'. service_step E l s s'"
proof (cases "main_pc s")
  case (SettingUp fs)
  show ?thesis
  proof (cases fs)
    case Nil
    then have "service_step E StartTimers s (s\<lparr>main_pc := Reading, timer_loop := True\<rparr>)" using SettingUp by (simp add: step_timers)
    then show ?thesis by (auto simp: quiet_labels_def)
  next
    case (Cons f fs')
    have f: "sets_up E f" "length (chan_buf (timerEventWorkerChannel s)) < setup_size"
      using next_set_up [OF inv E(1)] SettingUp Cons by blast+
    show ?thesis
    proof (cases "lookup_fails E f (retries s)")
      case True
      then have "service_step E Retry s (s\<lparr>retries := Suc (retries s)\<rparr>)"
        using SettingUp Cons f(1) by (intro step_retry) (simp_all add: sets_up_def)
      then show ?thesis by (auto simp: quiet_labels_def)
    next
      case False
      then have "\<exists>s'. set_up E f fs' s = Some s'" using inv f by (simp add: set_up_def chan_send_def quiet_inv_def)
      then have "\<exists>s'. service_step E SetUp s s'" using SettingUp Cons step_set_up by blast
      then show ?thesis by (auto simp: quiet_labels_def)
    qed
  qed
next
  case Reading
  then have "service_step E ReadApps s (read_apps E s)" by (rule step_read)
  then show ?thesis by (auto simp: quiet_labels_def)
next
  case (Announcing fs)
  obtain c where c: "appSetup s = Some c" "\<not> chan_closed c" "chan_cap c = setup_size"
    using inv Announcing by (auto simp: quiet_inv_def)
  show ?thesis
  proof (cases fs)
    case Nil
    then have "service_step E Announced s (s\<lparr>main_pc := Looping\<rparr>)" using Announcing by (simp add: step_announced)
    then show ?thesis by (auto simp: quiet_labels_def)
  next
    case (Cons f fs')
    have "served s @ chan_buf c @ f # fs' = names" using inv Announcing Cons c by (simp add: quiet_defs)
    then have "length (chan_buf c) < setup_size" using E(3) by auto
    then have "\<exists>c'. chan_send f c = Done c'" using c by (simp add: chan_send_def)
    then have "\<exists>s'. service_step E Announce s s'" using Announcing Cons c(1) step_announce by blast
    then show ?thesis by (auto simp: quiet_labels_def)
  qed
next
  case Looping
  then have "\<exists>c. appSetup s = Some c" "timer_loop s" using inv by (auto simp: quiet_inv_def)
  then obtain c where c: "appSetup s = Some c" "timer_loop s" by blast
  consider x xs where "chan_buf (timerEventWorkerChannel s) = x # xs" | x xs where "chan_buf c = x # xs"
    using pending Looping c by (cases "chan_buf (timerEventWorkerChannel s)"; cases "chan_buf c") (auto simp: quiet_defs)
  then show ?thesis
  proof cases
    case 1
    then have "\<exists>s'. service_step E TimerTake s s'" using Looping c(2) by (auto simp: service_step_simps chan_iffs)
    then show ?thesis by (auto simp: quiet_labels_def)
  next
    case 2
    then have "\<exists>s'. service_step E Recv s s'" using Looping c(1) by (auto simp: service_step_simps chan_iffs)
    then show ?thesis by (auto simp: quiet_labels_def)
  qed
next
  case (Serving f)
  then have "\<exists>s'. service_step E MailSetUp s s'" using inv by (auto simp: service_step_simps quiet_inv_def)
  then show ?thesis by (auto simp: quiet_labels_def)
next
  case Exited
  then show ?thesis using inv by (simp add: quiet_inv_def)
qed

lemma quiet_inv_init: "quiet_inv E names (service_init E)"
  by (simp add: quiet_defs service_init_def make_chan_def)

text \<open>
  C20. With at most a hundred applications, whose buckets are all found after finitely many lookups, with the port of the service free, and if
  no set-up panics or ends the process, the start goes through however the goroutines are scheduled: as long as no
  request arrives they make a bounded number of steps, the failed lookups among them, and when none can go on, \<open>main\<close> waits in its loop, the timer routine
  of every application was started and every application was set up for HTTP and mail, once and in the order of the directory.
\<close>

theorem service_start_completes:
  assumes "length (first_listing E) \<le> 100" "list_all (sets_up E) (first_listing E)"
    and "apps_dir E = Some names" "length names \<le> 100" "port_free E" "list_all (\<lambda>f. \<not> serve_panics E f) names"
    and "service_run E (service_init E) ls s" "set ls \<subseteq> quiet_labels"
  shows "length ls \<le> sum_list (map (misses E) (first_listing E)) + 2 * length (first_listing E) + 3 * length names + 4 \<and>
    ((\<nexists>l t. l \<in> quiet_labels \<and> service_step E l s t) \<longrightarrow>
       main_pc s = Looping \<and> timers s = first_listing E \<and> served s = names)"
proof -
  have E: "all_set_up E" "length names \<le> setup_size" using assms by (simp_all add: all_set_up_def setup_size_def)
  have run: "quiet_inv E names s" "length ls + steps_left E names s \<le> steps_left E names (service_init E)"
    using quiet_run [OF assms(7,8) quiet_inv_init E(1) assms(3,5,6)] by auto
  then have len: "length ls \<le> sum_list (map (misses E) (first_listing E)) + 2 * length (first_listing E) + 3 * length names + 4"
    by (simp add: steps_left_def to_set_up_def service_init_def announced_def make_chan_def)
  have "main_pc s = Looping \<and> timers s = first_listing E \<and> served s = names"
    if "\<nexists>l t. l \<in> quiet_labels \<and> service_step E l s t"
  proof -
    have "to_set_up s = []" "to_serve names s = []" "chan_buf (timerEventWorkerChannel s) = []" "main_pc s = Looping"
      using quiet_progress [OF run(1) E(1) assms(3) E(2)] that by blast+
    then show ?thesis using run(1) by (simp add: quiet_inv_def)
  qed
  then show ?thesis using len by blast
qed

text \<open>Two applications, of which the second sends mail and the metadata bucket of the first is missing at the first lookup.\<close>

definition ref_installation :: installation where
  "ref_installation = \<lparr>first_listing = [''app1'', ''app2''], apps_dir = Some [''app1'', ''app2''], has_mail = (\<lambda>f. f = ''app2''),
     config_panics = (\<lambda>f. False), meta_misses = (\<lambda>f. Some (if f = ''app1'' then 1 else 0)), src_misses = (\<lambda>f. Some 0),
     setup_panics = (\<lambda>f. False), serve_panics = (\<lambda>f. False), port_free = True\<rparr>"

lemma ref_installation [simp]:
  "first_listing ref_installation = [''app1'', ''app2'']" "apps_dir ref_installation = Some [''app1'', ''app2'']"
  "setup_panics ref_installation f = False" "has_mail ref_installation f = (f = ''app2'')" "config_panics ref_installation f = False"
  "serve_panics ref_installation f = False" "port_free ref_installation" "sets_up ref_installation f"
  "lookup_fails ref_installation f n = (f = ''app1'' \<and> n = 0)"
  by (auto simp: ref_installation_def sets_up_def buckets_found_def lookup_fails_def)

theorem service_start_completes_witness:
  "\<exists>s. service_run ref_installation (service_init ref_installation)
     [Retry, SetUp, SetUp, StartTimers, HttpUp, TimerTake, ReadApps, Announce, Announce, Announced, TimerTake, Recv, MailSetUp, Recv, MailSetUp] s \<and>
     timers s = [''app1'', ''app2''] \<and> served s = [''app1'', ''app2'']"
proof -
  let ?ls = "[Retry, SetUp, SetUp, StartTimers, HttpUp, TimerTake, ReadApps, Announce, Announce, Announced, TimerTake, Recv, MailSetUp, Recv, MailSetUp]"
  obtain s where s: "service_run ref_installation (service_init ref_installation) ?ls s" "main_pc s = Looping" "http_up s"
    "chan_buf (timerEventWorkerChannel s) = []" "\<forall>c. appSetup s = Some c \<longrightarrow> chan_buf c = []"
    by (simp add: service_run_Cons service_step_simps service_init_def set_up_def http_server_def serve_app_def read_apps_def make_chan_def chan_send_def chan_recv_def setup_size_def)
  have "set ?ls \<subseteq> quiet_labels" by (simp add: quiet_labels_def)
  moreover have "\<nexists>l t. l \<in> quiet_labels \<and> service_step ref_installation l s t"
    using s(2-5) by (auto simp: quiet_labels_def service_step_simps chan_iffs)
  ultimately have "timers s = first_listing ref_installation \<and> served s = [''app1'', ''app2'']"
    using service_start_completes [OF _ _ ref_installation(2) _ _ _ s(1)] by simp
  then show ?thesis using s(1) by auto
qed

section \<open>A deployment that comes too early\<close>

text \<open>A request waits on the nil channel, with the lock.\<close>

definition locked_out :: "service \<Rightarrow> bool" where
  "locked_out s \<longleftrightarrow> tableLock s = Stuck \<and> (\<forall>fs. main_pc s \<noteq> SettingUp fs)"

lemma locked_out_step:
  assumes "service_step E l s s'" "locked_out s"
  shows "locked_out s' \<and> l \<notin> range StoreLock \<and> workers s' = workers s \<and> filter (has_mail E) (served s') = filter (has_mail E) (served s)"
  using assms by (cases rule: service_step.cases) (auto simp: locked_out_def read_apps_def http_server_def serve_app_def load_app_def split: option.splits if_splits)

lemma locked_out_run:
  "service_run E s ls s' \<Longrightarrow> locked_out s \<Longrightarrow>
     set ls \<inter> range StoreLock = {} \<and> workers s' = workers s \<and> filter (has_mail E) (served s') = filter (has_mail E) (served s)"
proof (induction rule: service_run.induct)
  case (service_Cons l s s1 ls s')
  then show ?case using locked_out_step [OF service_Cons.hyps(1)] by auto
qed simp

text \<open>
  If its port is free, the HTTP server answers before \<open>appSetup\<close> is made: a deployment in between sends on a nil channel with \<open>tableLock\<close>
  held. From then on, in every interleaving, no deployment is taken, no application is loaded, and
  no application with settings for mail is served, also of those in the directory.
\<close>

theorem early_deployment_locks_out:
  assumes "length (first_listing E) \<le> 100" "list_all (sets_up E) (first_listing E)" "port_free E"
  shows "\<exists>ls s. service_run E (service_init E) (ls @ [HttpUp, StoreLock f, StoreSend]) s \<and>
    (\<forall>ls' s'. service_run E s ls' s' \<longrightarrow>
       set ls' \<inter> range StoreLock = {} \<and> workers s' = first_listing E \<and> filter (has_mail E) (served s') = [])"
proof -
  have r: "service_run E (service_init E) (set_up_labels E (first_listing E) @ [StartTimers]) (set_up_state E)"
    using assms by (intro reach_reading) (simp add: all_set_up_def setup_size_def)
  obtain s where s: "service_run E (set_up_state E) [HttpUp, StoreLock f, StoreSend] s" "locked_out s"
    "workers s = first_listing E" "served s = []"
    using assms(3)
    by (simp add: service_run_Cons service_step_simps set_up_state_def service_init_def http_server_def store_lock_def store_send_def locked_out_def)
  have "set ls' \<inter> range StoreLock = {} \<and> workers s' = first_listing E \<and> filter (has_mail E) (served s') = []"
    if "service_run E s ls' s'" for ls' s'
    using locked_out_run [OF that s(2)] s(3,4) by simp
  then show ?thesis using service_run_append [OF r s(1)] by blast
qed

theorem early_deployment_locks_out_witness:
  "\<exists>ls s. service_run ref_installation (service_init ref_installation) (ls @ [HttpUp, StoreLock ''app3'', StoreSend]) s \<and>
     workers s = [''app1'', ''app2''] \<and> \<not> (\<exists>t. service_step ref_installation (StoreLock ''app1'') s t)"
proof -
  obtain ls s where s: "service_run ref_installation (service_init ref_installation) (ls @ [HttpUp, StoreLock ''app3'', StoreSend]) s"
    and all: "\<And>ls' s'. service_run ref_installation s ls' s' \<Longrightarrow>
       set ls' \<inter> range StoreLock = {} \<and> workers s' = first_listing ref_installation"
    using early_deployment_locks_out [of ref_installation "''app3''"] by auto
  have "\<not> service_step ref_installation (StoreLock ''app1'') s t" for t
    using all [of "[StoreLock ''app1'']" t] by (auto simp: service_run_Cons)
  then show ?thesis using s all [OF service_Nil] by auto
qed

end
