(* ===== verification/JsonPrint.thy ===== *)
theory JsonPrint
  imports GoJson
begin

text \<open>
  \<open>json.Marshal\<close> and \<open>json.Unmarshal\<close> of the Go library for values of any shape, as the files of the applications have
  them (src/go_eventing/http_handlers.go): maps, slices, strings, numbers, booleans and nil. The lemmas show that the grammar of the
  theory GoJson reads back every value that is written.
\<close>

section \<open>Writing\<close>

fun commas :: "string list \<Rightarrow> string" where
  "commas [] = []"
| "commas [x] = x"
| "commas (x # y # xs) = x @ '','' @ commas (y # xs)"

text \<open>A number is written as the text it carries. The members of an object are in the order of the list, which for a map is the order of its keys.\<close>

fun marshal_value :: "json \<Rightarrow> string" where
  "marshal_value JNull = ''null''"
| "marshal_value (JBool b) = (if b then ''true'' else ''false'')"
| "marshal_value (JInt i) = dec_of_int i"
| "marshal_value (JReal t) = t"
| "marshal_value (JStr s) = marshal_string s"
| "marshal_value (JArr xs) = ''['' @ commas (map marshal_value xs) @ '']''"
| "marshal_value (JObj ms) = ''{'' @ commas (map (\<lambda>(k, v). marshal_string k @ '':'' @ marshal_value v) ms) @ ''}''"

text \<open>The text of a number in the grammar.\<close>

definition number_text :: "string \<Rightarrow> bool" where
  "number_text t \<longleftrightarrow> json_number t = Some (JReal t, [])"

fun printable :: "json \<Rightarrow> bool" where
  "printable (JInt i) = False"
| "printable (JReal t) = number_text t"
| "printable (JStr s) = valid_utf8 s"
| "printable (JArr xs) = list_all printable xs"
| "printable (JObj ms) = list_all (\<lambda>(k, v). valid_utf8 k \<and> printable v) ms"
| "printable _ = True"

section \<open>Numbers\<close>

text \<open>What can follow a value.\<close>

definition delimited :: "string \<Rightarrow> bool" where
  "delimited r \<longleftrightarrow> (case r of [] \<Rightarrow> True | c # _ \<Rightarrow> c \<in> {CHR '','', CHR ''}'', CHR '']'', CHR 0x0A})"

lemma delimited_simps [simp]: "delimited []" "delimited (CHR '','' # r)" "delimited (CHR ''}'' # r)" "delimited (CHR '']'' # r)"
  "delimited (CHR 0x0A # r)"
  by (simp_all add: delimited_def)

lemma delimited_hd:
  assumes "delimited (c # r)"
  shows "\<not> is_digit c" "c \<noteq> CHR ''.''" "c \<noteq> CHR ''e''" "c \<noteq> CHR ''E''" "c \<noteq> CHR ''-''" "c \<noteq> CHR ''0''"
  using assms by (auto simp: delimited_def is_digit_def digit_chars_def)

lemma takeWhile_digits: "delimited r \<Longrightarrow> takeWhile is_digit (s @ r) = takeWhile is_digit s"
proof -
  assume "delimited r"
  then have "takeWhile is_digit r = []" by (cases r) (simp_all add: delimited_hd)
  then show ?thesis using takeWhile_eq_all_conv [of is_digit s] takeWhile_append [of is_digit s r] by (metis append_Nil2)
qed

lemma digits_of_delimited: "digits_of s = Some (d, u) \<Longrightarrow> delimited r \<Longrightarrow> digits_of (s @ r) = Some (d, u @ r)"
  using length_takeWhile_le [of is_digit s] by (auto simp: digits_of_def Let_def takeWhile_digits split: if_splits)

lemma expect_delimited:
  assumes "delimited r" "c \<in> {CHR ''.'', CHR ''-'', CHR ''0''}"
  shows "expect_char c (s @ r) = map_option (\<lambda>t. t @ r) (expect_char c s)"
  using assms by (cases s; cases r) (auto dest: delimited_hd)

lemma number_parts_delimited:
  assumes "delimited r"
  shows "sign_part (s @ r) = (fst (sign_part s), snd (sign_part s) @ r)"
    and "integer_part s = Some (d, u) \<Longrightarrow> integer_part (s @ r) = Some (d, u @ r)"
    and "fraction_part s = Some (d, u) \<Longrightarrow> fraction_part (s @ r) = Some (d, u @ r)"
proof -
  show "sign_part (s @ r) = (fst (sign_part s), snd (sign_part s) @ r)"
    by (simp add: sign_part_def expect_delimited [OF assms] split: option.split)
  show "integer_part (s @ r) = Some (d, u @ r)" if "integer_part s = Some (d, u)"
    using that digits_of_delimited [OF _ assms] by (auto simp: integer_part_def expect_delimited [OF assms] split: option.splits)
  show "fraction_part (s @ r) = Some (d, u @ r)" if "fraction_part s = Some (d, u)"
    using that digits_of_delimited [OF _ assms] by (auto simp: fraction_part_def expect_delimited [OF assms] split: option.splits)
qed

lemma exponent_delimited:
  assumes "delimited r" "exponent_part s = Some (d, u)"
  shows "exponent_part (s @ r) = Some (d, u @ r)"
proof (cases s)
  case Nil
  then show ?thesis using assms by (cases r) (auto simp: exponent_part_def delimited_hd)
next
  case (Cons e t)
  have "digits_of (c # w @ r) = Some (x, u @ r)" if "digits_of (c # w) = Some (x, u)" for c w x
    using digits_of_delimited [OF that assms(1)] by simp
  then show ?thesis
    using Cons assms digits_of_delimited [OF _ assms(1)]
    by (cases t) (auto simp: exponent_part_def split: if_splits)
qed

lemma json_number_delimited:
  assumes "json_number s = Some (v, u)" "delimited r"
  shows "json_number (s @ r) = Some (v, u @ r)"
proof -
  obtain i s1 f s2 e where p: "integer_part (snd (sign_part s)) = Some (i, s1)" "fraction_part s1 = Some (f, s2)"
    "exponent_part s2 = Some (e, u)" "v = JReal (fst (sign_part s) @ i @ f @ e)"
    using assms(1) by (auto simp: json_number_def bind_eq_Some_conv)
  then show ?thesis
    by (simp add: json_number_def number_parts_delimited [OF assms(2)] exponent_delimited [OF assms(2)])
qed

lemma number_text_start:
  assumes "number_text t"
  obtains c u where "t = c # u" "is_digit c \<or> c = CHR ''-''"
proof (cases t)
  case Nil
  then show thesis using assms
    by (simp add: number_text_def json_number_def sign_part_def integer_part_def digits_of_def Let_def)
next
  case (Cons c u)
  have "is_digit c \<or> c = CHR ''-''"
  proof (rule ccontr)
    assume "\<not> (is_digit c \<or> c = CHR ''-'')"
    then have "integer_part t = None" "sign_part t = ([], t)"
      by (auto simp: Cons sign_part_def integer_part_def digits_of_def is_digit_def digit_chars_def)
    then show False using assms by (simp add: number_text_def json_number_def)
  qed
  then show thesis using that Cons by blast
qed

section \<open>Reading back\<close>

lemma marshal_value_start:
  assumes "printable v"
  obtains c u where "marshal_value v = c # u" "c \<notin> {CHR '' '', CHR 0x09, CHR 0x0A, CHR 0x0D, CHR '']'', CHR ''}'', CHR '',''}"
proof (cases v)
  case (JReal t)
  then obtain c u where "t = c # u" "is_digit c \<or> c = CHR ''-''" using assms number_text_start by auto
  then show thesis using that [of c u] JReal by (auto simp: is_digit_def digit_chars_def)
next
  case (JBool b)
  then show thesis using that by (cases b) auto
qed (use assms that in \<open>auto simp: marshal_string_def\<close>)

lemma json_value_real:
  assumes "number_text t" "delimited r"
  shows "json_value (Suc n) (t @ r) = Some (JReal t, r)"
proof -
  obtain c u where c: "t = c # u" "is_digit c \<or> c = CHR ''-''" using number_text_start [OF assms(1)] .
  then have "c \<notin> {CHR '' '', CHR 0x09, CHR 0x0A, CHR 0x0D, CHR ''\"'', CHR ''{'', CHR ''['', CHR ''t'', CHR ''f'', CHR ''n''}"
    by (auto simp: is_digit_def digit_chars_def)
  moreover have "json_number (c # u @ r) = Some (JReal t, r)"
    using json_number_delimited [OF _ assms(2), of t "JReal t" "[]"] assms(1) c by (simp add: number_text_def)
  ultimately show ?thesis using c by simp
qed

text \<open>Every value is read back, whatever delimits it, by fuel above twice the length of the text.\<close>

definition reads_back :: "json \<Rightarrow> bool" where
  "reads_back v \<longleftrightarrow> (\<forall>n r. delimited r \<longrightarrow> 2 * length (marshal_value v @ r) < n \<longrightarrow> json_value n (marshal_value v @ r) = Some (v, r))"

lemma items_read_back:
  assumes "xs \<noteq> []" "\<forall>x \<in> set xs. reads_back x" "2 * length (commas (map marshal_value xs) @ CHR '']'' # r) + 1 < n"
  shows "json_items n (commas (map marshal_value xs) @ CHR '']'' # r) = Some (xs, r)"
  using assms
proof (induction xs arbitrary: n rule: induct_list012)
  case (2 x)
  then obtain k where n: "n = Suc k" by (cases n) auto
  have "json_value k (marshal_value x @ CHR '']'' # r) = Some (x, CHR '']'' # r)" using 2 n by (simp add: reads_back_def)
  then show ?case by (simp add: n)
next
  case (3 x y xs)
  then obtain k where n: "n = Suc k" by (cases n) auto
  let ?rest = "commas (map marshal_value (y # xs)) @ CHR '']'' # r"
  have "json_value k (marshal_value x @ CHR '','' # ?rest) = Some (x, CHR '','' # ?rest)" using 3 n by (simp add: reads_back_def)
  moreover have "json_items k ?rest = Some (y # xs, r)" using 3 n by simp
  ultimately show ?case by (simp add: n)
qed simp

abbreviation marshal_member :: "string \<times> json \<Rightarrow> string" where
  "marshal_member m \<equiv> (case m of (k, v) \<Rightarrow> marshal_string k @ '':'' @ marshal_value v)"

lemma members_read_back:
  assumes "ms \<noteq> []" "\<forall>(k, v) \<in> set ms. valid_utf8 k \<and> reads_back v"
    "2 * length (commas (map marshal_member ms) @ CHR ''}'' # r) + 1 < n"
  shows "json_members n (commas (map marshal_member ms) @ CHR ''}'' # r) = Some (ms, r)"
  using assms
proof (induction ms arbitrary: n rule: induct_list012)
  case (2 x)
  obtain k v where kv: "x = (k, v)" by (cases x)
  obtain j where n: "n = Suc j" using 2 by (cases n) auto
  have "json_value j (marshal_value v @ CHR ''}'' # r) = Some (v, CHR ''}'' # r)" using 2 n by (simp add: reads_back_def kv marshal_string_def)
  then show ?case using 2 by (simp add: n kv marshal_string_def unquote_quote_body)
next
  case (3 x y ms)
  obtain k v where kv: "x = (k, v)" by (cases x)
  obtain j where n: "n = Suc j" using 3 by (cases n) auto
  let ?rest = "commas (map marshal_member (y # ms)) @ CHR ''}'' # r"
  have "json_value j (marshal_value v @ CHR '','' # ?rest) = Some (v, CHR '','' # ?rest)"
    using 3 n by (simp add: reads_back_def kv marshal_string_def)
  moreover have "json_members j ?rest = Some (y # ms, r)" using 3 n by (simp add: kv marshal_string_def)
  ultimately show ?case using 3 by (simp add: n kv marshal_string_def unquote_quote_body)
qed simp

lemma commas_start: "xs \<noteq> [] \<Longrightarrow> hd xs = c # u \<Longrightarrow> \<exists>w. commas xs = c # w"
  by (cases xs rule: commas.cases) auto

lemma printable_reads_back: "printable v \<Longrightarrow> reads_back v"
proof (induction v)
  case (JArr xs)
  have ok: "\<forall>x \<in> set xs. reads_back x" using JArr by (auto simp: list_all_iff)
  show ?case
    unfolding reads_back_def
  proof (intro allI impI)
    fix n r assume r: "delimited r" and n: "2 * length (marshal_value (JArr xs) @ r) < n"
    then obtain k where k: "n = Suc k" by (cases n) auto
    show "json_value n (marshal_value (JArr xs) @ r) = Some (JArr xs, r)"
    proof (cases "xs = []")
      case True
      then show ?thesis by (simp add: k)
    next
      case False
      then have "printable (hd xs)" using JArr.prems by (cases xs) auto
      then obtain c u where c: "marshal_value (hd xs) = c # u" "c \<notin> {CHR '' '', CHR 0x09, CHR 0x0A, CHR 0x0D, CHR '']'', CHR ''}'', CHR '',''}"
        using marshal_value_start [of "hd xs"] by blast
      then obtain w where w: "commas (map marshal_value xs) = c # w"
        using commas_start [of "map marshal_value xs" c u] False by (auto simp: hd_map)
      have "json_items k (commas (map marshal_value xs) @ CHR '']'' # r) = Some (xs, r)"
        using items_read_back [OF False ok] n k by simp
      then show ?thesis using w c by (simp add: k)
    qed
  qed
next
  case (JObj ms)
  have ok: "\<forall>(k, v) \<in> set ms. valid_utf8 k \<and> reads_back v" using JObj by (fastforce simp: list_all_iff)
  show ?case
    unfolding reads_back_def
  proof (intro allI impI)
    fix n r assume r: "delimited r" and n: "2 * length (marshal_value (JObj ms) @ r) < n"
    then obtain k where k: "n = Suc k" by (cases n) auto
    show "json_value n (marshal_value (JObj ms) @ r) = Some (JObj ms, r)"
    proof (cases "ms = []")
      case True
      then show ?thesis by (simp add: k)
    next
      case False
      obtain a b where "hd ms = (a, b)" by (cases "hd ms")
      then have "hd (map marshal_member ms) = CHR ''\"'' # (quote_body a @ ''\":'' @ marshal_value b)"
        using False by (simp add: hd_map marshal_string_def)
      then obtain w where w: "commas (map marshal_member ms) = CHR ''\"'' # w"
        using commas_start [of "map marshal_member ms"] False by blast
      have "json_members k (commas (map marshal_member ms) @ CHR ''}'' # r) = Some (ms, r)"
        using members_read_back [OF False ok] n k by simp
      then show ?thesis using w by (simp add: k)
    qed
  qed
next
  case (JReal t)
  then show ?case using json_value_real [of t] unfolding reads_back_def
    by (metis gr0_implies_Suc less_nat_zero_code marshal_value.simps(4) not_gr_zero printable.simps(2))
next
  case (JStr s)
  then show ?case using json_value_string [of _ s] unfolding reads_back_def
    by (metis gr0_implies_Suc less_nat_zero_code marshal_value.simps(5) not_gr_zero printable.simps(3) to_utf8_valid)
next
  case (JBool b)
  have "json_value (Suc n) (marshal_value (JBool b) @ r) = Some (JBool b, r)" for n r by (cases b) (simp_all add: json_word_def)
  then show ?case unfolding reads_back_def by (metis gr0_implies_Suc less_nat_zero_code not_gr_zero)
next
  case JNull
  have "json_value (Suc n) (marshal_value JNull @ r) = Some (JNull, r)" for n r by (simp add: json_word_def)
  then show ?case unfolding reads_back_def by (metis gr0_implies_Suc less_nat_zero_code not_gr_zero)
qed simp

text \<open>What is written as JSON is read as it was, also with a newline at its end.\<close>

lemma json_text_marshal_value:
  assumes "printable v" "r = [] \<or> r = [CHR 0x0A]"
  shows "json_text (marshal_value v @ r) = Some v"
proof -
  have "delimited r" "skip_ws r = []" using assms(2) by (auto simp: skip_ws_def)
  moreover have "json_value (2 * length (marshal_value v @ r) + 2) (marshal_value v @ r) = Some (v, r)"
    using printable_reads_back [OF assms(1)] \<open>delimited r\<close> unfolding reads_back_def by (simp del: json_value.simps)
  ultimately show ?thesis by (simp add: json_text_def)
qed

section \<open>Values of any type\<close>

text \<open>
  Decoding into an \<open>interface{}\<close>: an object becomes a map, in which the last member of a name counts, and a number a \<open>float64\<close>. \<open>ParseFloat\<close>
  gives the text in which \<open>json.Marshal\<close> writes the nearest \<open>float64\<close> of a number, \<open>None\<close> if it is out of range, which is
  an error and leaves nil. The result has the value and whether there was an error.
\<close>

definition make_map :: "(string \<times> json \<times> bool) list \<Rightarrow> (string, json) std_map" where
  "make_map ms = std_map.assign_all (map (\<lambda>(k, v, e). (k, v)) ms) []"

fun go_any :: "(string \<Rightarrow> string option) \<Rightarrow> json \<Rightarrow> json \<times> bool" where
  "go_any ParseFloat (JReal t) = (case ParseFloat t of Some u \<Rightarrow> (JReal u, False) | None \<Rightarrow> (JNull, True))"
| "go_any ParseFloat (JArr xs) = (let ys = map (go_any ParseFloat) xs in (JArr (map fst ys), list_ex snd ys))"
| "go_any ParseFloat (JObj ms) =
     (let ys = map (\<lambda>(k, v). (k, go_any ParseFloat v)) ms in (JObj (make_map ys), list_ex (\<lambda>(k, v, e). e) ys))"
| "go_any ParseFloat v = (v, False)"

text \<open>The documented behaviour: what is written is a number of the grammar and stands for the same \<open>float64\<close>.\<close>

definition float_laws :: "(string \<Rightarrow> string option) \<Rightarrow> bool" where
  "float_laws ParseFloat \<longleftrightarrow> (\<forall>t u. ParseFloat t = Some u \<longrightarrow> number_text u \<and> ParseFloat u = Some u)"

text \<open>Values as Go holds them: maps have one member to a name, in order, and numbers are texts of a \<open>float64\<close>.\<close>

fun go_value :: "(string \<Rightarrow> string option) \<Rightarrow> json \<Rightarrow> bool" where
  "go_value ParseFloat (JReal t) = (ParseFloat t = Some t)"
| "go_value ParseFloat (JInt i) = False"
| "go_value ParseFloat (JArr xs) = list_all (go_value ParseFloat) xs"
| "go_value ParseFloat (JObj ms) = (map_invar ms \<and> list_all (\<lambda>(k, v). go_value ParseFloat v) ms)"
| "go_value ParseFloat v = True"

fun utf8_value :: "json \<Rightarrow> bool" where
  "utf8_value (JStr s) = valid_utf8 s"
| "utf8_value (JArr xs) = list_all utf8_value xs"
| "utf8_value (JObj ms) = list_all (\<lambda>(k, v). valid_utf8 k \<and> utf8_value v) ms"
| "utf8_value v = True"

lemma assign_all_sorted: "map_invar ms \<Longrightarrow> std_map.assign_all ms [] = ms"
proof -
  assume ms: "map_invar ms"
  have "distinct (map fst ms)" using ms by (rule map_invar_distinct)
  then have "map_of (rev ms) = map_of ms" by (subst map_of_inject_set) (simp_all add: rev_map [symmetric])
  then show ?thesis
    using std_map.entries_eqI [of "std_map.assign_all ms []" ms] std_map.invar_assign_all [of "[]" ms] std_map.lookup_assign_all [of "[]" ms] ms
    by simp
qed

lemma go_value_printable: "float_laws pf \<Longrightarrow> go_value pf v \<Longrightarrow> utf8_value v \<Longrightarrow> printable v"
proof (induction v)
  case (JObj ms)
  have "printable v" if "(k, v) \<in> set ms" for k v
    using JObj.IH [OF that, of v] JObj.prems that by (auto simp: list_all_iff)
  then show ?case using JObj.prems by (auto simp: list_all_iff)
qed (auto simp: float_laws_def list_all_iff)

text \<open>A value that Go holds is decoded to itself, and what is decoded without error is such a value.\<close>

lemma go_any_value: "go_value pf v \<Longrightarrow> go_any pf v = (v, False)"
proof (induction v)
  case (JArr xs)
  then have eq: "map (go_any pf) xs = map (\<lambda>x. (x, False)) xs" by (auto simp: list_all_iff)
  show ?case unfolding go_any.simps eq Let_def by (simp add: comp_def list_ex_iff)
next
  case (JObj ms)
  then have eq: "map (\<lambda>(k, v). (k, go_any pf v)) ms = map (\<lambda>(k, v). (k, v, False)) ms"
    by (intro map_cong refl) (auto simp: list_all_iff)
  have "make_map (map (\<lambda>(k, v). (k, v, False)) ms) = ms"
    using JObj assign_all_sorted [of ms] by (simp add: make_map_def comp_def case_prod_beta')
  then show ?case unfolding go_any.simps eq Let_def by (auto simp: list_ex_iff)
qed simp_all

lemma make_map_values: "(k, v) \<in> set (make_map ms) \<Longrightarrow> \<exists>e. (k, v, e) \<in> set ms"
proof -
  assume kv: "(k, v) \<in> set (make_map ms)"
  let ?ms = "map (\<lambda>(k, v, e). (k, v)) ms"
  have "map_of (std_map.assign_all ?ms []) k = Some v"
    using kv std_map.entries_iff [of "std_map.assign_all ?ms []" k v] std_map.invar_assign_all [of "[]" ?ms] by (simp add: make_map_def)
  then have "map_of (rev ?ms) k = Some v" using std_map.lookup_assign_all [of "[]" ?ms] by simp
  then have "(k, v) \<in> set ?ms" using map_of_SomeD by fastforce
  then show ?thesis by auto
qed

lemma make_map_invar [simp]: "map_invar (make_map ms)"
  by (simp add: make_map_def std_map.invar_assign_all)

text \<open>What the grammar makes of a text has no \<open>JInt\<close>.\<close>

fun parsed :: "json \<Rightarrow> bool" where
  "parsed (JInt i) = False"
| "parsed (JArr xs) = list_all parsed xs"
| "parsed (JObj ms) = list_all (\<lambda>(k, v). parsed v) ms"
| "parsed v = True"

lemma go_any_go_value: "float_laws pf \<Longrightarrow> parsed v \<Longrightarrow> go_value pf (fst (go_any pf v))"
proof (induction v)
  case (JReal t)
  then show ?case by (auto simp: float_laws_def split: option.split)
next
  case (JArr xs)
  then show ?case by (auto simp: list_all_iff Let_def)
next
  case (JObj ms)
  have "go_value pf w" if kw: "(k, w) \<in> set (make_map (map (\<lambda>(k, v). (k, go_any pf v)) ms))" for k w
  proof -
    obtain e where "(k, w, e) \<in> set (map (\<lambda>(k, v). (k, go_any pf v)) ms)" using make_map_values [OF kw] by blast
    then obtain v where v: "(k, v) \<in> set ms" "go_any pf v = (w, e)" by auto
    have "parsed v" using v(1) JObj.prems by (auto simp: list_all_iff)
    then show ?thesis using JObj.IH [OF v(1), of v] JObj.prems(1) v(2) by simp
  qed
  then show ?case by (auto simp: list_all_iff Let_def)
qed simp_all

end
