(* ===== verification/JsonUtf8.thy ===== *)
theory JsonUtf8
  imports JsonPrint
begin

text \<open>
  The strings that the grammar of the theory GoJson reads are well-formed UTF-8, whatever the bytes of the text, since bytes
  outside a sequence and lone surrogates are replaced. So a value that was read can be written and read again.
\<close>

section \<open>Characters\<close>

lemma valid_sequence:
  assumes "(a, b, c, d, n) \<in> set utf8_table" "utf8_matches s (a, b, c, d, n)" "n = length s"
  shows "valid_utf8 s"
proof -
  have "0 < n" using assms(1) by (auto simp: utf8_table_def)
  then obtain x t where s: "s = x # t" using assms(3) by (cases s) auto
  have "\<not> of_char x < (128::nat)" using assms(1,2) by (auto simp: utf8_matches_def utf8_table_def in_range_def s)
  moreover have "utf8_sequence s = n" using utf8_sequence_unique assms(1,2) by blast
  ultimately show ?thesis using assms(3) \<open>0 < n\<close> by (simp add: s valid_utf8.simps)
qed

lemma in_range_char [simp]: "n < 256 \<Longrightarrow> in_range lo hi (char_of n) \<longleftrightarrow> lo \<le> n \<and> n \<le> hi"
  by (simp add: in_range_def)

lemma list_all_upt_two [simp]: "list_all P [2..<2]" "list_all P [2..<3] = P 2" "list_all P [2..<4] = (P 2 \<and> P 3)"
  by (simp_all add: upt_rec numeral_eq_Suc)

lemma valid_two: "0xC2 \<le> (a :: nat) \<Longrightarrow> a \<le> 0xDF \<Longrightarrow> 0x80 \<le> b \<Longrightarrow> b \<le> 0xBF \<Longrightarrow> valid_utf8 (map char_of [a, b])"
  by (rule valid_sequence [of "0xC2" "0xDF" "0x80" "0xBF" 2]) (simp_all add: utf8_table_def utf8_matches_def)

lemma valid_three:
  assumes "(lo, hi, lo1, hi1, 3) \<in> set utf8_table" "lo \<le> a" "a \<le> hi" "lo1 \<le> b" "b \<le> hi1" "0x80 \<le> c" "c \<le> 0xBF"
  shows "valid_utf8 (map char_of [a, b, c])"
proof (rule valid_sequence [OF assms(1)])
  have "hi < 256" "hi1 < 256" using assms(1) by (auto simp: utf8_table_def)
  then show "utf8_matches (map char_of [a, b, c]) (lo, hi, lo1, hi1, 3)" using assms by (simp add: utf8_matches_def)
qed simp

lemma valid_four:
  assumes "(lo, hi, lo1, hi1, 4) \<in> set utf8_table" "lo \<le> a" "a \<le> hi" "lo1 \<le> b" "b \<le> hi1" "0x80 \<le> c" "c \<le> 0xBF" "0x80 \<le> d" "d \<le> 0xBF"
  shows "valid_utf8 (map char_of [a, b, c, d])"
proof (rule valid_sequence [OF assms(1)])
  have "hi < 256" "hi1 < 256" using assms(1) by (auto simp: utf8_table_def)
  then show "utf8_matches (map char_of [a, b, c, d]) (lo, hi, lo1, hi1, 4)" using assms by (simp add: utf8_matches_def)
qed simp

lemma div_between:
  assumes "a * 64 \<le> h" "h < b * (64::nat)"
  shows "a \<le> h div 64" "h div 64 < b"
  using assms by (simp_all add: less_eq_div_iff_mult_less_eq div_less_iff_less_mult)

lemma mod_of_div: "h div 64 = q \<Longrightarrow> h mod (64::nat) = h - q * 64"
  by (metis minus_div_mult_eq_mod)

lemma valid_three_unit:
  fixes u :: nat
  assumes "0x800 \<le> u" "u < 0x10000" "u < 0xD800 \<or> 0xDFFF < u"
  shows "valid_utf8 (map char_of [0xE0 + u div 4096, 0x80 + u div 64 mod 64, 0x80 + u mod 64])"
proof -
  define h where "h = u div 64"
  have h: "u div 4096 = h div 64" "32 \<le> h" "h < 1024" "h < 864 \<or> 896 \<le> h" using assms by (auto simp: h_def div_mult2_eq [symmetric])
  have low: "0x80 \<le> 0x80 + u mod 64" "0x80 + u mod 64 \<le> (0xBF::nat)" by (simp_all add: less_Suc_eq_le [symmetric])
  consider "h < 64" | "64 \<le> h" "h < 832" | "832 \<le> h" "h < 864" | "896 \<le> h" using h by linarith
  then show ?thesis
  proof cases
    case 1
    then show ?thesis unfolding h(1) h_def [symmetric]
      using h by (intro valid_three [of "0xE0" "0xE0" "0xA0" "0xBF"] low) (simp_all add: utf8_table_def)
  next
    case 2
    then have "h div 64 \<le> 12" "1 \<le> h div 64" using div_between [of 1 h 13] by simp_all
    then show ?thesis unfolding h(1) h_def [symmetric]
      by (intro valid_three [of "0xE1" "0xEC" "0x80" "0xBF"] low) (simp_all add: utf8_table_def less_Suc_eq_le [symmetric])
  next
    case 3
    then have "h div 64 = 13" using div_between [of 13 h 14] by simp
    moreover from this have "h mod 64 < 32" using 3 mod_of_div [of h 13] by simp
    ultimately show ?thesis unfolding h(1) h_def [symmetric]
      by (intro valid_three [of "0xED" "0xED" "0x80" "0x9F"] low) (simp_all add: utf8_table_def)
  next
    case 4
    then have "14 \<le> h div 64" "h div 64 \<le> 15" using h(3) div_between [of 14 h 16] by simp_all
    then show ?thesis unfolding h(1) h_def [symmetric]
      by (intro valid_three [of "0xEE" "0xEF" "0x80" "0xBF"] low) (simp_all add: utf8_table_def less_Suc_eq_le [symmetric])
  qed
qed

lemma valid_four_unit:
  fixes u :: nat
  assumes "0x10000 \<le> u" "u < 0x110000"
  shows "valid_utf8 (map char_of [0xF0 + u div 262144, 0x80 + u div 4096 mod 64, 0x80 + u div 64 mod 64, 0x80 + u mod 64])"
proof -
  define h where "h = u div 4096"
  have h: "u div 262144 = h div 64" "16 \<le> h" "h < 272" using assms by (auto simp: h_def div_mult2_eq [symmetric])
  have low: "0x80 \<le> 0x80 + k mod 64" "0x80 + k mod 64 \<le> (0xBF::nat)" for k by (simp_all add: less_Suc_eq_le [symmetric])
  consider "h < 64" | "64 \<le> h" "h < 256" | "256 \<le> h" by linarith
  then show ?thesis
  proof cases
    case 1
    then show ?thesis unfolding h(1) h_def [symmetric]
      using h by (intro valid_four [of "0xF0" "0xF0" "0x90" "0xBF"] low) (simp_all add: utf8_table_def)
  next
    case 2
    then have "h div 64 \<le> 3" "1 \<le> h div 64" using div_between [of 1 h 4] by simp_all
    then show ?thesis unfolding h(1) h_def [symmetric]
      by (intro valid_four [of "0xF1" "0xF3" "0x80" "0xBF"] low) (simp_all add: utf8_table_def)
  next
    case 3
    then have "h div 64 = 4" using h(3) div_between [of 4 h 5] by simp
    moreover from this have "h mod 64 < 16" using h(3) mod_of_div [of h 4] by simp
    ultimately show ?thesis unfolding h(1) h_def [symmetric]
      by (intro valid_four [of "0xF4" "0xF4" "0x80" "0x8F"] low) (simp_all add: utf8_table_def)
  qed
qed

lemma utf8_encode_valid:
  assumes "u < 0x110000" "u < 0xD800 \<or> 0xDFFF < u"
  shows "valid_utf8 (utf8_encode u)"
proof -
  consider "u < 0x80" | "0x80 \<le> u" "u < 0x800" | "0x800 \<le> u" "u < 0x10000" | "0x10000 \<le> u" by linarith
  then show ?thesis
  proof cases
    case 1
    then have "valid_utf8 [char_of u]" by (intro ascii_valid) simp
    then show ?thesis using 1 by (simp add: utf8_encode_def)
  next
    case 2
    then have "2 \<le> u div 64" "u div 64 \<le> 31" "u mod 64 \<le> 63"
      using div_between [of 2 u 32] by (simp_all add: less_Suc_eq_le [symmetric])
    then have "valid_utf8 (map char_of [0xC0 + u div 64, 0x80 + u mod 64])" by (intro valid_two) simp_all
    then show ?thesis using 2 by (simp add: utf8_encode_def)
  next
    case 3
    then show ?thesis using valid_three_unit [OF 3 assms(2)] by (simp add: utf8_encode_def)
  next
    case 4
    then show ?thesis using valid_four_unit [OF 4 assms(1)] by (simp add: utf8_encode_def)
  qed
qed

lemma REPLACEMENT_valid: "valid_utf8 REPLACEMENT"
proof -
  have "REPLACEMENT = utf8_encode 0xFFFD" by (simp add: REPLACEMENT_def utf8_encode_def char_of_def bit_0)
  then show ?thesis using utf8_encode_valid [of "0xFFFD"] by simp
qed

section \<open>Strings\<close>

lemma hex_value_less: "hex_value c = Some n \<Longrightarrow> n < 16"
  by (auto simp: hex_value_def Let_def split: if_splits)

lemma hex4_less: "hex4 s = Some (u, t) \<Longrightarrow> u < 0x10000"
  by (cases s rule: hex4.cases) (auto dest!: hex_value_less split: option.splits)

lemma decode_unit_valid: "u < 0x10000 \<Longrightarrow> valid_utf8 (fst (decode_unit u s))"
proof -
  assume u: "u < 0x10000"
  show ?thesis
  proof (cases "u < 0xD800 \<or> 0xDFFF < u")
    case True
    then show ?thesis using u utf8_encode_valid [of u] by (simp add: decode_unit_def)
  next
    case False
    have "valid_utf8 (utf8_encode (0x10000 + (u - 0xD800) * 0x400 + (v - 0xDC00)))"
      if "u < 0xDC00" "0xDC00 \<le> v" "v \<le> 0xDFFF" for v
      using that False by (intro utf8_encode_valid) auto
    then show ?thesis
      using False REPLACEMENT_valid unfolding decode_unit_def
      by (auto split: list.splits option.splits)
  qed
qed

lemma take_sequence_valid: "utf8_sequence s = n \<Longrightarrow> n \<noteq> 0 \<Longrightarrow> valid_utf8 (take n s)"
proof -
  assume n: "utf8_sequence s = n" "n \<noteq> 0"
  obtain a b c d where e: "(a, b, c, d, n) \<in> set utf8_table" "utf8_matches s (a, b, c, d, n)" "n \<le> length s" "2 \<le> n"
    using utf8_sequence_entry [OF n] .
  then have "utf8_matches (take n s) (a, b, c, d, n)" using utf8_matches_take [of n n s "[]"] by simp
  then show ?thesis using e(1,3) by (intro valid_sequence) auto
qed

lemma unquote_string_valid: "unquote_string s = Some (x, r) \<Longrightarrow> valid_utf8 x"
proof (induction s arbitrary: x r rule: unquote_string.induct)
  case 1
  then show ?case by (simp add: unquote_string.simps)
next
  case (2 c s)
  consider "c = CHR ''\"''" | "c = CHR 0x5C" "c \<noteq> CHR ''\"''" | "c \<noteq> CHR ''\"''" "c \<noteq> CHR 0x5C" by blast
  then show ?case
  proof cases
    case 1
    then show ?thesis using "2.prems" by (auto simp: unquote_string.simps valid_utf8.simps)
  next
    case esc: 2
    obtain e s1 where s: "s = e # s1" using esc "2.prems" by (cases s) (auto simp: unquote_string.simps)
    show ?thesis
    proof (cases "e = CHR ''u''")
      case True
      then obtain u s2 where h: "hex4 s1 = Some (u, s2)" using "2.prems" esc s by (cases "hex4 s1") (auto simp: unquote_string.simps)
      obtain y where y: "unquote_string (snd (decode_unit u s2)) = Some (y, r)" "x = fst (decode_unit u s2) @ y"
        using "2.prems" esc True h unfolding s unquote_string.simps(2) by auto
      have "valid_utf8 y" using "2.IH"(1) esc s True h y by blast
      then show ?thesis using valid_utf8_append decode_unit_valid [OF hex4_less [OF h]] y(2) by blast
    next
      case False
      then obtain z y where z: "simple_escape e = Some z" "unquote_string s1 = Some (y, r)" "x = z # y"
        using "2.prems" esc unfolding s unquote_string.simps(2) by (auto split: option.splits)
      have "valid_utf8 y" using "2.IH"(2) esc s False z by blast
      moreover have "of_char z < (128::nat)" using z(1) by (auto simp: simple_escape_def split: if_splits)
      ultimately show ?thesis by (simp add: z valid_utf8.simps)
    qed
  next
    case 3
    show ?thesis
    proof (cases "of_char c < (128::nat)")
      case True
      then obtain y where y: "unquote_string s = Some (y, r)" "\<not> of_char c < (32::nat)" "x = c # y"
        using "2.prems" 3 by (auto simp: unquote_string.simps(2) [of c s] split: if_splits)
      then have "valid_utf8 y" using "2.IH"(3) 3 True by blast
      then show ?thesis using True by (simp add: y valid_utf8.simps)
    next
      case False
      have no: "\<not> of_char c < (32::nat)" using False by simp
      show ?thesis
      proof (cases "utf8_sequence (c # s) = 0")
        case True
        then obtain y where y: "unquote_string s = Some (y, r)" "x = REPLACEMENT @ y"
          using "2.prems" 3 False by (auto simp: unquote_string.simps(2) [of c s] split: if_splits)
        have "valid_utf8 y" using "2.IH"(4) 3 False True no y by blast
        then show ?thesis using y(2) valid_utf8_append REPLACEMENT_valid by blast
      next
        case n: False
        then obtain y where y: "unquote_string (drop (utf8_sequence (c # s)) (c # s)) = Some (y, r)" "x = take (utf8_sequence (c # s)) (c # s) @ y"
          using "2.prems" 3 False by (auto simp: unquote_string.simps(2) [of c s] Let_def split: if_splits)
        have "valid_utf8 y" using "2.IH"(5) 3 False n no y by blast
        then show ?thesis using y(2) valid_utf8_append take_sequence_valid [OF refl n] by blast
      qed
    qed
  qed
qed

section \<open>Values\<close>

text \<open>A value of the grammar: no \<open>JInt\<close>, and every string and name in UTF-8.\<close>

abbreviation well_read :: "json \<Rightarrow> bool" where
  "well_read v \<equiv> parsed v \<and> utf8_value v"

lemma json_number_read: "json_number s = Some (v, r) \<Longrightarrow> well_read v"
  by (auto simp: json_number_def bind_eq_Some_conv)

lemma json_read:
  "json_value n s = Some (v, r) \<Longrightarrow> well_read v"
  "json_members n s = Some (ms, r) \<Longrightarrow> list_all (\<lambda>(k, v). valid_utf8 k \<and> well_read v) ms"
  "json_items n s = Some (xs, r) \<Longrightarrow> list_all well_read xs"
proof (induction n s and n s and n s arbitrary: v r and ms r and xs r rule: json_value_json_members_json_items.induct)
  case (2 n s)
  obtain c t where s: "skip_ws s = c # t" using "2.prems" by (cases "skip_ws s") auto
  consider "c = CHR ''\"''" | "c = CHR ''{''" | "c = CHR ''[''" | "c \<notin> {CHR ''\"'', CHR ''{'', CHR ''[''}" by blast
  then show ?case
  proof cases
    case 1
    then show ?thesis using "2.prems" s unquote_string_valid by auto
  next
    case 2
    then have "v = JObj [] \<or> (\<exists>ms. v = JObj ms \<and> json_members n t = Some (ms, r) \<and> expect_char (CHR ''}'') (skip_ws t) = None)"
      using "2.prems" s by (auto split: option.splits)
    then show ?thesis using "2.IH"(1) s 2 by (fastforce simp: list_all_iff)
  next
    case 3
    then have "v = JArr [] \<or> (\<exists>xs. v = JArr xs \<and> json_items n t = Some (xs, r) \<and> expect_char (CHR '']'') (skip_ws t) = None)"
      using "2.prems" s by (auto split: option.splits)
    then show ?thesis using "2.IH"(2) s 3 by (auto simp: list_all_iff)
  next
    case 4
    then show ?thesis
      using "2.prems" s json_number_read [of "c # t"] by (auto simp: json_word_def split: if_splits)
  qed
next
  case (4 n s)
  from "4.prems" obtain t k t1 t2 v t3 where
    p: "expect_char (CHR ''\"'') (skip_ws s) = Some t" "unquote_string t = Some (k, t1)" "expect_char (CHR '':'') (skip_ws t1) = Some t2"
      "json_value n t2 = Some (v, t3)" "(case expect_char (CHR '','') (skip_ws t3) of
         Some t4 \<Rightarrow> map_option (apfst (Cons (k, v))) (json_members n t4)
       | None \<Rightarrow> map_option (Pair [(k, v)]) (expect_char (CHR ''}'') (skip_ws t3))) = Some (ms, r)"
    by (auto simp: bind_eq_Some_conv)
  have "well_read v" using "4.IH"(1) p by fastforce
  moreover have "valid_utf8 k" using p(2) unquote_string_valid by blast
  ultimately show ?case using p(5) "4.IH"(2) p by (fastforce split: option.splits)
next
  case (6 n s)
  from "6.prems" obtain v t where p: "json_value n s = Some (v, t)" "(case expect_char (CHR '','') (skip_ws t) of
         Some t1 \<Rightarrow> map_option (apfst (Cons v)) (json_items n t1)
       | None \<Rightarrow> map_option (Pair [v]) (expect_char (CHR '']'') (skip_ws t))) = Some (xs, r)"
    by (auto simp: bind_eq_Some_conv)
  have "well_read v" using "6.IH"(1) p(1) by blast
  then show ?case using p "6.IH"(2) by (fastforce split: option.splits)
qed simp_all

lemma json_text_read: "json_text s = Some v \<Longrightarrow> well_read v"
  by (auto simp: json_text_def bind_eq_Some_conv dest: json_read(1) split: if_splits simp del: json_value.simps)

lemma make_map_utf8:
  "list_all (\<lambda>(k, v, e). valid_utf8 k \<and> utf8_value v) ms \<Longrightarrow> list_all (\<lambda>(k, v). valid_utf8 k \<and> utf8_value v) (make_map ms)"
  using make_map_values [of _ _ ms] by (fastforce simp: list_all_iff)

lemma go_any_utf8: "utf8_value v \<Longrightarrow> utf8_value (fst (go_any pf v))"
proof (induction v)
  case (JReal t)
  then show ?case by (simp split: option.split)
next
  case (JArr xs)
  then show ?case by (auto simp: list_all_iff Let_def)
next
  case (JObj ms)
  have "utf8_value (fst (go_any pf v))" if "(k, v) \<in> set ms" for k v
    using JObj.IH [OF that, of v] JObj.prems that by (auto simp: list_all_iff)
  then have "list_all (\<lambda>(k, v, e). valid_utf8 k \<and> utf8_value v) (map (\<lambda>(k, v). (k, go_any pf v)) ms)"
    using JObj.prems by (auto simp: list_all_iff case_prod_beta)
  then show ?case using make_map_utf8 by (simp add: Let_def)
qed simp_all

text \<open>Every value that is read from a text into Go is written and read back as it is.\<close>

lemma go_any_round_trip:
  assumes "float_laws pf" "well_read v" "r = [] \<or> r = [CHR 0x0A]"
  shows "json_text (marshal_value (fst (go_any pf v)) @ r) = Some (fst (go_any pf v))"
proof -
  have "go_value pf (fst (go_any pf v))" using assms(1,2) go_any_go_value by blast
  then have "printable (fst (go_any pf v))" using go_value_printable [OF assms(1)] assms(2) go_any_utf8 by blast
  then show ?thesis using assms(3) by (rule json_text_marshal_value)
qed

end
