(* ===== verification/AppFile.thy ===== *)
theory AppFile
  imports JsonUtf8 HttpServers
begin

text \<open>
  The files of the applications, src/go_eventing/http_handlers.go: the struct \<open>application\<close> as JSON, the part of \<open>storeAppSetup\<close> that decodes
  a new version, stores its assets and writes its file, and \<open>fetchAppSetup\<close>, which lists the applications. The lemmas show that what is
  deployed is what the other routines of the service read from the file.
\<close>

section \<open>The struct\<close>

text \<open>
  \<open>DeploymentConfig\<close> is \<open>JNull\<close> where it is nil; an element of the assets is an object, or \<open>JNull\<close> for a nil map; a nil slice is
  \<open>None\<close>.
\<close>

record application =
  Name :: string
  ID :: "64 word"
  DeploymentStatus :: bool
  Expand :: bool
  DeploymentConfig :: json
  AppHandlers :: string
  AppAssets :: "json list option"

definition app_zero :: application where
  "app_zero = \<lparr>Name = [], ID = 0, DeploymentStatus = False, Expand = False, DeploymentConfig = JNull, AppHandlers = [], AppAssets = None\<rparr>"

definition app_names :: "string list" where
  "app_names = [''name'', ''id'', ''deploy'', ''expand'', ''depcfg'', ''handlers'', ''assets'']"

definition app_json :: "application \<Rightarrow> json" where
  "app_json a =
     JObj [(''name'', JStr (Name a)), (''id'', JReal (dec_of_nat (unat (ID a)))), (''deploy'', JBool (DeploymentStatus a)),
           (''expand'', JBool (Expand a)), (''depcfg'', DeploymentConfig a), (''handlers'', JStr (AppHandlers a)),
           (''assets'', case AppAssets a of None \<Rightarrow> JNull | Some l \<Rightarrow> JArr l)]"

definition Marshal_app :: "application \<Rightarrow> string" where
  "Marshal_app a = marshal_value (app_json a)"

text \<open>
  Decoding a member into its field. Null leaves a field of a basic type as it is and makes the others nil. An \<open>uint64\<close> is
  the text of digits below its bound. An element of the assets that is no object is reported and stays nil.
\<close>

definition asset_element :: "(string \<Rightarrow> string option) \<Rightarrow> json \<Rightarrow> json \<times> bool" where
  "asset_element ParseFloat v = (case v of JObj ms \<Rightarrow> go_any ParseFloat v | JNull \<Rightarrow> (JNull, False) | _ \<Rightarrow> (JNull, True))"

definition set_string :: "(string \<Rightarrow> application) \<Rightarrow> json \<Rightarrow> application \<Rightarrow> application \<times> bool" where
  "set_string f v a = (case v of JStr x \<Rightarrow> (f x, False) | JNull \<Rightarrow> (a, False) | _ \<Rightarrow> (a, True))"

definition set_bool :: "(bool \<Rightarrow> application) \<Rightarrow> json \<Rightarrow> application \<Rightarrow> application \<times> bool" where
  "set_bool f v a = (case v of JBool x \<Rightarrow> (f x, False) | JNull \<Rightarrow> (a, False) | _ \<Rightarrow> (a, True))"

definition set_ID :: "json \<Rightarrow> application \<Rightarrow> application \<times> bool" where
  "set_ID v a =
     (case v of
        JReal t \<Rightarrow> if list_all is_digit t \<and> nat_of_dec t < 2 ^ 64 then (a\<lparr>ID := of_nat (nat_of_dec t)\<rparr>, False) else (a, True)
      | JNull \<Rightarrow> (a, False)
      | _ \<Rightarrow> (a, True))"

definition set_assets :: "(string \<Rightarrow> string option) \<Rightarrow> json \<Rightarrow> application \<Rightarrow> application \<times> bool" where
  "set_assets ParseFloat v a =
     (case v of
        JArr xs \<Rightarrow> (let ys = map (asset_element ParseFloat) xs in (a\<lparr>AppAssets := Some (map fst ys)\<rparr>, list_ex snd ys))
      | JNull \<Rightarrow> (a\<lparr>AppAssets := None\<rparr>, False)
      | _ \<Rightarrow> (a, True))"

definition set_app_field :: "(string \<Rightarrow> string option) \<Rightarrow> string \<Rightarrow> json \<Rightarrow> application \<Rightarrow> application \<times> bool" where
  "set_app_field ParseFloat f v a =
     (if f = ''name'' then set_string (\<lambda>x. a\<lparr>Name := x\<rparr>) v a
      else if f = ''id'' then set_ID v a
      else if f = ''deploy'' then set_bool (\<lambda>x. a\<lparr>DeploymentStatus := x\<rparr>) v a
      else if f = ''expand'' then set_bool (\<lambda>x. a\<lparr>Expand := x\<rparr>) v a
      else if f = ''depcfg'' then (let r = go_any ParseFloat v in (a\<lparr>DeploymentConfig := fst r\<rparr>, snd r))
      else if f = ''handlers'' then set_string (\<lambda>x. a\<lparr>AppHandlers := x\<rparr>) v a
      else set_assets ParseFloat v a)"

definition set_app_member ::
  "(string \<Rightarrow> string \<Rightarrow> bool) \<Rightarrow> (string \<Rightarrow> string option) \<Rightarrow> string \<times> json \<Rightarrow> application \<times> bool \<Rightarrow> application \<times> bool" where
  "set_app_member EqualFold ParseFloat = (\<lambda>(k, v) (a, err).
     case field_of EqualFold app_names k of
       None \<Rightarrow> (a, err)
     | Some f \<Rightarrow> apsnd (\<lambda>e. err \<or> e) (set_app_field ParseFloat f v a))"

text \<open>
  A second member \<open>assets\<close> would be decoded into the maps of the first, which is left out: here the last one counts.
\<close>

definition Unmarshal_app ::
  "(string \<Rightarrow> string \<Rightarrow> bool) \<Rightarrow> (string \<Rightarrow> string option) \<Rightarrow> string \<Rightarrow> application \<times> bool" where
  "Unmarshal_app EqualFold ParseFloat text =
     (case json_text text of
        None \<Rightarrow> (app_zero, True)
      | Some (JObj ms) \<Rightarrow> fold (set_app_member EqualFold ParseFloat) ms (app_zero, False)
      | Some JNull \<Rightarrow> (app_zero, False)
      | Some _ \<Rightarrow> (app_zero, True))"

section \<open>Storing and listing\<close>

text \<open>The assets as the maps that the loop of \<open>storeAppSetup\<close> works on, and back.\<close>

definition asset_of :: "json \<Rightarrow> asset" where
  "asset_of j = (case j of JObj ms \<Rightarrow> map_of ms | _ \<Rightarrow> Map.empty)"

definition map_json :: "asset \<Rightarrow> json" where
  "map_json m = JObj (map (\<lambda>k. (k, the (m k))) (sorted_list_of_set (dom m)))"

definition store_app_assets ::
  "'s go_store \<Rightarrow> string option \<Rightarrow> string \<Rightarrow> application \<Rightarrow> 's \<Rightarrow> (application \<times> 's) result" where
  "store_app_assets G info appName app s =
     (case AppAssets app of
        None \<Rightarrow> Inr (app, s)
      | Some js \<Rightarrow> res_bind (storeAssets G info appName (map asset_of js) s) (\<lambda>(l, s'). Inr (app\<lparr>AppAssets := Some (map map_json l)\<rparr>, s')))"

text \<open>
  \<open>storeAppSetup\<close> up to the lock: the response, the files of the directory \<open>./apps\<close> and the cluster. The code ignores the error of
  \<open>WriteFile\<close> and answers as if the file were written; the definition is for a disk on which it is written. The files are a map from
  names as they come, so two names of one file (\<open>../apps/a\<close> and \<open>a\<close>) are two entries. Encoding the struct does not fail, since its values were decoded.
\<close>

definition store_application ::
  "(string \<Rightarrow> string \<Rightarrow> bool) \<Rightarrow> (string \<Rightarrow> string option) \<Rightarrow> 's go_store \<Rightarrow> string option \<Rightarrow> string \<Rightarrow> string
     \<Rightarrow> (string \<rightharpoonup> string) \<times> 's \<Rightarrow> (string \<times> (string \<rightharpoonup> string) \<times> 's) result" where
  "store_application EqualFold ParseFloat G info appName content = (\<lambda>(apps, s).
     let (app, err) = Unmarshal_app EqualFold ParseFloat content
     in if err then Inr (''Failed to unmarshal payload for appname: '' @ appName @ [CHR 0x0A], apps, s)
        else res_bind (store_app_assets G info appName app s) (\<lambda>(app', s').
               Inr (''Stored application config to disk'' @ [CHR 0x0A], apps(appName \<mapsto> Marshal_app app'), s')))"

text \<open>What the routines of the service take from a file: the deployment part, for \<open>getSource\<close>, \<open>performAppHTTPSetup\<close> and \<open>getMailSettings\<close>.\<close>

definition depcfg_of ::
  "(string \<Rightarrow> string \<Rightarrow> bool) \<Rightarrow> (string \<Rightarrow> string option) \<Rightarrow> (string \<rightharpoonup> string) \<Rightarrow> string \<Rightarrow> json option option" where
  "depcfg_of EqualFold ParseFloat apps appName =
     map_option (\<lambda>t. case DeploymentConfig (fst (Unmarshal_app EqualFold ParseFloat t)) of JNull \<Rightarrow> None | v \<Rightarrow> Some v) (apps appName)"

text \<open>An application as \<open>fetchAppSetup\<close> reads it; a file that cannot be read is the empty text, and errors are ignored.\<close>

definition read_app ::
  "(string \<Rightarrow> string \<Rightarrow> bool) \<Rightarrow> (string \<Rightarrow> string option) \<Rightarrow> (string \<rightharpoonup> string) \<Rightarrow> string \<Rightarrow> application" where
  "read_app EqualFold ParseFloat apps name = fst (Unmarshal_app EqualFold ParseFloat (case apps name of Some t \<Rightarrow> t | None \<Rightarrow> []))"

definition fetchAppSetup ::
  "(string \<Rightarrow> string \<Rightarrow> bool) \<Rightarrow> (string \<Rightarrow> string option) \<Rightarrow> string list \<Rightarrow> (string \<rightharpoonup> string) \<Rightarrow> string" where
  "fetchAppSetup EqualFold ParseFloat files apps =
     marshal_value (JArr (map (\<lambda>f. app_json (read_app EqualFold ParseFloat apps f)) files)) @ [CHR 0x0A]"

section \<open>Reading back\<close>

definition app_ok :: "(string \<Rightarrow> string option) \<Rightarrow> application \<Rightarrow> bool" where
  "app_ok pf a \<longleftrightarrow> valid_utf8 (Name a) \<and> valid_utf8 (AppHandlers a) \<and> go_value pf (DeploymentConfig a) \<and> utf8_value (DeploymentConfig a)
     \<and> (\<forall>l. AppAssets a = Some l \<longrightarrow> list_all (\<lambda>j. (j = JNull \<or> is_object j) \<and> go_value pf j \<and> utf8_value j) l)"

lemma app_zero_ok [simp]: "app_ok pf app_zero"
  by (simp add: app_ok_def app_zero_def valid_utf8.simps)

text \<open>The text of an \<open>uint64\<close> is a number of the grammar.\<close>

lemma dec_of_nat_start: "n \<noteq> 0 \<Longrightarrow> hd (dec_of_nat n) \<noteq> CHR ''0''"
proof (induction n rule: dec_of_nat.induct)
  case (1 n)
  show ?case
  proof (cases "n < 10")
    case True
    then have "n \<in> {1, 2, 3, 4, 5, 6, 7, 8, 9}" using 1 by auto
    then show ?thesis using True by (subst dec_of_nat.simps) (auto simp: digit_char_def digit_chars_def)
  next
    case False
    then have "n div 10 \<noteq> 0" by auto
    then show ?thesis using 1 False by (subst dec_of_nat.simps) simp
  qed
qed

lemma dec_of_nat_number: "number_text (dec_of_nat n)"
proof (cases "n = 0")
  case True
  have "dec_of_nat 0 = ''0''" by (subst dec_of_nat.simps) (simp add: digit_char_def digit_chars_def)
  then show ?thesis
    by (simp add: True number_text_def json_number_def sign_part_def integer_part_def fraction_part_def exponent_part_def)
next
  case False
  obtain c t where t: "dec_of_nat n = c # t" by (cases "dec_of_nat n") auto
  then have c: "c \<noteq> CHR ''0''" "is_digit c" "c \<noteq> CHR ''-''" using dec_of_nat_start [OF False] dec_of_nat_digits [of n]
    by (auto simp: is_digit_def digit_chars_def)
  have "takeWhile is_digit t = t" using dec_of_nat_digits [of n] t by (simp add: list_all_iff takeWhile_eq_all_conv)
  then have "digits_of (c # t) = Some (c # t, [])" using c by (simp add: digits_of_def del: takeWhile_eq_all_conv)
  then show ?thesis
    using c by (simp add: t number_text_def json_number_def sign_part_def integer_part_def fraction_part_def exponent_part_def)
qed

lemma app_json_printable:
  assumes "float_laws pf" "app_ok pf a"
  shows "printable (app_json a)"
proof -
  have "valid_utf8 n" if "n \<in> set app_names" for n using that by (intro ascii_valid) (auto simp: app_names_def)
  then have names: "valid_utf8 ''name''" "valid_utf8 ''id''" "valid_utf8 ''deploy''" "valid_utf8 ''expand''" "valid_utf8 ''depcfg''"
    "valid_utf8 ''handlers''" "valid_utf8 ''assets''" by (auto simp: app_names_def)
  have "printable (case AppAssets a of None \<Rightarrow> JNull | Some l \<Rightarrow> JArr l)"
    using assms go_value_printable [OF assms(1)] by (auto simp: app_ok_def list_all_iff split: option.split)
  then show ?thesis
    using assms go_value_printable [OF assms(1)] by (simp add: app_json_def app_ok_def names dec_of_nat_number)
qed

lemma field_of_name [simp]: "n \<in> set app_names \<Longrightarrow> field_of EF app_names n = Some n"
  by (simp add: field_of_def)

lemma asset_element_ok: "(j = JNull \<or> is_object j) \<and> go_value pf j \<Longrightarrow> asset_element pf j = (j, False)"
  using go_any_value [of pf j] by (cases j) (auto simp: asset_element_def is_object_def)

lemma set_assets_ok:
  assumes "app_ok pf a"
  shows "set_assets pf (case AppAssets a of None \<Rightarrow> JNull | Some l \<Rightarrow> JArr l) b = (b\<lparr>AppAssets := AppAssets a\<rparr>, False)"
proof (cases "AppAssets a")
  case (Some l)
  then have eq: "map (asset_element pf) l = map (\<lambda>j. (j, False)) l" using assms asset_element_ok by (auto simp: app_ok_def list_all_iff)
  show ?thesis unfolding Some set_assets_def by (simp add: eq comp_def list_ex_iff del: map_eq_conv)
qed (simp add: set_assets_def)

lemma Unmarshal_Marshal_app:
  assumes "float_laws pf" "app_ok pf a"
  shows "Unmarshal_app EF pf (Marshal_app a) = (a, False)"
proof -
  have "json_text (Marshal_app a) = Some (app_json a)"
    using json_text_marshal_value [OF app_json_printable [OF assms], of "[]"] by (simp add: Marshal_app_def)
  moreover have "go_any pf (DeploymentConfig a) = (DeploymentConfig a, False)" using assms(2) go_any_value by (simp add: app_ok_def)
  moreover have "unat (ID a) < 2 ^ 64" using unsigned_less [of "ID a"] by simp
  ultimately show ?thesis
    using set_assets_ok [OF assms(2)]
    by (simp add: Unmarshal_app_def app_json_def set_app_member_def app_names_def field_of_def set_app_field_def set_string_def set_bool_def set_ID_def)
qed

section \<open>What was decoded can be written\<close>

lemma go_any_ok: "float_laws pf \<Longrightarrow> well_read v \<Longrightarrow> go_value pf (fst (go_any pf v)) \<and> utf8_value (fst (go_any pf v))"
  using go_any_go_value go_any_utf8 by blast

lemma asset_element_object: "fst (asset_element pf v) = JNull \<or> is_object (fst (asset_element pf v))"
  by (cases v) (simp_all add: asset_element_def is_object_def Let_def)

lemma asset_element_value: "float_laws pf \<Longrightarrow> well_read v \<Longrightarrow> go_value pf (fst (asset_element pf v)) \<and> utf8_value (fst (asset_element pf v))"
  using go_any_ok [of pf v] by (cases v) (simp_all add: asset_element_def)

lemma set_app_field_ok:
  assumes "float_laws pf" "well_read v" "app_ok pf a"
  shows "app_ok pf (fst (set_app_field pf f v a))"
proof -
  have "app_ok pf (fst (set_string (\<lambda>x. a\<lparr>Name := x\<rparr>) v a))" "app_ok pf (fst (set_string (\<lambda>x. a\<lparr>AppHandlers := x\<rparr>) v a))"
    "app_ok pf (fst (set_bool (\<lambda>x. a\<lparr>DeploymentStatus := x\<rparr>) v a))" "app_ok pf (fst (set_bool (\<lambda>x. a\<lparr>Expand := x\<rparr>) v a))"
    "app_ok pf (fst (set_ID v a))"
    using assms(2,3) by (auto simp: set_string_def set_bool_def set_ID_def app_ok_def split: json.split)
  moreover have "app_ok pf (a\<lparr>DeploymentConfig := fst (go_any pf v)\<rparr>)" using go_any_ok [OF assms(1,2)] assms(3) by (simp add: app_ok_def)
  moreover have "app_ok pf (fst (set_assets pf v a))"
  proof (cases v)
    case (JArr xs)
    then have "list_all (\<lambda>j. (j = JNull \<or> is_object j) \<and> go_value pf j \<and> utf8_value j) (map (fst \<circ> asset_element pf) xs)"
      using assms asset_element_object asset_element_value by (auto simp: list_all_iff)
    then show ?thesis using JArr assms(3) by (simp add: set_assets_def app_ok_def Let_def)
  qed (use assms(3) in \<open>simp_all add: set_assets_def app_ok_def\<close>)
  ultimately show ?thesis by (simp add: set_app_field_def Let_def)
qed

lemma set_members_ok:
  assumes "float_laws pf"
  shows "list_all (\<lambda>(k, v). well_read v) ms \<Longrightarrow> app_ok pf (fst st) \<Longrightarrow> app_ok pf (fst (fold (set_app_member EF pf) ms st))"
proof (induction ms arbitrary: st)
  case (Cons kv ms)
  obtain k v a err where eq: "kv = (k, v)" "st = (a, err)" by (cases kv; cases st)
  have "app_ok pf (fst (set_app_member EF pf kv st))"
    using Cons.prems set_app_field_ok [OF assms, of v a] by (auto simp: eq set_app_member_def split: option.split)
  then show ?case using Cons by (simp add: eq)
qed simp

lemma Unmarshal_app_ok: "float_laws pf \<Longrightarrow> app_ok pf (fst (Unmarshal_app EF pf t))"
proof -
  assume fl: "float_laws pf"
  have "app_ok pf (fst (fold (set_app_member EF pf) ms (app_zero, False)))" if "json_text t = Some (JObj ms)" for ms
  proof -
    have "list_all (\<lambda>(k, v). well_read v) ms" using json_text_read [OF that] by (auto simp: list_all_iff)
    then show ?thesis using set_members_ok [OF fl, of ms "(app_zero, False)"] by simp
  qed
  then show ?thesis by (auto simp: Unmarshal_app_def split: option.split json.split)
qed

section \<open>The assets stay values\<close>

definition asset_good :: "(string \<Rightarrow> string option) \<Rightarrow> asset \<Rightarrow> bool" where
  "asset_good pf m \<longleftrightarrow> finite (dom m) \<and> (\<forall>k v. m k = Some v \<longrightarrow> valid_utf8 k \<and> go_value pf v \<and> utf8_value v)"

lemma map_json_ok:
  assumes "asset_good pf m"
  shows "is_object (map_json m)" "go_value pf (map_json m)" "utf8_value (map_json m)"
proof -
  have "v = the (m k) \<Longrightarrow> k \<in> dom m \<Longrightarrow> valid_utf8 k \<and> go_value pf v \<and> utf8_value v" for k v using assms by (auto simp: asset_good_def)
  moreover have "map_invar (map (\<lambda>k. (k, the (m k))) (sorted_list_of_set (dom m)))"
    by (simp add: map_invar_def comp_def)
  ultimately show "go_value pf (map_json m)" "utf8_value (map_json m)"
    using assms by (auto simp: map_json_def list_all_iff asset_good_def)
qed (simp add: map_json_def is_object_def)

lemma asset_of_good: "go_value pf j \<Longrightarrow> utf8_value j \<Longrightarrow> asset_good pf (asset_of j)"
  by (cases j) (auto simp: asset_of_def asset_good_def finite_dom_map_of list_all_iff dest!: map_of_SomeD)

text \<open>A piece of a text in UTF-8 between separators below 128 is in UTF-8.\<close>

lemma Split_free: "d \<notin> set x \<Longrightarrow> Split d (x @ y) = (x @ hd (Split d y)) # tl (Split d y)"
  by (induction x) auto

lemma sequence_bytes:
  assumes "utf8_sequence s = n" "n \<noteq> 0" "x \<in> set (take n s)"
  shows "\<not> of_char x < (128::nat)"
proof -
  obtain a b c d where e: "(a, b, c, d, n) \<in> set utf8_table" "utf8_matches s (a, b, c, d, n)" "n \<le> length s" "2 \<le> n"
    using utf8_sequence_entry [OF assms(1,2)] .
  obtain i where i: "i < n" "x = s ! i" using assms(3) by (auto simp: in_set_conv_nth)
  have lo: "0x80 \<le> a" "0x80 \<le> c" using e(1) by (auto simp: utf8_table_def)
  consider "i = 0" | "i = 1" | "i \<in> set [2..<n]" using i(1) by force
  then show ?thesis
  proof cases
    case 3
    then have "in_range 0x80 0xBF x" using e(2) i(2) unfolding utf8_matches_def by (auto simp: list_all_iff)
    then show ?thesis by (simp add: in_range_def)
  qed (use e(2) i(2) lo in \<open>auto simp: utf8_matches_def in_range_def\<close>)
qed

lemma Split_valid: "valid_utf8 s \<Longrightarrow> of_char d < (128::nat) \<Longrightarrow> p \<in> set (Split d s) \<Longrightarrow> valid_utf8 p"
proof (induction s arbitrary: p rule: valid_utf8.induct)
  case (2 c s)
  obtain y ys where y: "Split d s = y # ys" by (cases "Split d s") auto
  show ?case
  proof (cases "of_char c < (128::nat)")
    case True
    then have "\<forall>q \<in> set (y # ys). valid_utf8 q" using 2 y by (simp add: valid_utf8.simps)
    then show ?thesis using "2.prems"(3) True y by (auto simp: valid_utf8.simps split: if_splits)
  next
    case False
    let ?n = "utf8_sequence (c # s)"
    have n: "?n \<noteq> 0" "valid_utf8 (drop ?n (c # s))" using "2.prems"(1) False by (auto simp: valid_utf8.simps split: if_splits)
    then have ih: "valid_utf8 q" if "q \<in> set (Split d (drop ?n (c # s)))" for q using "2.IH"(2) False "2.prems"(2) that by blast
    have "d \<notin> set (take ?n (c # s))" using sequence_bytes [OF refl n(1)] "2.prems"(2) by blast
    from Split_free [OF this, of "drop ?n (c # s)"] have "Split d (c # s) = (take ?n (c # s) @ hd (Split d (drop ?n (c # s)))) # tl (Split d (drop ?n (c # s)))"
      by (simp only: append_take_drop_id)
    then have "p = take ?n (c # s) @ hd (Split d (drop ?n (c # s))) \<or> p \<in> set (tl (Split d (drop ?n (c # s))))"
      using "2.prems"(3) by auto
    then show ?thesis
      using ih take_sequence_valid [OF refl n(1)] valid_utf8_append by (metis Split_nonempty list.set_sel)
  qed
qed (simp add: valid_utf8.simps)

lemma add_asset_good:
  assumes "asset_good pf asset" "add_asset G info key asset s = Inr (asset', s')"
  shows "asset_good pf asset'"
proof -
  obtain c mimeType b where c: "as_string (asset ''content'') = Inr c" "go_index (Split (CHR '':'') (hd (Split (CHR '','') c))) 1 = Inr mimeType"
    and a': "asset' = (asset(''mimeType'' \<mapsto> JStr mimeType))(''operation'' := None, ''content'' := None)"
    using assms(2) by (auto simp: add_asset_def Let_def res_bind_eq_Inr_iff split: option.splits)
  have "asset ''content'' = Some (JStr c)" using c(1) by (auto simp: as_string_def split: option.splits json.splits)
  then have "utf8_value (JStr c)" using assms(1) unfolding asset_good_def by blast
  then have "valid_utf8 c" by simp
  then have "valid_utf8 (hd (Split (CHR '','') c))" using Split_valid [of c "CHR '',''"] by simp
  moreover have "mimeType \<in> set (Split (CHR '':'') (hd (Split (CHR '','') c)))"
    using c(2) by (auto simp: go_index_def split: if_splits)
  ultimately have "valid_utf8 mimeType" using Split_valid [of _ "CHR '':''"] by simp
  moreover have "valid_utf8 ''mimeType''" by (rule ascii_valid) simp
  ultimately show ?thesis using assms(1) by (auto simp: a' asset_good_def)
qed

text \<open>The slices of the loop keep to the array they share.\<close>

definition slice_good :: "(string \<Rightarrow> string option) \<Rightarrow> nat \<Rightarrow> asset_slice \<Rightarrow> bool" where
  "slice_good pf n l \<longleftrightarrow> length (backing l) = n \<and> length (asset_heap l) = n \<and> set (backing l) \<subseteq> {..<n} \<and> list_all (asset_good pf) (asset_heap l)"

lemma remove_asset_good: "slice_good pf n l \<Longrightarrow> Assets_len l \<le> n \<Longrightarrow> remove_asset i l = Inr l' \<Longrightarrow> slice_good pf n l' \<and> Assets_len l' \<le> n"
  by (auto simp: slice_good_def remove_asset_def Let_def split: if_splits dest!: in_set_takeD in_set_dropD)

lemma asset_step_good:
  assumes "slice_good pf n l" "Assets_len l \<le> n" "i < n" "asset_step G info app i (l, s) = Inr (l', s')"
  shows "slice_good pf n l' \<and> Assets_len l' \<le> n"
proof -
  let ?p = "backing l ! i"
  have "?p \<in> set (backing l)" using assms(1,3) by (simp add: slice_good_def)
  then have p: "?p < n" "asset_good pf (asset_heap l ! ?p)" using assms(1) by (auto simp: slice_good_def list_all_length)
  have upd: "slice_good pf n (l\<lparr>asset_heap := (asset_heap l)[?p := a]\<rparr>)" if "asset_good pf a" for a
    using assms(1) that unfolding slice_good_def by (auto simp: list_all_iff dest!: set_update_subset_insert [THEN subsetD])
  then have added: "slice_good pf n (l\<lparr>asset_heap := (asset_heap l)[?p := a]\<rparr>)"
    if "add_asset G' info' key (asset_heap l ! ?p) s = Inr (a, s1)" for G' :: "'a go_store" and info' key a s1
    using add_asset_good [OF p(2) that] by blast
  show ?thesis
    using assms(1,2,4) remove_asset_good [OF assms(1,2)] added
    by (auto simp: asset_step_def Let_def res_bind_eq_Inr_iff split: option.splits if_splits)
qed

lemma asset_loop_good:
  "slice_good pf n l \<Longrightarrow> Assets_len l \<le> n \<Longrightarrow> set is \<subseteq> {..<n} \<Longrightarrow> asset_loop G info app is (l, s) = Inr (l', s') \<Longrightarrow>
     slice_good pf n l' \<and> Assets_len l' \<le> n"
proof (induction "is" arbitrary: l s)
  case (Cons i js)
  then obtain l1 s1 where "asset_step G info app i (l, s) = Inr (l1, s1)" "asset_loop G info app js (l1, s1) = Inr (l', s')"
    by (auto simp: res_bind_eq_Inr_iff)
  then show ?case using Cons asset_step_good [of pf n l i G info app s l1 s1] by auto
qed simp

lemma storeAssets_good:
  assumes "list_all (asset_good pf) assets" "storeAssets G info app assets s = Inr (l, s')"
  shows "list_all (asset_good pf) l"
proof -
  define n where "n = length assets"
  define l0 where "l0 = \<lparr>asset_heap = assets, backing = [0..<n], Assets_len = n\<rparr>"
  obtain sl where sl: "asset_loop G info app [0..<n] (l0, s) = Inr (sl, s')" "l = assets_of sl"
    using assms(2) by (auto simp: storeAssets_def res_bind_eq_Inr_iff l0_def n_def)
  have "slice_good pf n l0" using assms(1) by (auto simp: slice_good_def l0_def n_def)
  then have "slice_good pf n sl" using asset_loop_good [OF _ _ _ sl(1), of pf n] by (simp add: l0_def lessThan_atLeast0)
  then have "asset_good pf (asset_heap sl ! p)" if "p \<in> set (backing sl)" for p using that by (auto simp: slice_good_def list_all_length)
  then show ?thesis by (auto simp: sl(2) assets_of_def list_all_iff dest: in_set_takeD)
qed

lemma store_app_assets_ok:
  assumes "app_ok pf a" "store_app_assets G info app a s = Inr (a', s')"
  shows "app_ok pf a' \<and> (\<exists>l. a' = a\<lparr>AppAssets := l\<rparr>)"
proof (cases "AppAssets a")
  case None
  then have "a' = a" using assms(2) by (simp add: store_app_assets_def)
  moreover have "a = a\<lparr>AppAssets := AppAssets a\<rparr>" by simp
  ultimately show ?thesis using assms(1) by metis
next
  case (Some js)
  obtain l where l: "storeAssets G info app (map asset_of js) s = Inr (l, s')" "a' = a\<lparr>AppAssets := Some (map map_json l)\<rparr>"
    using assms(2) Some by (auto simp: store_app_assets_def res_bind_eq_Inr_iff)
  have "list_all (asset_good pf) (map asset_of js)" using assms(1) Some asset_of_good by (auto simp: app_ok_def list_all_iff)
  then have "list_all (asset_good pf) l" by (rule storeAssets_good [OF _ l(1)])
  then have "list_all (\<lambda>j. (j = JNull \<or> is_object j) \<and> go_value pf j \<and> utf8_value j) (map map_json l)"
    using map_json_ok by (auto simp: list_all_iff)
  then show ?thesis using assms(1) l(2) by (auto simp: app_ok_def)
qed

text \<open>
  C34. What is deployed is what the service reads: when \<open>storeAppSetup\<close> has taken a new version, whatever bytes the request had, the file of the application is
  decoded without error to the struct of the request, with its assets as they were stored; no other file changes, and \<open>getSource\<close>,
  \<open>performAppHTTPSetup\<close> and the mail settings get the deployment configuration of the request.
\<close>

theorem application_stored:
  assumes "float_laws pf" "Unmarshal_app EF pf content = (app, False)"
    and "store_application EF pf G info appName content (apps, s) = Inr (resp, apps', s')"
  shows "\<exists>t l. apps' = apps(appName \<mapsto> t) \<and> store_app_assets G info appName app s = Inr (app\<lparr>AppAssets := l\<rparr>, s')
    \<and> Unmarshal_app EF pf t = (app\<lparr>AppAssets := l\<rparr>, False)
    \<and> depcfg_of EF pf apps' appName = Some (case DeploymentConfig app of JNull \<Rightarrow> None | v \<Rightarrow> Some v)"
proof -
  obtain app' where a: "store_app_assets G info appName app s = Inr (app', s')" "apps' = apps(appName \<mapsto> Marshal_app app')"
    using assms(3) unfolding store_application_def assms(2) by (cases "store_app_assets G info appName app s") (auto simp del: append.simps)
  have "app_ok pf app" using Unmarshal_app_ok [OF assms(1), of EF content] assms(2) by simp
  then obtain l where l: "app_ok pf app'" "app' = app\<lparr>AppAssets := l\<rparr>" using store_app_assets_ok [OF _ a(1), of pf] by auto
  then have u: "Unmarshal_app EF pf (Marshal_app app') = (app', False)" by (intro Unmarshal_Marshal_app [OF assms(1)])
  then have "depcfg_of EF pf apps' appName = Some (case DeploymentConfig app of JNull \<Rightarrow> None | v \<Rightarrow> Some v)"
    by (simp add: depcfg_of_def a(2) l(2))
  then show ?thesis using a u l(2) by blast
qed

text \<open>A concrete \<open>ParseFloat\<close> with the laws, which keeps the texts of the grammar, and an application.\<close>

definition ref_float :: "string \<Rightarrow> string option" where
  "ref_float t = (if number_text t then Some t else None)"

lemma ref_float_laws [simp]: "float_laws ref_float"
  by (simp add: float_laws_def ref_float_def)

definition ref_app :: application where
  "ref_app = app_zero\<lparr>Name := ''app1'', ID := 7, DeploymentConfig := JObj [(''http'', JArr []), (''n'', JBool True)]\<rparr>"

lemma ref_app_ok [simp]: "app_ok ref_float ref_app"
  by (simp add: ref_app_def app_ok_def app_zero_def map_invar_def ascii_valid valid_utf8.simps)

theorem application_stored_witness:
  "\<exists>t. store_application (=) ref_float ref_go_store None ''app1'' (Marshal_app ref_app) (Map.empty, \<lambda>_ _. None)
      = Inr (''Stored application config to disk'' @ [CHR 0x0A], [''app1'' \<mapsto> t], \<lambda>_ _. None)
    \<and> Unmarshal_app (=) ref_float t = (ref_app, False)"
proof -
  have u: "Unmarshal_app (=) ref_float (Marshal_app ref_app) = (ref_app, False)" by (rule Unmarshal_Marshal_app) simp_all
  have n: "AppAssets ref_app = None" by (simp add: ref_app_def app_zero_def)
  have st: "store_application (=) ref_float ref_go_store None ''app1'' (Marshal_app ref_app) (Map.empty, \<lambda>_ _. None)
      = Inr (''Stored application config to disk'' @ [CHR 0x0A], [''app1'' \<mapsto> Marshal_app ref_app], \<lambda>_ _. None)"
    by (simp add: store_application_def u store_app_assets_def n)
  from application_stored [OF ref_float_laws u st] obtain t l where
    t: "[''app1'' \<mapsto> Marshal_app ref_app] = Map.empty(''app1'' \<mapsto> t)" "Unmarshal_app (=) ref_float t = (ref_app\<lparr>AppAssets := l\<rparr>, False)"
    by blast
  from fun_cong [OF t(1), of "''app1''"] have "t = Marshal_app ref_app" by simp
  with st u show ?thesis by auto
qed

text \<open>
  The listing of the applications is a JSON text, also where files are damaged, and its elements are the applications of the files in
  their order, each of which reads back as the struct of its file.
\<close>

theorem applications_listed:
  assumes "float_laws pf"
  shows "json_text (fetchAppSetup EF pf files apps) = Some (JArr (map (\<lambda>f. app_json (read_app EF pf apps f)) files))
    \<and> (\<forall>f. Unmarshal_app EF pf (marshal_value (app_json (read_app EF pf apps f))) = (read_app EF pf apps f, False))"
proof -
  have ok: "app_ok pf (read_app EF pf apps f)" for f using Unmarshal_app_ok [OF assms(1)] by (simp add: read_app_def)
  then have "printable (JArr (map (\<lambda>f. app_json (read_app EF pf apps f)) files))"
    using app_json_printable [OF assms(1)] by (simp add: list_all_iff)
  then have "json_text (fetchAppSetup EF pf files apps) = Some (JArr (map (\<lambda>f. app_json (read_app EF pf apps f)) files))"
    unfolding fetchAppSetup_def by (rule json_text_marshal_value) simp
  then show ?thesis using Unmarshal_Marshal_app [OF assms(1) ok, unfolded Marshal_app_def] by blast
qed

end
