(* ===== verification/Spec2Isabelle.thy ===== *)
theory Spec2Isabelle
  imports Prelude Clock Extern Reference Text Host BucketBinding N1qlBinding QueueBinding HttpBinding
    Deployment Preprocess Timer Mail Debugger Isolate Worker Delivery TypeSafety
    GoBinding GoLib Dcp TimerPoll LocalTcp MailServer Lifecycle DcpClient
    Lifetime GoJson Protocol Base64 Assets HttpServers DebugServer Builtins
    Channel EventPump MailPump Referrers StartUp JsonPrint JsonUtf8 AppFile
begin

text \<open>
  The worker of Couchbase eventing, src/worker/binding: a C++ library, called from Go through the C
  functions of binding.h, that runs an application's JavaScript handlers in V8; and the Go service around
  it, src/go_eventing, which feeds the worker with mutations, timers, requests and deployments. This
  development models the C++ sources and, of the service, the parts the worker works together with,
  and states what they do.

  \<^bold>\<open>The program.\<close> A worker is built for one application (\<open>Worker::Worker\<close>), which reads the application's
  deployment file (parse_deployment.cc) and makes a handle for a bucket (bucket.cc), a query object
  (n1ql.cc), a queue (queue.cc) and an HTTP response (http_response.cc). \<open>WorkerLoad\<close> rewrites the
  application's source with two regular expressions, runs it, keeps the four functions it must define
  and binds the handles' objects to global names. After that the Go side delivers updates, deletes, HTTP
  requests and timer events; a running handler calls back into C++ by reading, writing and deleting
  properties of the installed objects and by the global functions \<open>log\<close>, \<open>registerCallback\<close> and
  \<open>sendmail\<close>. Debugger requests run on other threads and wait on a condition variable for a V8 message.
  The service drops the mutations a handler made itself, which it recognises by the marker \<open>BucketSet\<close>
  leaves; every second it fetches the marker of the timers that \<open>RegisterCallback\<close> stored and hands
  it to the worker; it takes the mails that \<open>SendMail\<close> posts; it runs HTTP servers for the applications, whose requests go to
  their static assets or to their handlers; it forwards commands of a debugger; and on a new
  deployment it replaces the running worker by messages on channels, the assets and the servers.

  \<^bold>\<open>The theories, and the sources they model.\<close>
  \<^item> Prelude: the faults a run can end in, results, C strings, \<open>atoi\<close> and \<open>stoi\<close>, decimal texts,
    \<open>std::map\<close>; the interfaces \<open>ordered_map\<close> and \<open>codec\<close>.
  \<^item> Extern: the third-party libraries as records of functions (rapidjson, libcouchbase, V8 values,
    hiredis), the data that crosses their interfaces, and the documented behaviour the properties use as
    named predicates. Reference: concrete libraries that satisfy the predicates, for the witnesses.
  \<^item> Clock: \<open>ConvertToISO8601\<close> of worker.cc with \<open>gmtime\<close> and \<open>strftime\<close>.
  \<^item> Text: \<open>AsciiToUtf16\<close>, \<open>ObjectToString\<close>, \<open>ToString\<close>, \<open>ToCString\<close>, \<open>ToJson\<close>, \<open>Print\<close>,
    \<open>ExceptionString\<close>, \<open>split\<close>, \<open>LoadBuiltins\<close> of worker.cc.
  \<^item> Host: object templates, internal fields, the \<open>Unwrap\<close> functions of worker.cc; the interface
    \<open>installed_class\<close>, interpreted by the three classes that install an object.
  \<^item> BucketBinding, N1qlBinding, QueueBinding, HttpBinding: one theory per class, with the class as a
    record and one definition per method.
  \<^item> Deployment: \<open>ParseDeployment\<close>. Preprocess: the two rewriting loops of \<open>WorkerLoad\<close>.
  \<^item> Timer: \<open>RegisterCallback\<close>, \<open>op_get_callback\<close>, \<open>op_set_callback\<close>. Mail: \<open>PostMail\<close>, \<open>SendMail\<close>.
  \<^item> Debugger: the five message handlers and their registered functions, the requests as programs of a
    step relation; the interface \<open>message_handler\<close>, interpreted by every handler.
  \<^item> Isolate: the members of \<open>Worker\<close>, the world around it, JavaScript code as an interaction, and the
    dispatch of its calls to the callbacks. Worker: the constructor, \<open>ExecuteScript\<close>, \<open>WorkerLoad\<close>,
    the deliveries and the C functions. Delivery: the properties of the deliveries and of call sequences.
    TypeSafety: the types of the internal fields, through every call a handler can make.
  \<^item> GoBinding: src/worker/worker.go, the table of workers and the calls on a worker. GoLib: what the Go
    sources use of their library (\<open>strings.Split\<close>, the strings of encoding/json) and of go-couchbase.
  \<^item> Dcp: \<open>handleDcpEvent\<close> of v8_worker.go. DcpClient: dcp_client.go. TimerPoll:
    proccess_timer_callbacks.go. MailServer: mail_handler.go, \<open>sendMail\<close> and \<open>processMails\<close> of http_handlers.go.
    LocalTcp: src/tcp/local_tcp_client.c and local_tcp_server.go.
  \<^item> Lifecycle: the goroutines of a deployment, \<open>storeAppSetup\<close>, \<open>setUpEventingApp\<close>, \<open>runWorker\<close>,
    \<open>startDcp\<close> and \<open>processTimerEvent\<close>, as one step relation on their channels and the lock they share.
  \<^item> Lifetime: the connections that the constructors of worker.cc, bucket.cc, n1ql.cc and queue.cc open, the
    destructors, \<open>WorkerDispose\<close>, and the array buffer allocator of worker.h.
  \<^item> GoJson: \<open>json.Unmarshal\<close> into structs of strings, with the grammar of JSON. Protocol: communication_protocol.go.
    Base64: the decoding of data URLs. Assets: the asset loop of \<open>storeAppSetup\<close> and \<open>handleStaticAssets\<close>.
  \<^item> HttpServers: \<open>performAppHTTPSetup\<close> of app_setup.go, regex_http_handler.go, http_server.go, \<open>getSource\<close> of eventing.go, \<open>handleJsRequests\<close>.
    DebugServer: the nine debugger requests of worker.go and the debugger's handlers of http_handlers.go.
  \<^item> Builtins: \<open>n1ql\<close> and \<open>ISODateString\<close> of builtin.js.
  \<^item> Channel: the channels of Go, with the interface \<open>fifo\<close>. EventPump: the loops of \<open>startBucket\<close> and \<open>runWorker\<close> and the
    closing of a feed by \<open>startDcp\<close>. MailPump: the goroutines at the ends of the mail channels and the closing of a channel by
    \<open>storeAppSetup\<close>. StartUp: \<open>main\<close> of eventing.go with \<open>startTimerProcessing\<close> and the first deployments. Each is a step
    relation over the interleavings.
  \<^item> Referrers: the tables from ports to workers of v8_worker.go (\<open>loadApp\<close>, the quit case of \<open>runWorker\<close>).
  \<^item> JsonPrint, JsonUtf8: \<open>json.Marshal\<close> and \<open>json.Unmarshal\<close> for values of any shape. AppFile: the struct \<open>application\<close>,
    \<open>storeAppSetup\<close> up to its lock, and \<open>fetchAppSetup\<close>.

  \<^bold>\<open>How state and operations correspond.\<close> A class is a record with its data members; a method takes the
  record and returns it changed. An operation that can end other than by returning gives \<open>Inl\<close> of a
  fault: a failed assertion, \<open>exit\<close>, an exception nobody catches, or an undefined behaviour the source
  can reach (a null, dangling or indeterminate pointer, a buffer overrun, an argument outside a library's
  contract). A pointer member that the constructor may leave unset starts as \<open>Indeterminate\<close>; an empty V8
  handle is \<open>None\<close>. An lcb handle is named by its connection string, and one exchange with the cluster,
  from scheduling to the end of \<open>lcb_wait\<close>, is one function application. The libraries are arguments of
  the definitions, collected in the record \<open>libs\<close> for the worker. In the Go theories a panic is a fault
  too; a worker object of the Go package is a position in the list of all that were made.

  \<^bold>\<open>What the lemmas show.\<close>
  \<^item> Buckets: a value written under a key the server accepts (1 to 250 bytes) is read back, every write leaves its CAS marker in the metadata bucket and
    touches nothing else, a delete removes one key; \<open>htonll_64\<close> on words of 64 bits reverses the bytes.
  \<^item> Timers: a sequence of registrations refines an abstract table (\<open>refines_timers\<close>); the delivery of a
    marker fires exactly the callbacks of the table at its instant, in order, if the ids are distinct and the callbacks leave
    the table alone; the timestamps are a codec. Instants are the documented ones: the values between 30 days and the constant of the
    code, on which the two differ, are a theorem of their own (\<open>ConvertToISO8601_threshold\<close>). From a load over an update whose handler registers
    timers to their callbacks, the theorem \<open>handler_registers_timer\<close> below composes the parts.
  \<^item> Worker: what the constructor keeps, the code and the effect of a load on every branch, the invariant
    of every call sequence (\<open>worker_reachable\<close>), what an update and an HTTP request do. A disposal frees the isolate and nothing
    else, and the calls that do not touch the isolate go on to work. The text of an HTTP response is returned through a dangling pointer.
  \<^item> Debugger: mutual exclusion of requests in all interleavings, in every continuation that
    leaves a blocked request alone the return of exactly the response that came for it, and the interleavings in which a response is lost, a stale result returned or a request never completed.
  \<^item> Types: on every worker that calls can reach, no handler makes a callback cast an internal field to
    a type it does not have.
  \<^item> Service and worker together: an own mutation is not delivered and its marker removed; a foreign one
    calls the handler once; registered timers fire at the tick two seconds after their instant, since
    both sides make the same key of it, and the tick removes marker and documents; a mail arrives as written; the table of the Go package holds
    exactly the live workers. The interleavings of a redeployment: the invariant, the order in which it
    works, and the orders in which feeds are left behind or the service stops.
  \<^item> Goroutines: events are handled in order, none twice or skipped, and all of them as long as the worker runs; the
    mails of a channel that a deployment closes are still handed to the mail server, once each, if the routine of the channel had started, while one that the
    server does not take is dropped; the service can get to its loop exactly if every set-up comes to its end and there are at most a hundred
    applications, and with a free port it then gets there under every schedule and serves them all; a deployment before that locks it.
  \<^item> Files: JSON values are read back as they were written, every text that was read is UTF-8, so what is deployed is what the routines of
    the service read from the file; requests reach running workers only, where an application has one server, and all of them if no two share a port.
  \<^item> Connections: how many a constructor opens and a worker keeps, and that a disposal closes none.
  \<^item> HTTP: an uploaded asset is served byte for byte; what deletions do to the list the loop runs over, as the two slices share
    their array, which is an explicit heap; a new version replaces exactly the listeners of its application, unless
    another was set up in between; which handler a path leads to. The debugger's commands start the programs of the
    theory Debugger; a second start loses the port. A message of the protocol is a codec; dates of builtin.js are those of worker.cc.
  \<^item> Preprocessing keeps line numbers and rewrites a call as intended when it is alone on its line.
  \<^item> The error properties give the fault or code of each malformed input; the buffers' bounds are exact.

  \<^bold>\<open>Bounds and fuel.\<close> The loops are structural or have a measure, the length of
  the text or input that is left (\<open>split_into\<close>, \<open>enqueue_loop\<close>, \<open>n1ql_loop\<close>, \<open>DoWork_loop\<close>), the days
  (\<open>year_walk\<close>) or the vbuckets that are left. Only the grammar of JSON (\<open>json_value\<close>) has fuel, twice the length of the text
  and two more, and the lemmas \<open>json_fuel\<close> and \<open>json_text_fuel\<close> show that more changes nothing. The retry loops of dcp_client.go need not end; they are partial functions into
  an option, and the theorem on them says exactly when they return; those of \<open>setUpEventingApp\<close> are steps of StartUp. The buffer sizes are those of the sources: 20 for a timestamp, 1000 for a command and a
  mail, 10 for a breakpoint, 20 for a line number; the channels have room for 10000 events, 10000 mails and 100 names. Instants are restricted to the years 1970 to 9999
  where a text of 19 characters is claimed. A call of JavaScript code is a finite interaction, so a
  handler that runs forever is outside the model.

  \<^bold>\<open>What is not modelled.\<close> V8, libcouchbase, rapidjson, hiredis and libcurl are parameters, as are
  go-couchbase, the DCP client library, sockets and the file system. The network behaviour of a
  connection, the reference counts of handles, the trace events, the
  diagnostic lines of the query and queue classes and of the service and the version functions are left out, as are the data races on the result strings of the
  debugger: a message is one step of the relation. A termination request is modelled by its effect on
  the next call of JavaScript code. The setups of HTTP servers are taken one after the other, and regular expressions for paths
  without special characters. The step relations are one for each group of goroutines and the channels they share: Lifecycle has the
  quit messages, EventPump the events, MailPump the mails and StartUp the first channels, and what one changes the others take as given. A panic of
  \<open>runWorker\<close> is a step that may happen at any time. Debugger has one isolate, whose message handler all requests share, and takes the text that a request
  returns at the time of the return. AppFile takes file names as they are and a disk that can be written; of two members \<open>assets\<close> of a request the second
  replaces the first. StartUp takes as given how often a bucket is missing, which set-up panics and whether the port of the service is free. Of the service, the
  command line and the storing of a test document are not covered; of the worker, \<open>UnwrapWorkerInstance\<close>, which nothing calls, is not; nor are the prototype
  in Node, the user interface and the Python scripts of the repository.
\<close>

section \<open>A loaded handler and its bucket\<close>

text \<open>
  C7. After a successful load, the alias of the worker's bucket is bound to an object through which a
  handler's write, under a key the server accepts, reaches that bucket: the host call for the write returns the value, and the host call
  for a read of the same key returns it again.
\<close>

theorem handler_bucket_access:
  assumes load: "WorkerLoad L name_s src (w, x) = Inr (SUCCESS, w', x')" "handles_ready w b n q"
    and aliases: "bucket_alias b \<noteq> n1ql_alias n" "bucket_alias b \<noteq> queue_alias q"
    and libs: "reachable_cluster (lib_lcb L)" "utf8_round_trip (lib_v8 L) key" "json_round_trip (lib_v8 L) v" "NUL \<notin> set key" "key_ok key"
    and apart: "bucket_lcb_obj b \<noteq> bucket_worker_cb b \<or> \<not> list_all is_digit key"
  shows "\<exists>obj x''. context_globals w' (bucket_alias b) = Some obj
    \<and> host_dispatch L (SetProperty obj (StringName (v8_string (lib_v8 L) key)) v) (w', x') = Inr (host_reply.Value v, w', x'')
    \<and> host_dispatch L (GetProperty obj (StringName (v8_string (lib_v8 L) key))) (w', x'') = Inr (host_reply.Value v, w', x'')"
proof -
  have g: "context_globals w' (bucket_alias b) = Some (bucket_object b)"
    using WorkerLoad_installs [OF load] aliases by (simp add: installed_def)
  obtain s where "BucketSet (lib_v8 L) (lib_lcb L) (lib_little_endian L) (StringName (v8_string (lib_v8 L) key)) v (bucket_object b) (cluster x')
        = Inr (Returned v, s)"
    "BucketGet (lib_v8 L) (lib_lcb L) (StringName (v8_string (lib_v8 L) key)) (bucket_object b) s = Inr (Returned v, s)"
    using bucket_write_read [OF libs bucket_object_unwrap apart] by blast
  moreover have "obj_handlers (bucket_object b) = BucketHandlers" by (simp add: bucket_object_def)
  ultimately show ?thesis
    using g by (intro exI [of _ "bucket_object b"] exI [of _ "x'\<lparr>cluster := s\<rparr>"])
      (simp add: host_dispatch_def set_property_def get_property_def)
qed

theorem handler_bucket_access_witness:
  "\<exists>w' obj x''. WorkerLoad (ref_libs ends_quietly) ''app1'' ref_source (ref_worker, ref_world) = Inr (SUCCESS, w', ref_world)
    \<and> context_globals w' ''credit'' = Some obj
    \<and> host_dispatch (ref_libs ends_quietly) (SetProperty obj (StringName ''user'') ''{}'') (w', ref_world) = Inr (host_reply.Value ''{}'', w', x'')
    \<and> host_dispatch (ref_libs ends_quietly) (GetProperty obj (StringName ''user'')) (w', x'') = Inr (host_reply.Value ''{}'', w', x'')"
proof -
  let ?L = "ref_libs ends_quietly"
  obtain w' where l: "WorkerLoad ?L ''app1'' ref_source (ref_worker, ref_world) = Inr (SUCCESS, w', ref_world)"
    using ref_load by blast
  have "v8_string (lib_v8 ?L) ''user'' = ''user''" by (simp add: ref_v8_def)
  moreover have "\<exists>obj x''. context_globals w' (bucket_alias ref_bucket) = Some obj
    \<and> host_dispatch ?L (SetProperty obj (StringName (v8_string (lib_v8 ?L) ''user'')) ''{}'') (w', ref_world) = Inr (host_reply.Value ''{}'', w', x'')
    \<and> host_dispatch ?L (GetProperty obj (StringName (v8_string (lib_v8 ?L) ''user''))) (w', x'') = Inr (host_reply.Value ''{}'', w', x'')"
    by (rule handler_bucket_access [OF l ref_handles_ready])
      (simp_all add: ref_bucket_def ref_n1ql_def ref_queue_def Bucket_new_def N1QL_new_def key_ok_def c_eval)
  moreover have "bucket_alias ref_bucket = ''credit''" by (simp add: ref_bucket_def Bucket_new_def c_eval)
  ultimately show ?thesis using l by auto
qed

section \<open>A loaded handler and its timers\<close>


text \<open>A handler that registers a timer for a minute later.\<close>

definition registers_one :: "string \<Rightarrow> string \<Rightarrow> string argument list \<Rightarrow> (string, string) js" where
  "registers_one h f args = register_calls ref_v8 [ref_registration] h"


end
